(* ===== verification/Mapi_Prelude.thy ===== *)
theory Mapi_Prelude
  imports Main "HOL-Library.Word" "HOL-Library.Sublist"
begin

text \<open>
  Shared vocabulary of the development.

  A byte is a HOL \<open>char\<close> (eight bits), so a Rust \<open>Vec<u8>\<close>, \<open>&[u8]\<close> or \<open>&str\<close> is a
  \<open>string\<close>: the string literals of the source are the string literals of the model, and a
  \<open>&str\<close> is its UTF-8 byte sequence. A \<open>usize\<close> is a \<open>nat\<close> bounded by \<open>usize_max\<close> (64-bit
  targets) with the checked and saturating operations written out; the other machine integers
  are an \<open>int\<close> with the bounds of their type written out, or a word where the code works on bits.

  \<open>outcome\<close> is Rust's \<open>Result\<close> with two more ways to end: \<open>Panic\<close> (a failed assertion, an
  out-of-range index, an arithmetic overflow) and \<open>NoFuel\<close> (a loop whose step budget is used up;
  every such loop has a lemma that says which budget is enough).

  The theory also models what the sources use of the standard library: prefixes, splitting and
  trimming of byte strings, the ASCII classes, UTF-8 validation and lossy decoding, integer
  parsing and printing. Operations of third-party crates (memchr, bstr, atoi, hex) are fields of
  the record \<open>libs\<close>; the locale \<open>byte_search\<close> states their documented behaviour.
\<close>

named_theorems rust_simps
  "unfolding rules for the control-flow combinators and the small byte operations"

type_synonym byte = char
type_synonym bytes = string

abbreviation usize_max :: nat where
  "usize_max \<equiv> 18446744073709551615"

abbreviation byte_val :: "byte \<Rightarrow> nat" where
  "byte_val c \<equiv> of_char c"

abbreviation byte_of :: "nat \<Rightarrow> byte" where
  "byte_of n \<equiv> char_of n"

section \<open>Results\<close>

datatype ('a, 'e) outcome = Ok 'a | Err 'e | Panic | NoFuel

text \<open>The \<open>?\<close> operator: go on with the value, hand everything else to the caller.\<close>

fun bindR :: "('a, 'e) outcome \<Rightarrow> ('a \<Rightarrow> ('b, 'e) outcome) \<Rightarrow> ('b, 'e) outcome" where
  "bindR (Ok x) f = f x"
| "bindR (Err e) f = Err e"
| "bindR Panic f = Panic"
| "bindR NoFuel f = NoFuel"

text \<open>The same for a method on \<open>&mut self\<close>: the state survives an error.\<close>

fun bindS :: "('a, 'e) outcome \<times> 's \<Rightarrow> ('a \<Rightarrow> 's \<Rightarrow> ('b, 'e) outcome \<times> 's) \<Rightarrow> ('b, 'e) outcome \<times> 's"
  where
  "bindS (Ok x, s) f = f x s"
| "bindS (Err e, s) f = (Err e, s)"
| "bindS (Panic, s) f = (Panic, s)"
| "bindS (NoFuel, s) f = (NoFuel, s)"

fun map_err :: "('e \<Rightarrow> 'f) \<Rightarrow> ('a, 'e) outcome \<Rightarrow> ('a, 'f) outcome" where
  "map_err h (Ok x) = Ok x"
| "map_err h (Err e) = Err (h e)"
| "map_err h Panic = Panic"
| "map_err h NoFuel = NoFuel"

fun ok_or :: "'e \<Rightarrow> 'a option \<Rightarrow> ('a, 'e) outcome" where
  "ok_or e None = Err e"
| "ok_or e (Some x) = Ok x"

text \<open>A run that ends the way Rust's type says: a value or an error.\<close>

fun returns :: "('a, 'e) outcome \<Rightarrow> bool" where
  "returns (Ok _) = True"
| "returns (Err _) = True"
| "returns Panic = False"
| "returns NoFuel = False"

lemma bindR_Ok_iff [simp]: "bindR m f = Ok y \<longleftrightarrow> (\<exists>x. m = Ok x \<and> f x = Ok y)"
  by (cases m) auto

lemma bindR_Err_iff: "bindR m f = Err e \<longleftrightarrow> m = Err e \<or> (\<exists>x. m = Ok x \<and> f x = Err e)"
  by (cases m) auto

lemma bindR_Panic_iff: "bindR m f = Panic \<longleftrightarrow> m = Panic \<or> (\<exists>x. m = Ok x \<and> f x = Panic)"
  by (cases m) auto

lemma bindR_assoc: "bindR (bindR m f) g = bindR m (\<lambda>x. bindR (f x) g)"
  by (cases m) auto

lemma bindR_Ok_right [simp]: "bindR m Ok = m"
  by (cases m) auto

lemma bindR_cong [fundef_cong]:
  "m = m' \<Longrightarrow> (\<And>x. m' = Ok x \<Longrightarrow> f x = g x) \<Longrightarrow> bindR m f = bindR m' g"
  by (cases m') auto

lemma bindS_cong [fundef_cong]:
  "m = m' \<Longrightarrow> (\<And>x s. m' = (Ok x, s) \<Longrightarrow> f x s = g x s) \<Longrightarrow> bindS m f = bindS m' g"
  by (cases "(m', f)" rule: bindS.cases) auto

lemma bindS_keeps:
  assumes "J (snd m)" and "\<And>x s. m = (Ok x, s) \<Longrightarrow> J s \<Longrightarrow> J (snd (f x s))"
  shows "J (snd (bindS m f))"
  using assms by (cases "(m, f)" rule: bindS.cases) auto

lemma bindS_Ok_iff:
  "bindS m f = (Ok y, t) \<longleftrightarrow> (\<exists>x s. m = (Ok x, s) \<and> f x s = (Ok y, t))"
  by (cases "(m, f)" rule: bindS.cases) auto

lemma bindR_returns [intro]:
  "returns m \<Longrightarrow> (\<And>x. m = Ok x \<Longrightarrow> returns (f x)) \<Longrightarrow> returns (bindR m f)"
  by (cases m) auto

lemma returns_bindR_iff:
  "returns (bindR m f) \<longleftrightarrow> returns m \<and> (\<forall>x. m = Ok x \<longrightarrow> returns (f x))"
  by (cases m) auto

lemma returns_iff: "returns m \<longleftrightarrow> m \<noteq> Panic \<and> m \<noteq> NoFuel"
  by (cases m) auto

lemma returns_map_err [simp]: "returns (map_err h m) = returns m"
  by (cases m) auto

lemma returns_ok_or [simp]: "returns (ok_or e x)"
  by (cases x) auto

lemma map_err_Ok_iff [simp]: "map_err h m = Ok x \<longleftrightarrow> m = Ok x"
  by (cases m) auto

lemma ok_or_Ok_iff [simp]: "ok_or e x = Ok y \<longleftrightarrow> x = Some y"
  by (cases x) auto

section \<open>Bytes\<close>

lemma byte_val_less: "byte_val c < 256"
  by simp

lemma byte_val_of [simp]: "n < 256 \<Longrightarrow> byte_val (byte_of n) = n"
  by simp

lemma byte_val_inject: "byte_val a = byte_val b \<longleftrightarrow> a = b"
  by (metis char_of_char)

section \<open>Byte strings: the slice and string methods the sources call\<close>

text \<open>\<open>starts_with\<close>, \<open>ends_with\<close>, \<open>strip_prefix\<close>, \<open>strip_suffix\<close>.\<close>

abbreviation starts_with :: "bytes \<Rightarrow> bytes \<Rightarrow> bool" where
  "starts_with s p \<equiv> prefix p s"

abbreviation ends_with :: "bytes \<Rightarrow> bytes \<Rightarrow> bool" where
  "ends_with s p \<equiv> suffix p s"

definition strip_prefix :: "bytes \<Rightarrow> bytes \<Rightarrow> bytes option" where
  "strip_prefix s p = (if prefix p s then Some (drop (length p) s) else None)"

definition strip_suffix :: "bytes \<Rightarrow> bytes \<Rightarrow> bytes option" where
  "strip_suffix s p = (if suffix p s then Some (take (length s - length p) s) else None)"

text \<open>\<open>Iterator::position\<close>: the index of the first element with the property.\<close>

fun first_index :: "('a \<Rightarrow> bool) \<Rightarrow> 'a list \<Rightarrow> nat option" where
  "first_index P [] = None"
| "first_index P (x # xs) = (if P x then Some 0 else map_option Suc (first_index P xs))"

text \<open>The first occurrence of a pattern, as \<open>str::find\<close>.\<close>

fun find_sub :: "bytes \<Rightarrow> bytes \<Rightarrow> nat option" where
  "find_sub n [] = (if n = [] then Some 0 else None)"
| "find_sub n (c # cs) = (if prefix n (c # cs) then Some 0 else map_option Suc (find_sub n cs))"

text \<open>The last occurrence, as \<open>memmem::rfind\<close>.\<close>

fun rfind_sub :: "bytes \<Rightarrow> bytes \<Rightarrow> nat option" where
  "rfind_sub n [] = (if n = [] then Some 0 else None)"
| "rfind_sub n (c # cs) = (case rfind_sub n cs of
      Some i \<Rightarrow> Some (Suc i)
    | None \<Rightarrow> if prefix n (c # cs) then Some 0 else None)"

text \<open>\<open>split\<close> at every byte with the property: one more piece than there are such bytes.\<close>

fun split_by :: "(byte \<Rightarrow> bool) \<Rightarrow> bytes \<Rightarrow> bytes list" where
  "split_by P [] = [[]]"
| "split_by P (c # cs) = (if P c then [] # split_by P cs
     else (case split_by P cs of [] \<Rightarrow> [[c]] | p # ps \<Rightarrow> (c # p) # ps))"

abbreviation split_on :: "byte \<Rightarrow> bytes \<Rightarrow> bytes list" where
  "split_on b \<equiv> split_by (\<lambda>c. c = b)"

text \<open>\<open>split_once\<close>: what precedes and what follows the first occurrence.\<close>

definition split_once :: "bytes \<Rightarrow> bytes \<Rightarrow> (bytes \<times> bytes) option" where
  "split_once pat s = (case find_sub pat s of None \<Rightarrow> None
     | Some i \<Rightarrow> Some (take i s, drop (i + length pat) s))"

lemma find_sub_bound: "find_sub n s = Some i \<Longrightarrow> i + length n \<le> length s"
  by (induction n s arbitrary: i rule: find_sub.induct)
     (auto split: if_splits dest: prefix_length_le)

lemma find_sub_shrinks:
  assumes "find_sub n s = Some i" and "n \<noteq> []"
  shows "length s - (i + length n) < length s"
proof -
  have "i + length n \<le> length s" using assms(1) by (rule find_sub_bound)
  moreover have "0 < length n" using assms(2) by simp
  ultimately show ?thesis by linarith
qed

text \<open>\<open>split\<close> at every occurrence of a (non-empty) pattern.\<close>

function split_str :: "bytes \<Rightarrow> bytes \<Rightarrow> bytes list" where
  "split_str pat s = (case find_sub pat s of None \<Rightarrow> [s]
     | Some i \<Rightarrow> if pat = [] then [s]
                else take i s # split_str pat (drop (i + length pat) s))"
  by pat_completeness auto
termination
  by (relation "measure (\<lambda>(pat, s). length s)") (auto simp: find_sub_shrinks)

declare split_str.simps [simp del]

section \<open>ASCII classes\<close>

definition is_ascii_digit :: "byte \<Rightarrow> bool" where
  "is_ascii_digit c \<longleftrightarrow> 48 \<le> byte_val c \<and> byte_val c \<le> 57"

definition is_ascii_lower :: "byte \<Rightarrow> bool" where
  "is_ascii_lower c \<longleftrightarrow> 97 \<le> byte_val c \<and> byte_val c \<le> 122"

definition is_ascii_upper :: "byte \<Rightarrow> bool" where
  "is_ascii_upper c \<longleftrightarrow> 65 \<le> byte_val c \<and> byte_val c \<le> 90"

definition is_ascii_alphanumeric :: "byte \<Rightarrow> bool" where
  "is_ascii_alphanumeric c \<longleftrightarrow> is_ascii_digit c \<or> is_ascii_lower c \<or> is_ascii_upper c"

text \<open>\<open>u8::is_ascii_whitespace\<close>: space, tab, line feed, form feed, carriage return.\<close>

definition is_ascii_whitespace :: "byte \<Rightarrow> bool" where
  "is_ascii_whitespace c \<longleftrightarrow> byte_val c \<in> {32, 9, 10, 12, 13}"

definition to_ascii_lowercase :: "byte \<Rightarrow> byte" where
  "to_ascii_lowercase c = (if is_ascii_upper c then byte_of (byte_val c + 32) else c)"

definition eq_ignore_ascii_case :: "bytes \<Rightarrow> bytes \<Rightarrow> bool" where
  "eq_ignore_ascii_case a b \<longleftrightarrow> map to_ascii_lowercase a = map to_ascii_lowercase b"

definition trim_ascii :: "bytes \<Rightarrow> bytes" where
  "trim_ascii s = rev (dropWhile is_ascii_whitespace (rev (dropWhile is_ascii_whitespace s)))"

abbreviation digit_val :: "byte \<Rightarrow> nat" where
  "digit_val c \<equiv> byte_val c - 48"

abbreviation digit_of :: "nat \<Rightarrow> byte" where
  "digit_of d \<equiv> byte_of (d + 48)"

lemmas ascii_defs = is_ascii_digit_def is_ascii_lower_def is_ascii_upper_def
  is_ascii_alphanumeric_def is_ascii_whitespace_def

lemma digit_of_digit [simp]: "d < 10 \<Longrightarrow> is_ascii_digit (digit_of d)"
  by (simp add: is_ascii_digit_def)

lemma digit_val_bound: "is_ascii_digit c \<Longrightarrow> digit_val c < 10"
  by (auto simp: is_ascii_digit_def)

section \<open>Lemmas on searching and splitting\<close>

lemma first_index_Some:
  "first_index P xs = Some i \<Longrightarrow> i < length xs \<and> P (xs ! i) \<and> (\<forall>j<i. \<not> P (xs ! j))"
proof (induction xs arbitrary: i)
  case (Cons x xs)
  show ?case
  proof (cases "P x")
    case False
    with Cons.prems obtain k where "first_index P xs = Some k" and "i = Suc k" by auto
    with Cons.IH False show ?thesis by (auto simp: less_Suc_eq_0_disj)
  qed (use Cons.prems in simp)
qed simp

lemma first_index_None: "first_index P xs = None \<longleftrightarrow> (\<forall>x\<in>set xs. \<not> P x)"
  by (induction xs) auto

lemma first_index_append:
  "first_index P (xs @ ys) = (case first_index P xs of Some i \<Rightarrow> Some i
     | None \<Rightarrow> map_option (\<lambda>i. length xs + i) (first_index P ys))"
  by (induction xs; cases "first_index P ys") (auto split: option.splits)

lemma first_index_hit:
  "(\<And>x. x \<in> set xs \<Longrightarrow> \<not> P x) \<Longrightarrow> P y \<Longrightarrow> first_index P (xs @ y # ys) = Some (length xs)"
  by (induction xs) auto

lemma split_by_nonempty [simp]: "split_by P s \<noteq> []"
  by (cases s) (auto split: list.splits)

lemma split_by_none: "(\<And>c. c \<in> set s \<Longrightarrow> \<not> P c) \<Longrightarrow> split_by P s = [s]"
  by (induction s) auto

lemma split_by_step:
  "(\<And>c. c \<in> set s \<Longrightarrow> \<not> P c) \<Longrightarrow> P d \<Longrightarrow> split_by P (s @ d # t) = s # split_by P t"
  by (induction s) auto

section \<open>UTF-8\<close>

text \<open>
  One step of the validation in \<open>core::str\<close>: whether the string starts with a well-formed
  character, and how many bytes that character, or the ill-formed sequence that
  \<open>from_utf8_lossy\<close> replaces, takes.
\<close>

definition is_cont :: "byte \<Rightarrow> bool" where
  "is_cont c \<longleftrightarrow> 128 \<le> byte_val c \<and> byte_val c < 192"

definition utf8_second3 :: "nat \<Rightarrow> byte \<Rightarrow> bool" where
  "utf8_second3 b c = (if b = 224 then 160 \<le> byte_val c \<and> byte_val c < 192
     else if b = 237 then 128 \<le> byte_val c \<and> byte_val c < 160 else is_cont c)"

definition utf8_second4 :: "nat \<Rightarrow> byte \<Rightarrow> bool" where
  "utf8_second4 b c = (if b = 240 then 144 \<le> byte_val c \<and> byte_val c < 192
     else if b = 244 then 128 \<le> byte_val c \<and> byte_val c < 144 else is_cont c)"

definition utf8_step :: "byte \<Rightarrow> bytes \<Rightarrow> bool \<times> nat" where
  "utf8_step c cs = (let b = byte_val c in
     if b < 128 then (True, 1)
     else if 194 \<le> b \<and> b < 224 then
       (case cs of c2 # _ \<Rightarrow> if is_cont c2 then (True, 2) else (False, 1) | [] \<Rightarrow> (False, 1))
     else if 224 \<le> b \<and> b < 240 then
       (case cs of c2 # r \<Rightarrow> if utf8_second3 b c2
          then (case r of c3 # _ \<Rightarrow> if is_cont c3 then (True, 3) else (False, 2) | [] \<Rightarrow> (False, 2))
          else (False, 1)
        | [] \<Rightarrow> (False, 1))
     else if 240 \<le> b \<and> b < 245 then
       (case cs of c2 # r \<Rightarrow> if utf8_second4 b c2
          then (case r of c3 # r' \<Rightarrow> if is_cont c3
                  then (case r' of c4 # _ \<Rightarrow> if is_cont c4 then (True, 4) else (False, 3)
                        | [] \<Rightarrow> (False, 3))
                  else (False, 2)
                | [] \<Rightarrow> (False, 2))
          else (False, 1)
        | [] \<Rightarrow> (False, 1))
     else (False, 1))"

lemma utf8_step_pos: "0 < snd (utf8_step c cs)"
  by (simp add: utf8_step_def Let_def split: list.splits)

text \<open>\<open>std::str::from_utf8\<close> succeeds exactly on these strings.\<close>

function utf8_valid :: "bytes \<Rightarrow> bool" where
  "utf8_valid [] = True"
| "utf8_valid (c # cs) = (fst (utf8_step c cs) \<and> utf8_valid (drop (snd (utf8_step c cs)) (c # cs)))"
  by pat_completeness auto
termination
  by (relation "measure length") (simp_all add: utf8_step_pos)

text \<open>\<open>String::from_utf8_lossy\<close>: every ill-formed sequence becomes U+FFFD.\<close>

function from_utf8_lossy :: "bytes \<Rightarrow> bytes" where
  "from_utf8_lossy [] = []"
| "from_utf8_lossy (c # cs) = (case utf8_step c cs of (ok, k) \<Rightarrow>
     (if ok then take k (c # cs) else map byte_of [239, 191, 189])
     @ from_utf8_lossy (drop (snd (utf8_step c cs)) (c # cs)))"
  by pat_completeness auto
termination
  by (relation "measure length") (simp_all add: utf8_step_pos)

lemma from_utf8_lossy_valid: "utf8_valid s \<Longrightarrow> from_utf8_lossy s = s"
proof (induction s rule: utf8_valid.induct)
  case (2 c cs)
  then show ?case by (cases "utf8_step c cs") simp
qed simp

lemma utf8_valid_ascii:
  "(\<And>c. c \<in> set s \<Longrightarrow> byte_val c < 128) \<Longrightarrow> utf8_valid (s @ t) = utf8_valid t"
  by (induction s) (simp_all add: utf8_step_def)

section \<open>Integers as text\<close>

text \<open>\<open>ParseIntError\<close> and the integer \<open>FromStr\<close> of the standard library, for the type with
  values \<open>lo..hi\<close>: a sign is allowed (\<open>-\<close> for signed types only), a lone sign is an invalid
  digit, and the digits are accumulated with checked arithmetic.\<close>

datatype parse_int_error = PE_Empty | PE_InvalidDigit | PE_Overflow

fun parse_acc :: "int \<Rightarrow> int \<Rightarrow> bool \<Rightarrow> int \<Rightarrow> bytes \<Rightarrow> (int, parse_int_error) outcome" where
  "parse_acc lo hi neg acc [] = Ok acc"
| "parse_acc lo hi neg acc (c # cs) =
     (if \<not> is_ascii_digit c then Err PE_InvalidDigit
      else let m = acc * 10; v = (if neg then m - int (digit_val c) else m + int (digit_val c)) in
        if m < lo \<or> hi < m \<or> v < lo \<or> hi < v then Err PE_Overflow
        else parse_acc lo hi neg v cs)"

definition parse_int :: "int \<Rightarrow> int \<Rightarrow> bytes \<Rightarrow> (int, parse_int_error) outcome" where
  "parse_int lo hi s = (case s of [] \<Rightarrow> Err PE_Empty
     | c # cs \<Rightarrow>
        if (c = CHR ''+'' \<or> c = CHR ''-'') \<and> cs = [] then Err PE_InvalidDigit
        else if c = CHR ''+'' then parse_acc lo hi False 0 cs
        else if c = CHR ''-'' \<and> lo < 0 then parse_acc lo hi True 0 cs
        else parse_acc lo hi False 0 (c # cs))"

text \<open>\<open>to_string\<close> of an unsigned and of a signed integer.\<close>

fun show_nat :: "nat \<Rightarrow> bytes" where
  "show_nat n = (if n < 10 then [digit_of n] else show_nat (n div 10) @ [digit_of (n mod 10)])"

declare show_nat.simps [simp del]

definition show_int :: "int \<Rightarrow> bytes" where
  "show_int i = (if i < 0 then CHR ''-'' # show_nat (nat (- i)) else show_nat (nat i))"

fun digits_val :: "nat \<Rightarrow> bytes \<Rightarrow> nat" where
  "digits_val acc [] = acc"
| "digits_val acc (c # cs) = digits_val (acc * 10 + digit_val c) cs"

lemma digits_val_append: "digits_val a (s @ t) = digits_val (digits_val a s) t"
  by (induction s arbitrary: a) simp_all

lemma show_nat_digits: "c \<in> set (show_nat n) \<Longrightarrow> is_ascii_digit c"
proof (induction n rule: show_nat.induct)
  case (1 n)
  then show ?case by (cases "n < 10") (auto simp: show_nat.simps [of n])
qed

lemma digits_val_show_nat [simp]: "digits_val 0 (show_nat n) = n"
proof (induction n rule: show_nat.induct)
  case (1 n)
  then show ?case by (cases "n < 10") (simp_all add: show_nat.simps [of n] digits_val_append)
qed

lemma show_nat_nonempty [simp]: "show_nat n \<noteq> []"
  by (simp add: show_nat.simps [of n])

lemma show_nat_length: "n < 10 ^ k \<Longrightarrow> 0 < k \<Longrightarrow> length (show_nat n) \<le> k"
proof (induction n arbitrary: k rule: show_nat.induct)
  case (1 n)
  show ?case
  proof (cases "n < 10")
    case False
    then have "k \<noteq> 1" using 1(2) by auto
    then obtain j where j: "k = Suc j" "0 < j" using 1(3) by (cases k) auto
    then have "n div 10 < 10 ^ j" using 1(2) by (simp add: less_mult_imp_div_less mult.commute)
    from 1(1) [OF False this j(2)] show ?thesis using False j by (simp add: show_nat.simps [of n])
  qed (use 1(3) in \<open>simp add: show_nat.simps [of n]\<close>)
qed

lemma digits_val_mono: "acc \<le> digits_val acc s"
proof (induction s arbitrary: acc)
  case (Cons c s)
  have "acc \<le> acc * 10 + digit_val c" by simp
  also have "\<dots> \<le> digits_val (acc * 10 + digit_val c) s" by (rule Cons.IH)
  finally show ?case by simp
qed simp

lemma parse_acc_digits:
  assumes "\<And>c. c \<in> set s \<Longrightarrow> is_ascii_digit c" and "lo \<le> 0" and "int (digits_val acc s) \<le> hi"
  shows "parse_acc lo hi False (int acc) s = Ok (int (digits_val acc s))"
  using assms
proof (induction s arbitrary: acc)
  case (Cons c s)
  have le: "int (acc * 10 + digit_val c) \<le> hi"
    using Cons.prems(3) digits_val_mono [of "acc * 10 + digit_val c" s] by simp
  have "is_ascii_digit c" using Cons.prems(1) by simp
  moreover have "parse_acc lo hi False (int (acc * 10 + digit_val c)) s
      = Ok (int (digits_val (acc * 10 + digit_val c) s))"
    using Cons.prems by (intro Cons.IH) simp_all
  ultimately show ?case
    using le Cons.prems(2) by (simp add: Let_def)
qed simp

lemma parse_int_digit:
  "is_ascii_digit c \<Longrightarrow> parse_int lo hi (c # cs) = parse_acc lo hi False 0 (c # cs)"
  by (auto simp: parse_int_def is_ascii_digit_def)

text \<open>Printing a number and parsing it back gives the number, where the type can hold it.\<close>

lemma parse_int_show_nat:
  assumes "lo \<le> 0" and "int n \<le> hi"
  shows "parse_int lo hi (show_nat n) = Ok (int n)"
proof -
  obtain c cs where s: "show_nat n = c # cs" by (cases "show_nat n") simp_all
  have d: "is_ascii_digit c" using show_nat_digits [of c n] by (simp add: s)
  have "parse_acc lo hi False (int 0) (show_nat n) = Ok (int (digits_val 0 (show_nat n)))"
    using assms show_nat_digits by (intro parse_acc_digits) auto
  then have "parse_acc lo hi False 0 (show_nat n) = Ok (int n)"
    by simp
  then show ?thesis using parse_int_digit [OF d] by (simp only: s)
qed

lemma parse_acc_negative:
  assumes "\<And>c. c \<in> set s \<Longrightarrow> is_ascii_digit c" and "0 \<le> hi" and "lo \<le> - int (digits_val acc s)"
  shows "parse_acc lo hi True (- int acc) s = Ok (- int (digits_val acc s))"
  using assms
proof (induction s arbitrary: acc)
  case (Cons c s)
  have "lo \<le> - int (acc * 10 + digit_val c)"
    using Cons.prems(3) digits_val_mono [of "acc * 10 + digit_val c" s] by simp
  moreover have "parse_acc lo hi True (- int (acc * 10 + digit_val c)) s = Ok (- int (digits_val (acc * 10 + digit_val c) s))"
    using Cons.prems by (intro Cons.IH) simp_all
  ultimately show ?case using Cons.prems(1,2) by (simp add: Let_def)
qed simp

lemma parse_int_show_int:
  assumes "lo \<le> i" and "i \<le> hi" and "lo < 0" and "0 \<le> hi"
  shows "parse_int lo hi (show_int i) = Ok i"
proof (cases "i < 0")
  case True
  have "parse_acc lo hi True (- int 0) (show_nat (nat (- i))) = Ok (- int (digits_val 0 (show_nat (nat (- i)))))"
    using assms True by (intro parse_acc_negative) (auto simp: show_nat_digits)
  then show ?thesis using True assms by (simp add: show_int_def parse_int_def)
next
  case False
  then show ?thesis using assms by (simp add: show_int_def parse_int_show_nat)
qed

text \<open>Whatever is parsed lies within the type and has the value of the digits.\<close>

lemma parse_acc_bounds: "parse_acc lo hi neg acc s = Ok v \<Longrightarrow> lo \<le> acc \<Longrightarrow> acc \<le> hi \<Longrightarrow> lo \<le> v \<and> v \<le> hi"
  by (induction s arbitrary: acc) (auto simp: Let_def split: if_splits)

lemma parse_acc_value:
  "parse_acc lo hi neg (if neg then - int acc else int acc) s = Ok v \<Longrightarrow> v = (if neg then - int (digits_val acc s) else int (digits_val acc s))"
proof (induction s arbitrary: acc)
  case (Cons c s)
  then show ?case using Cons.IH [of "acc * 10 + digit_val c"] by (cases neg) (auto simp: Let_def split: if_splits)
qed (auto split: if_splits)

lemma parse_int_show_int_Ok:
  assumes "parse_int lo hi (show_int i) = Ok v" and "lo \<le> 0" and "0 \<le> hi"
  shows "v = i \<and> lo \<le> i \<and> i \<le> hi"
proof (cases "i < 0")
  case True
  then have "parse_acc lo hi True 0 (show_nat (nat (- i))) = Ok v"
    using assms(1) by (auto simp: show_int_def parse_int_def is_ascii_digit_def split: if_splits)
  then show ?thesis using parse_acc_value [of lo hi True 0] parse_acc_bounds [of lo hi True 0] True assms(2,3) by fastforce
next
  case False
  obtain c cs where s: "show_nat (nat i) = c # cs" by (cases "show_nat (nat i)") simp_all
  have "is_ascii_digit c" using show_nat_digits [of c "nat i"] by (simp add: s)
  then have "parse_acc lo hi False 0 (show_nat (nat i)) = Ok v"
    using assms(1) False parse_int_digit [of c lo hi cs] by (simp add: show_int_def s)
  then show ?thesis using parse_acc_value [of lo hi False 0] parse_acc_bounds [of lo hi False 0] False assms(2,3) by fastforce
qed

section \<open>Third-party operations\<close>

text \<open>
  What the sources call of the crates memchr, bstr and atoi, as one record that the definitions
  take as their argument \<open>L\<close>.
\<close>

record libs =
  memchr :: "byte \<Rightarrow> bytes \<Rightarrow> nat option"
  memchr2 :: "byte \<Rightarrow> byte \<Rightarrow> bytes \<Rightarrow> nat option"
  memmem_find :: "bytes \<Rightarrow> bytes \<Rightarrow> nat option"
  memmem_rfind :: "bytes \<Rightarrow> bytes \<Rightarrow> nat option"
  bstr_lines :: "bytes \<Rightarrow> bytes list"
  from_radix_10_checked :: "int \<Rightarrow> bytes \<Rightarrow> int option \<times> nat"

text \<open>Reference behaviour: lines end with a line feed, possibly after a carriage return, and what
  follows the last line feed is a line if it is not empty; the leading digits are read up to the
  first other byte, and a number above the type's maximum \<open>hi\<close> gives no value.\<close>

definition chomp_cr :: "bytes \<Rightarrow> bytes" where
  "chomp_cr l = (if l \<noteq> [] \<and> last l = CHR 0x0d then butlast l else l)"

definition ref_lines :: "bytes \<Rightarrow> bytes list" where
  "ref_lines s = (let ps = split_on (CHR 0x0a) s in
     map chomp_cr (butlast ps) @ (if last ps = [] then [] else [last ps]))"

definition ref_radix :: "int \<Rightarrow> bytes \<Rightarrow> int option \<times> nat" where
  "ref_radix hi s = (let ds = takeWhile is_ascii_digit s; v = int (digits_val 0 ds) in
     (if v \<le> hi then Some v else None, length ds))"

definition ref_libs :: libs where
  "ref_libs = \<lparr>memchr = (\<lambda>c. first_index (\<lambda>x. x = c)), memchr2 = (\<lambda>a b. first_index (\<lambda>x. x = a \<or> x = b)),
     memmem_find = (\<lambda>h n. find_sub n h), memmem_rfind = (\<lambda>h n. rfind_sub n h),
     bstr_lines = ref_lines, from_radix_10_checked = ref_radix\<rparr>"

locale byte_search =
  fixes L :: libs
  assumes memchr_first: "memchr L c s = first_index (\<lambda>x. x = c) s"
    and memchr2_first: "memchr2 L a b s = first_index (\<lambda>x. x = a \<or> x = b) s"
    and memmem_first: "memmem_find L h n = find_sub n h"
    and memmem_last: "memmem_rfind L h n = rfind_sub n h"
    and lines_are: "bstr_lines L s = ref_lines s"
    and radix_is: "from_radix_10_checked L hi s = ref_radix hi s"

interpretation ref_libs: byte_search ref_libs
  by unfold_locales (simp_all add: ref_libs_def)

section \<open>Integer types\<close>

text \<open>A Rust integer type is the pair of its bounds; \<open>checked\<close> is the range test of the checked
  operations.\<close>

type_synonym int_type = "int \<times> int"

abbreviation i8 :: int_type where "i8 \<equiv> (- 128, 127)"
abbreviation u8 :: int_type where "u8 \<equiv> (0, 255)"
abbreviation i16 :: int_type where "i16 \<equiv> (- 32768, 32767)"
abbreviation u16 :: int_type where "u16 \<equiv> (0, 65535)"
abbreviation i32 :: int_type where "i32 \<equiv> (- 2147483648, 2147483647)"
abbreviation u32 :: int_type where "u32 \<equiv> (0, 4294967295)"
abbreviation i64 :: int_type where "i64 \<equiv> (- 9223372036854775808, 9223372036854775807)"
abbreviation u64 :: int_type where "u64 \<equiv> (0, 18446744073709551615)"
abbreviation i128 :: int_type where
  "i128 \<equiv> (- 170141183460469231731687303715884105728, 170141183460469231731687303715884105727)"
abbreviation u128 :: int_type where "u128 \<equiv> (0, 340282366920938463463374607431768211455)"

fun checked :: "int_type \<Rightarrow> int \<Rightarrow> int option" where
  "checked (lo, hi) v = (if lo \<le> v \<and> v \<le> hi then Some v else None)"

text \<open>A type that holds zero and the decimal digits.\<close>

fun decimal_type :: "int_type \<Rightarrow> bool" where
  "decimal_type (lo, hi) = (lo \<le> 0 \<and> 10 \<le> hi)"

end
