(* ===== verification/Framing_Blocks.thy ===== *)
theory Framing_Blocks
  imports Mapi_Prelude
begin

text \<open>
  The block structure of a MAPI message, \<open>src/framing/blockstate.rs\<close>: the two-byte block header
  (\<open>Header\<close>), the decoder state (\<open>BlockState\<close>) and \<open>skip_headers\<close>, which finds the next run of
  payload bytes in a buffer.

  The specification side is a decoder that is fed one byte at a time (\<open>feed\<close>, \<open>feeds\<close>) and a
  reference encoder (\<open>frame\<close>). The lemmas show that \<open>skip_headers\<close> agrees with the byte-wise
  decoder on every input, that decoding is independent of how the stream is cut into buffers,
  and that decoding a framed message gives the message back and stops exactly at its end.
\<close>

unbundle bit_operations_syntax

section \<open>Model of the code\<close>

datatype FramingError = InvalidBlockSize | InvalidHeaderLength nat | MessageAlreadyComplete | TooLong

abbreviation BLOCKSIZE :: nat where
  "BLOCKSIZE \<equiv> 8190"

datatype Header = Header byte byte

text \<open>\<open>u16::to_le_bytes\<close> and \<open>u16::from_le_bytes\<close>.\<close>

definition u16_to_le_bytes :: "nat \<Rightarrow> byte \<times> byte" where
  "u16_to_le_bytes n = (byte_of (n mod 256), byte_of ((n div 256) mod 256))"

definition u16_from_le_bytes :: "byte \<Rightarrow> byte \<Rightarrow> nat" where
  "u16_from_le_bytes lo hi = byte_val lo + 256 * byte_val hi"

definition Header_new :: "nat \<Rightarrow> bool \<Rightarrow> (Header, FramingError) outcome" where
  "Header_new sz lst = (if sz \<le> BLOCKSIZE
     then let n = (2 * sz + of_bool lst) mod 65536; (lo, hi) = u16_to_le_bytes n in Ok (Header lo hi)
     else Panic)"

fun Header_size :: "Header \<Rightarrow> nat" where
  "Header_size (Header lo hi) = u16_from_le_bytes lo hi div 2"

fun Header_is_last :: "Header \<Rightarrow> bool" where
  "Header_is_last (Header lo hi) = (0 < (byte_val lo AND 1))"

fun Header_as_bytes :: "Header \<Rightarrow> bytes" where
  "Header_as_bytes (Header lo hi) = [lo, hi]"

definition Header_from_bytes :: "byte \<Rightarrow> byte \<Rightarrow> (Header, FramingError) outcome" where
  "Header_from_bytes lo hi = (let header = Header lo hi in
     if Header_size header \<le> BLOCKSIZE then Ok header else Err InvalidBlockSize)"

fun Header_from_slice :: "bytes \<Rightarrow> (Header, FramingError) outcome" where
  "Header_from_slice [lo, hi] = Header_from_bytes lo hi"
| "Header_from_slice bs = Err (InvalidHeaderLength (length bs))"

datatype BlockState = Start | PartialHeader byte | Body nat bool | End

definition BlockState_new :: "nat \<Rightarrow> bool \<Rightarrow> BlockState" where
  "BlockState_new remaining lst =
     (if remaining = 0 then (if lst then End else Start) else Body remaining lst)"

definition BlockState_from_header :: "Header \<Rightarrow> BlockState" where
  "BlockState_from_header h = BlockState_new (Header_size h) (Header_is_last h)"

text \<open>
  The loop of \<open>skip_headers\<close>, from position \<open>pos\<close> in state \<open>st\<close>. The result is the range
  \<open>pos..end\<close> of the payload found and the state after it.
\<close>

function skip_loop ::
  "BlockState \<Rightarrow> nat \<Rightarrow> bytes \<Rightarrow> ((nat \<times> nat) \<times> BlockState, FramingError) outcome" where
  "skip_loop st pos data =
     (if pos < length data then
        (let avail = length data - pos in
         case st of
           Body remaining lst \<Rightarrow>
             if avail < remaining then Ok ((pos, pos + avail), BlockState_new (remaining - avail) lst)
             else if remaining = 0 then Panic
             else Ok ((pos, pos + remaining), BlockState_new 0 lst)
         | Start \<Rightarrow>
             if 2 \<le> avail then
               bindR (Header_from_slice (take 2 (drop pos data)))
                 (\<lambda>header. skip_loop (BlockState_from_header header) (pos + 2) data)
             else if avail \<noteq> 1 \<or> pos \<noteq> length data - 1 then Panic
             else Ok ((length data, length data), PartialHeader (data ! pos))
         | PartialHeader lo \<Rightarrow>
             if avail = 0 then Panic
             else bindR (Header_from_bytes lo (data ! pos))
                    (\<lambda>header. skip_loop (BlockState_from_header header) (pos + 1) data)
         | End \<Rightarrow> Err MessageAlreadyComplete)
      else Ok ((length data, length data), st))"
  by pat_completeness auto
termination
  by (relation "measure (\<lambda>(st, pos, data). length data - pos)") auto

declare skip_loop.simps [simp del]

definition skip_headers ::
  "BlockState \<Rightarrow> bytes \<Rightarrow> ((nat \<times> nat) \<times> BlockState, FramingError) outcome" where
  "skip_headers st data = skip_loop st 0 data"

text \<open>\<open>interpret\<close> replaces the state only when \<open>skip_headers\<close> succeeds.\<close>

definition BlockState_interpret ::
  "BlockState \<Rightarrow> bytes \<Rightarrow> (nat \<times> nat, FramingError) outcome \<times> BlockState" where
  "BlockState_interpret st data = (case skip_headers st data of
       Ok (r, st') \<Rightarrow> (Ok r, st')
     | Err e \<Rightarrow> (Err e, st) | Panic \<Rightarrow> (Panic, st) | NoFuel \<Rightarrow> (NoFuel, st))"

section \<open>Specification: decoding byte by byte, and the reference encoder\<close>

fun feed :: "BlockState \<Rightarrow> byte \<Rightarrow> (bytes \<times> BlockState, FramingError) outcome" where
  "feed Start c = Ok ([], PartialHeader c)"
| "feed (PartialHeader lo) c =
     bindR (Header_from_bytes lo c) (\<lambda>h. Ok ([], BlockState_from_header h))"
| "feed (Body r l) c = Ok ([c], BlockState_new (r - 1) l)"
| "feed End c = Err MessageAlreadyComplete"

fun feeds :: "BlockState \<Rightarrow> bytes \<Rightarrow> (bytes \<times> BlockState, FramingError) outcome" where
  "feeds st [] = Ok ([], st)"
| "feeds st (c # cs) = bindR (feed st c) (\<lambda>(out, st').
     bindR (feeds st' cs) (\<lambda>(out', st''). Ok (out @ out', st'')))"

text \<open>The states the decoder can be in: a body has at least one and at most \<open>BLOCKSIZE\<close> bytes.\<close>

fun wf_block :: "BlockState \<Rightarrow> bool" where
  "wf_block (Body r l) = (0 < r \<and> r \<le> BLOCKSIZE)"
| "wf_block _ = True"

definition head :: "nat \<Rightarrow> bool \<Rightarrow> bytes" where
  "head sz lst = [byte_of ((2 * sz + of_bool lst) mod 256), byte_of ((2 * sz + of_bool lst) div 256)]"

text \<open>Blocks that do not end the message, and a whole message.\<close>

fun open_blocks :: "bytes \<Rightarrow> bytes" where
  "open_blocks m = (if m = [] then []
     else head (min (length m) BLOCKSIZE) False @ take BLOCKSIZE m @ open_blocks (drop BLOCKSIZE m))"

fun frame :: "bytes \<Rightarrow> bytes" where
  "frame m = (if length m \<le> BLOCKSIZE then head (length m) True @ m
     else head BLOCKSIZE False @ take BLOCKSIZE m @ frame (drop BLOCKSIZE m))"

declare open_blocks.simps [simp del] frame.simps [simp del]

section \<open>Headers\<close>

lemma Header_is_last_odd: "Header_is_last (Header lo hi) = odd (byte_val lo)"
  by (simp add: and_one_eq odd_iff_mod_2_eq_one)

lemma head_length [simp]: "length (head sz l) = 2"
  by (simp add: head_def)

lemma Header_new_head:
  "sz \<le> BLOCKSIZE \<Longrightarrow> \<exists>h. Header_new sz l = Ok h \<and> Header_as_bytes h = head sz l"
  by (simp add: Header_new_def head_def u16_to_le_bytes_def Let_def)

lemma head_decode:
  assumes "sz \<le> BLOCKSIZE"
  shows "\<exists>lo hi. head sz l = [lo, hi] \<and> Header_from_bytes lo hi = Ok (Header lo hi)
           \<and> BlockState_from_header (Header lo hi) = BlockState_new sz l"
proof -
  define n where "n = 2 * sz + (of_bool l :: nat)"
  define lo where "lo = byte_of (n mod 256)"
  define hi where "hi = byte_of (n div 256)"
  have "n < 65536" using assms by (simp add: n_def)
  then have v: "u16_from_le_bytes lo hi = n"
    by (simp add: u16_from_le_bytes_def lo_def hi_def less_mult_imp_div_less)
  have sz: "Header_size (Header lo hi) = sz" by (simp add: v n_def)
  have "odd (byte_val lo) = l"
    by (simp add: lo_def n_def odd_iff_mod_2_eq_one mod_mod_cancel)
  then have "Header_is_last (Header lo hi) = l" by (simp only: Header_is_last_odd)
  with sz assms have "Header_from_bytes lo hi = Ok (Header lo hi)"
    and "BlockState_from_header (Header lo hi) = BlockState_new sz l"
    by (simp_all only: Header_from_bytes_def BlockState_from_header_def Let_def if_True)
  moreover have "head sz l = [lo, hi]" by (simp only: head_def lo_def hi_def n_def)
  ultimately show ?thesis by blast
qed

lemma wf_block_new: "r \<le> BLOCKSIZE \<Longrightarrow> wf_block (BlockState_new r l)"
  by (simp add: BlockState_new_def)

lemma from_bytes_wf: "Header_from_bytes lo hi = Ok h \<Longrightarrow> wf_block (BlockState_from_header h)"
  by (auto simp: Header_from_bytes_def BlockState_from_header_def Let_def
      intro!: wf_block_new split: if_splits)

lemma from_bytes_returns [simp]: "returns (Header_from_bytes lo hi)"
  by (simp add: Header_from_bytes_def Let_def)

section \<open>The byte-wise decoder\<close>

lemma feed_wf: "wf_block st \<Longrightarrow> feed st c = Ok (out, st') \<Longrightarrow> wf_block st'"
  by (cases st) (auto dest: from_bytes_wf simp: wf_block_new)

lemma feeds_wf: "wf_block st \<Longrightarrow> feeds st cs = Ok (out, st') \<Longrightarrow> wf_block st'"
proof (induction cs arbitrary: st out)
  case (Cons c cs)
  then show ?case by (fastforce dest: feed_wf)
qed simp

lemma feeds_append:
  "feeds st (xs @ ys) = bindR (feeds st xs) (\<lambda>(p, st').
     bindR (feeds st' ys) (\<lambda>(q, st''). Ok (p @ q, st'')))"
  by (induction xs arbitrary: st) (simp_all add: bindR_assoc case_prod_unfold)

lemma feeds_append_Ok:
  "feeds st xs = Ok (p, st') \<Longrightarrow> feeds st (xs @ ys) = bindR (feeds st' ys) (\<lambda>(q, st''). Ok (p @ q, st''))"
  by (simp add: feeds_append)

lemma feeds_body:
  "length cs \<le> r \<Longrightarrow> cs \<noteq> [] \<Longrightarrow> feeds (Body r l) cs = Ok (cs, BlockState_new (r - length cs) l)"
proof (induction cs arbitrary: r)
  case (Cons c cs)
  show ?case
  proof (cases "cs = []")
    case False
    with Cons.prems(1) have "BlockState_new (r - 1) l = Body (r - 1) l"
      by (cases cs) (auto simp: BlockState_new_def)
    with Cons False show ?thesis by simp
  qed simp
qed simp

lemma feeds_head:
  assumes "sz \<le> BLOCKSIZE"
  shows "feeds Start (head sz l) = Ok ([], BlockState_new sz l)"
proof -
  from head_decode [OF assms, of l] obtain lo hi where "head sz l = [lo, hi]"
    and "Header_from_bytes lo hi = Ok (Header lo hi)"
    and "BlockState_from_header (Header lo hi) = BlockState_new sz l" by blast
  then show ?thesis by simp
qed

lemma feeds_block:
  assumes "length m \<le> BLOCKSIZE"
  shows "feeds Start (head (length m) l @ m) = Ok (m, if l then End else Start)"
proof (cases "m = []")
  case True
  with assms show ?thesis by (simp add: feeds_head BlockState_new_def)
next
  case False
  then have "feeds (BlockState_new (length m) l) m = Ok (m, BlockState_new 0 l)"
    using feeds_body [of m "length m" l] by (simp add: BlockState_new_def)
  with assms show ?thesis
    by (simp add: feeds_append feeds_head BlockState_new_def)
qed

lemma feeds_open_blocks: "feeds Start (open_blocks m) = Ok (m, Start)"
proof (induction m rule: open_blocks.induct)
  case (1 m)
  show ?case
  proof (cases "m = []")
    case False
    then have "feeds Start (open_blocks (drop BLOCKSIZE m)) = Ok (drop BLOCKSIZE m, Start)"
      by (rule "1.IH")
    moreover have "feeds Start (head (min (length m) BLOCKSIZE) False @ take BLOCKSIZE m)
        = Ok (take BLOCKSIZE m, Start)"
      using feeds_block [of "take BLOCKSIZE m" False] by (simp add: min.commute)
    ultimately show ?thesis
      using False by (simp add: open_blocks.simps [of m] feeds_append_Ok flip: append_assoc)
  qed (simp add: open_blocks.simps)
qed

lemma feeds_frame: "feeds Start (frame m) = Ok (m, End)"
proof (induction m rule: frame.induct)
  case (1 m)
  show ?case
  proof (cases "length m \<le> BLOCKSIZE")
    case True
    then show ?thesis by (simp add: frame.simps [of m] feeds_block)
  next
    case False
    then have "feeds Start (frame (drop BLOCKSIZE m)) = Ok (drop BLOCKSIZE m, End)"
      by (rule "1.IH")
    moreover have "feeds Start (head BLOCKSIZE False @ take BLOCKSIZE m) = Ok (take BLOCKSIZE m, Start)"
      using False feeds_block [of "take BLOCKSIZE m" False] by simp
    ultimately show ?thesis
      using False by (simp add: frame.simps [of m] feeds_append_Ok flip: append_assoc)
  qed
qed

section \<open>\<open>skip_headers\<close> refines the byte-wise decoder\<close>

text \<open>What a call on \<open>data\<close> from position \<open>pos\<close> has to return: a range inside the buffer whose
  bytes are the payload of everything read up to its end, or the error of the byte-wise decoder.\<close>

fun skip_spec ::
  "BlockState \<Rightarrow> nat \<Rightarrow> bytes \<Rightarrow> ((nat \<times> nat) \<times> BlockState, FramingError) outcome \<Rightarrow> bool" where
  "skip_spec st pos data (Ok ((a, b), st')) = (pos \<le> a \<and> a \<le> b \<and> b \<le> length data
     \<and> (a = b \<longrightarrow> b = length data) \<and> wf_block st'
     \<and> feeds st (take (b - pos) (drop pos data)) = Ok (take (b - a) (drop a data), st'))"
| "skip_spec st pos data (Err e) = (feeds st (drop pos data) = Err e)"
| "skip_spec st pos data Panic = False"
| "skip_spec st pos data NoFuel = False"

lemma feeds_two:
  "feeds Start (a # b # cs) = bindR (Header_from_bytes a b) (\<lambda>h. feeds (BlockState_from_header h) cs)"
  by (cases "Header_from_bytes a b") (auto simp: case_prod_unfold)

lemma feeds_one:
  "feeds (PartialHeader a) (b # cs)
     = bindR (Header_from_bytes a b) (\<lambda>h. feeds (BlockState_from_header h) cs)"
  by (cases "Header_from_bytes a b") (auto simp: case_prod_unfold)

lemma skip_spec_header:
  assumes hdr: "\<And>cs. feeds st (hs @ cs) = bindR (Header_from_bytes a b) (\<lambda>h. feeds (BlockState_from_header h) cs)"
    and dat: "drop pos data = hs @ drop pos' data" and pos': "pos' = pos + length hs"
    and le: "pos' \<le> length data"
    and IH: "\<And>h. Header_from_bytes a b = Ok h
       \<Longrightarrow> skip_spec (BlockState_from_header h) pos' data (skip_loop (BlockState_from_header h) pos' data)"
  shows "skip_spec st pos data (bindR (Header_from_bytes a b)
           (\<lambda>h. skip_loop (BlockState_from_header h) pos' data))"
proof (cases "Header_from_bytes a b")
  case (Ok h)
  let ?r = "skip_loop (BlockState_from_header h) pos' data"
  have take_hs: "take (e - pos) (drop pos data) = hs @ take (e - pos') (drop pos' data)"
    if "pos' \<le> e" for e
    using that pos' dat by simp
  have "skip_spec st pos data ?r"
  proof (cases ?r)
    case r: (Ok x)
    obtain a' b' st' where x: "x = ((a', b'), st')" by (metis surj_pair)
    with IH [OF Ok] r show ?thesis
      using pos' by (auto simp: take_hs hdr Ok)
  qed (use IH [OF Ok] in \<open>auto simp: dat hdr Ok\<close>)
  with Ok show ?thesis by simp
next
  case (Err e)
  with hdr [of "drop pos' data"] show ?thesis by (simp add: dat)
qed (use from_bytes_returns [of a b] in \<open>simp_all add: returns_iff\<close>)

lemma skip_loop_correct:
  "wf_block st \<Longrightarrow> pos \<le> length data \<Longrightarrow> skip_spec st pos data (skip_loop st pos data)"
proof (induction st pos data rule: skip_loop.induct)
  case (1 st pos data)
  show ?case
  proof (cases "pos < length data")
    case False
    with "1.prems" show ?thesis unfolding skip_loop.simps [of st pos data] by simp
  next
    case lt: True
    show ?thesis
    proof (cases st)
      case Start
      show ?thesis
      proof (cases "2 \<le> length data - pos")
        case True
        then have two: "drop pos data = [data ! pos, data ! (pos + 1)] @ drop (pos + 2) data"
          by (simp add: Cons_nth_drop_Suc [symmetric])
        then have tk: "take 2 (drop pos data) = [data ! pos, data ! (pos + 1)]"
          by simp
        have "skip_spec Start pos data (bindR (Header_from_bytes (data ! pos) (data ! (pos + 1)))
            (\<lambda>h. skip_loop (BlockState_from_header h) (pos + 2) data))"
          using lt True Start tk "1.IH"(1) from_bytes_wf
          by (intro skip_spec_header [OF _ two]) (auto simp: feeds_two simp del: feeds.simps)
        with lt True Start tk show ?thesis
          unfolding skip_loop.simps [of st pos data] by (simp add: Let_def)
      next
        case False
        with lt have "length data - pos = 1" by linarith
        moreover from this have "drop pos data = [data ! pos]"
          by (simp add: Cons_nth_drop_Suc [symmetric])
        ultimately show ?thesis
          unfolding skip_loop.simps [of st pos data] using lt Start by auto
      qed
    next
      case (PartialHeader lo)
      have one: "drop pos data = [data ! pos] @ drop (pos + 1) data"
        using lt by (simp add: Cons_nth_drop_Suc [symmetric])
      have "skip_spec (PartialHeader lo) pos data (bindR (Header_from_bytes lo (data ! pos))
          (\<lambda>h. skip_loop (BlockState_from_header h) (pos + 1) data))"
        using lt PartialHeader "1.IH"(2) from_bytes_wf
        by (intro skip_spec_header [OF _ one]) (auto simp: feeds_one simp del: feeds.simps)
      with lt PartialHeader show ?thesis
        unfolding skip_loop.simps [of st pos data] by (simp add: Let_def)
    next
      case (Body r l)
      have "feeds st (take (min r (length data - pos)) (drop pos data))
         = Ok (take (min r (length data - pos)) (drop pos data), BlockState_new (r - min r (length data - pos)) l)"
        using feeds_body [of "take (min r (length data - pos)) (drop pos data)" r l] Body lt "1.prems"
        by (simp add: min_def)
      with Body lt "1.prems" show ?thesis
        unfolding skip_loop.simps [of st pos data]
        by (auto simp: Let_def wf_block_new min_def)
    next
      case End
      with lt show ?thesis
        unfolding skip_loop.simps [of st pos data] by (simp add: Cons_nth_drop_Suc [symmetric])
    qed
  qed
qed

text \<open>The same for a whole buffer, split into the facts the callers use.\<close>

lemma skip_headers_correct: "wf_block st \<Longrightarrow> skip_spec st 0 data (skip_headers st data)"
  by (simp add: skip_headers_def skip_loop_correct)

lemma skip_headers_Ok:
  assumes "wf_block st" and "skip_headers st data = Ok ((a, b), st')"
  shows "a \<le> b" and "b \<le> length data" and "a = b \<Longrightarrow> b = length data" and "wf_block st'"
    and "feeds st (take b data) = Ok (take (b - a) (drop a data), st')"
  using skip_headers_correct [OF assms(1), of data] assms(2) by auto

lemma skip_headers_Err:
  "wf_block st \<Longrightarrow> skip_headers st data = Err e \<Longrightarrow> feeds st data = Err e"
  using skip_headers_correct [of st data] by simp

lemma skip_headers_returns: "wf_block st \<Longrightarrow> returns (skip_headers st data)"
  using skip_headers_correct [of st data] by (cases "skip_headers st data") auto

section \<open>Properties\<close>

text \<open>\<open>Header::new\<close> panics exactly above the block size; otherwise the header it builds carries the
  size and the end-of-message flag, and parsing its two bytes gives the header back.\<close>

theorem Header_roundtrip:
  "(if BLOCKSIZE < sz then Header_new sz lst = Panic
    else \<exists>h. Header_new sz lst = Ok h \<and> Header_size h = sz \<and> Header_is_last h = lst
           \<and> Header_from_slice (Header_as_bytes h) = Ok h)"
proof (cases "BLOCKSIZE < sz")
  case False
  define n where "n = 2 * sz + (of_bool lst :: nat)"
  have n: "n < 65536" using False by (simp add: n_def)
  have size: "u16_from_le_bytes (byte_of (n mod 256)) (byte_of (n div 256)) = n"
    using n by (simp add: u16_from_le_bytes_def less_mult_imp_div_less)
  have "odd (n mod 256) = odd n" by (simp add: odd_iff_mod_2_eq_one mod_mod_cancel)
  then have last: "odd (byte_val (byte_of (n mod 256))) = lst"
    by (simp add: n_def)
  let ?h = "Header (byte_of (n mod 256)) (byte_of (n div 256))"
  have "Header_size ?h = sz" by (simp only: Header_size.simps size) (simp add: n_def)
  moreover have "Header_is_last ?h = lst" using last by (simp only: Header_is_last_odd)
  moreover have "Header_new sz lst = Ok ?h"
    using False n by (simp add: Header_new_def u16_to_le_bytes_def Let_def n_def)
  ultimately show ?thesis
    using False by (simp add: Header_from_bytes_def Let_def del: Header_size.simps)
qed (simp add: Header_new_def)

text \<open>C7. On every buffer and in every reachable decoder state \<open>skip_headers\<close> agrees with the byte-wise
  decoder: it never panics; the range it returns lies in the buffer, is empty only at its end, and
  holds exactly the payload of the bytes up to its end, with the state the byte-wise decoder reaches
  there; an error is the error of the byte-wise decoder.\<close>

theorem skip_headers_refines_feeds:
  assumes "wf_block st"
  shows "case skip_headers st data of
      Ok ((a, b), st') \<Rightarrow> a \<le> b \<and> b \<le> length data \<and> (a = b \<longrightarrow> b = length data) \<and> wf_block st'
        \<and> feeds st (take b data) = Ok (take (b - a) (drop a data), st')
    | Err e \<Rightarrow> feeds st data = Err e
    | _ \<Rightarrow> False"
  using skip_headers_correct [OF assms, of data] by (auto split: outcome.splits)

theorem skip_headers_refines_feeds_witness:
  "wf_block (PartialHeader (CHR 0x0a)) \<and>
   (case skip_headers (PartialHeader (CHR 0x0a)) ([CHR 0x00] @ ''abcde'' @ [CHR 0x01]) of
      Ok ((a, b), st') \<Rightarrow> a \<le> b \<and> b \<le> length ([CHR 0x00] @ ''abcde'' @ [CHR 0x01])
        \<and> (a = b \<longrightarrow> b = length ([CHR 0x00] @ ''abcde'' @ [CHR 0x01])) \<and> wf_block st'
        \<and> feeds (PartialHeader (CHR 0x0a)) (take b ([CHR 0x00] @ ''abcde'' @ [CHR 0x01]))
            = Ok (take (b - a) (drop a ([CHR 0x00] @ ''abcde'' @ [CHR 0x01])), st')
    | Err e \<Rightarrow> feeds (PartialHeader (CHR 0x0a)) ([CHR 0x00] @ ''abcde'' @ [CHR 0x01]) = Err e
    | _ \<Rightarrow> False)"
  by (rule conjI, simp, rule skip_headers_refines_feeds, simp)

end
