(* ===== verification/Framing_Writing.thy ===== *)
theory Framing_Writing
  imports Framing_Blocks
begin

text \<open>
  The output buffer \<open>MapiBuf\<close> of \<open>src/framing/writing.rs\<close>: appended data is cut into blocks in
  place, a dummy header being patched when its block is complete, and several messages can be
  collected before the buffer is handed to the socket.

  The locale \<open>message_writer\<close> is the contract its clients rely on: a writer holds a list of
  complete messages and the text of the message being written, appending extends that text,
  ending the message moves it to the list, and resetting yields the framed messages.
  \<open>MapiBuf\<close> is shown to meet it.
\<close>

section \<open>Model of the code\<close>

record MapiBuf =
  mb_buffer :: bytes
  block_left :: nat
  reset_pending :: bool

definition dummy_header :: bytes where
  "dummy_header = [byte_of 255, byte_of 255]"

definition MapiBuf_with_buf :: "bytes \<Rightarrow> MapiBuf" where
  "MapiBuf_with_buf buf = \<lparr>mb_buffer = [] @ dummy_header, block_left = BLOCKSIZE, reset_pending = False\<rparr>"

definition MapiBuf_new :: MapiBuf where
  "MapiBuf_new = MapiBuf_with_buf []"

definition prepare_reset :: "MapiBuf \<Rightarrow> MapiBuf" where
  "prepare_reset mb = (if reset_pending mb
     then mb\<lparr>mb_buffer := take 2 (mb_buffer mb), reset_pending := False\<rparr> else mb)"

text \<open>\<open>finish_block\<close> patches the header of the current block; the subtractions are on \<open>usize\<close>
  and panic below zero.\<close>

definition finish_block :: "bool \<Rightarrow> MapiBuf \<Rightarrow> (MapiBuf, FramingError) outcome" where
  "finish_block fin mb =
     (if BLOCKSIZE < block_left mb then Panic
      else let used = BLOCKSIZE - block_left mb in
        bindR (Header_new used fin) (\<lambda>header.
          if length (mb_buffer mb) < used + 2 then Panic
          else let start = length (mb_buffer mb) - used - 2;
                   patched = take start (mb_buffer mb) @ Header_as_bytes header
                             @ drop (start + 2) (mb_buffer mb)
               in Ok (mb\<lparr>mb_buffer := patched @ dummy_header, block_left := BLOCKSIZE\<rparr>)))"

lemma finish_block_left: "finish_block fin mb = Ok mb' \<Longrightarrow> block_left mb' = BLOCKSIZE"
  by (auto simp: finish_block_def Let_def split: if_splits)

function append_long :: "bytes \<Rightarrow> MapiBuf \<Rightarrow> (MapiBuf, FramingError) outcome" where
  "append_long data mb = (if data = [] then Ok mb
     else bindR (if block_left mb = 0 then finish_block False mb else Ok mb) (\<lambda>mb'.
       let n = min (length data) (block_left mb')
       in append_long (drop n data)
            (mb'\<lparr>mb_buffer := mb_buffer mb' @ take n data, block_left := block_left mb' - n\<rparr>)))"
  by pat_completeness auto
termination
  by (relation "measure (length \<circ> fst)") (auto split: if_splits dest: finish_block_left)

declare append_long.simps [simp del]

definition MapiBuf_append :: "bytes \<Rightarrow> MapiBuf \<Rightarrow> (MapiBuf, FramingError) outcome" where
  "MapiBuf_append data mb = (let mb = prepare_reset mb in
     if length data \<le> block_left mb
     then Ok (mb\<lparr>mb_buffer := mb_buffer mb @ data, block_left := block_left mb - length data\<rparr>)
     else append_long data mb)"

definition MapiBuf_end :: "MapiBuf \<Rightarrow> (MapiBuf, FramingError) outcome" where
  "MapiBuf_end mb = finish_block True (prepare_reset mb)"

text \<open>\<open>reset\<close> hands out the bytes collected; \<open>debug\<close> says whether debug assertions are compiled in.\<close>

definition MapiBuf_reset :: "bool \<Rightarrow> MapiBuf \<Rightarrow> (bytes \<times> MapiBuf, FramingError) outcome" where
  "MapiBuf_reset debug mb = (let mb = prepare_reset mb in
     if debug \<and> block_left mb \<noteq> BLOCKSIZE then Panic
     else if block_left mb = BLOCKSIZE \<and> length (mb_buffer mb) < 2 then Panic
     else let raw_len = (if block_left mb = BLOCKSIZE then length (mb_buffer mb) - 2
                         else length (mb_buffer mb))
          in Ok (take raw_len (mb_buffer mb), mb\<lparr>block_left := BLOCKSIZE, reset_pending := True\<rparr>))"

definition MapiBuf_end_reset :: "bool \<Rightarrow> MapiBuf \<Rightarrow> (bytes \<times> MapiBuf, FramingError) outcome" where
  "MapiBuf_end_reset debug mb = bindR (MapiBuf_end mb) (MapiBuf_reset debug)"

definition MapiBuf_peek :: "MapiBuf \<Rightarrow> bytes" where
  "MapiBuf_peek mb = (if reset_pending mb then [] else mb_buffer mb)"

text \<open>The loop of \<open>write_reset_plus\<close> over the extra chunks.\<close>

fun append_all :: "bytes list \<Rightarrow> MapiBuf \<Rightarrow> (MapiBuf, FramingError) outcome" where
  "append_all [] mb = Ok mb"
| "append_all (chunk # extra) mb = bindR (MapiBuf_append chunk mb) (append_all extra)"

section \<open>The contract of a message writer\<close>

locale message_writer =
  fixes wnew :: 'w
    and wappend :: "bytes \<Rightarrow> 'w \<Rightarrow> ('w, FramingError) outcome"
    and wend :: "'w \<Rightarrow> ('w, FramingError) outcome"
    and wreset :: "'w \<Rightarrow> (bytes \<times> 'w, FramingError) outcome"
    and holds :: "'w \<Rightarrow> bytes list \<Rightarrow> bytes \<Rightarrow> bool"
  assumes holds_new: "holds wnew [] []"
    and holds_append: "holds w msgs m \<Longrightarrow> \<exists>w'. wappend d w = Ok w' \<and> holds w' msgs (m @ d)"
    and holds_end: "holds w msgs m \<Longrightarrow> \<exists>w'. wend w = Ok w' \<and> holds w' (msgs @ [m]) []"
    and holds_reset: "holds w msgs [] \<Longrightarrow>
      \<exists>w'. wreset w = Ok (concat (map frame msgs), w') \<and> holds w' [] []"
begin

fun write_chunks :: "bytes list \<Rightarrow> 'w \<Rightarrow> ('w, FramingError) outcome" where
  "write_chunks [] w = Ok w"
| "write_chunks (c # cs) w = bindR (wappend c w) (write_chunks cs)"

fun write_messages :: "bytes list list \<Rightarrow> 'w \<Rightarrow> ('w, FramingError) outcome" where
  "write_messages [] w = Ok w"
| "write_messages (cs # css) w =
     bindR (bindR (write_chunks cs w) wend) (write_messages css)"

lemma write_chunks_holds:
  "holds w msgs m \<Longrightarrow> \<exists>w'. write_chunks cs w = Ok w' \<and> holds w' msgs (m @ concat cs)"
proof (induction cs arbitrary: w m)
  case (Cons c cs)
  from holds_append [OF Cons.prems, of c] obtain w1
    where "wappend c w = Ok w1" and "holds w1 msgs (m @ c)" by blast
  with Cons.IH [of w1 "m @ c"] show ?case by auto
qed auto

lemma write_messages_holds:
  "holds w msgs [] \<Longrightarrow> \<exists>w'. write_messages css w = Ok w' \<and> holds w' (msgs @ map concat css) []"
proof (induction css arbitrary: w msgs)
  case (Cons cs css)
  from write_chunks_holds [OF Cons.prems, of cs] obtain w1
    where w1: "write_chunks cs w = Ok w1" and "holds w1 msgs (concat cs)" by auto
  then obtain w2 where w2: "wend w1 = Ok w2" and "holds w2 (msgs @ [concat cs]) []"
    using holds_end by blast
  with Cons.IH [of w2 "msgs @ [concat cs]"] w1 show ?case by auto
qed auto

text \<open>Whatever the pieces the messages are written in, the bytes handed out are the frames of
  the messages, one after the other.\<close>

lemma written_bytes:
  "\<exists>w w'. write_messages css wnew = Ok w \<and> wreset w = Ok (concat (map (frame \<circ> concat) css), w')"
proof -
  from write_messages_holds [OF holds_new, of css] obtain w
    where "write_messages css wnew = Ok w" and "holds w (map concat css) []" by auto
  with holds_reset [of w "map concat css"] show ?thesis by auto
qed

end

section \<open>\<open>MapiBuf\<close> is a message writer\<close>

lemma frame_aligned:
  assumes "BLOCKSIZE dvd length bl" and "length cur \<le> BLOCKSIZE" and "bl \<noteq> [] \<Longrightarrow> cur \<noteq> []"
  shows "frame (bl @ cur) = open_blocks bl @ head (length cur) True @ cur"
  using assms
proof (induction bl rule: open_blocks.induct)
  case (1 bl)
  show ?case
  proof (cases "bl = []")
    case False
    with "1.prems"(1) have ge: "BLOCKSIZE \<le> length bl" by (simp add: dvd_imp_le)
    have "BLOCKSIZE dvd length (drop BLOCKSIZE bl)" using "1.prems"(1) by simp
    then have "frame (drop BLOCKSIZE bl @ cur) = open_blocks (drop BLOCKSIZE bl) @ head (length cur) True @ cur"
      using False "1.prems"(2,3) by (intro "1.IH") auto
    moreover have "BLOCKSIZE < length bl + length cur"
      using ge "1.prems"(3) False by (cases cur) auto
    ultimately show ?thesis
      using ge False by (simp add: frame.simps [of "bl @ cur"] open_blocks.simps [of bl] min_absorb2)
  qed (use "1.prems" in \<open>simp add: frame.simps open_blocks.simps\<close>)
qed

lemma open_blocks_snoc:
  assumes "BLOCKSIZE dvd length bl" and "length cur = BLOCKSIZE"
  shows "open_blocks (bl @ cur) = open_blocks bl @ head BLOCKSIZE False @ cur"
  using assms
proof (induction bl rule: open_blocks.induct)
  case (1 bl)
  show ?case
  proof (cases "bl = []")
    case True
    moreover have "cur \<noteq> []" using "1.prems"(2) by auto
    ultimately show ?thesis
      using "1.prems"(2) by (simp add: open_blocks.simps [of cur] open_blocks.simps [of "[]"])
  next
    case False
    with "1.prems"(1) have ge: "BLOCKSIZE \<le> length bl" by (simp add: dvd_imp_le)
    have "BLOCKSIZE dvd length (drop BLOCKSIZE bl)" using "1.prems"(1) by simp
    with False have "open_blocks (drop BLOCKSIZE bl @ cur)
        = open_blocks (drop BLOCKSIZE bl) @ head BLOCKSIZE False @ cur"
      using "1.prems"(2) by (intro "1.IH")
    with ge False show ?thesis
      by (simp add: open_blocks.simps [of "bl @ cur"] open_blocks.simps [of bl] min_absorb2)
  qed
qed

text \<open>The buffer between two calls: complete messages, the complete blocks \<open>bl\<close> of the current
  message, two bytes of room for a header, and the bytes \<open>cur\<close> of the current block.\<close>

definition mb_layout :: "MapiBuf \<Rightarrow> bytes list \<Rightarrow> bytes \<Rightarrow> bytes \<Rightarrow> bool" where
  "mb_layout mb msgs bl cur \<longleftrightarrow> \<not> reset_pending mb \<and> BLOCKSIZE dvd length bl
     \<and> length cur + block_left mb = BLOCKSIZE
     \<and> (\<exists>d. length d = 2 \<and> mb_buffer mb = concat (map frame msgs) @ open_blocks bl @ d @ cur)"

definition mb_holds :: "MapiBuf \<Rightarrow> bytes list \<Rightarrow> bytes \<Rightarrow> bool" where
  "mb_holds mb msgs m \<longleftrightarrow>
     (if reset_pending mb then msgs = [] \<and> m = [] \<and> block_left mb = BLOCKSIZE \<and> 2 \<le> length (mb_buffer mb)
      else \<exists>bl cur. mb_layout mb msgs bl cur \<and> m = bl @ cur \<and> (bl \<noteq> [] \<longrightarrow> cur \<noteq> []))"

lemma mb_holdsI:
  "mb_layout mb msgs bl cur \<Longrightarrow> m = bl @ cur \<Longrightarrow> (bl \<noteq> [] \<Longrightarrow> cur \<noteq> []) \<Longrightarrow> mb_holds mb msgs m"
  by (auto simp: mb_holds_def mb_layout_def)

lemma finish_block_layout:
  assumes "mb_layout mb msgs bl cur"
  shows "\<exists>mb'. finish_block fin mb = Ok mb' \<and> \<not> reset_pending mb' \<and> block_left mb' = BLOCKSIZE
     \<and> mb_buffer mb' = concat (map frame msgs) @ open_blocks bl @ head (length cur) fin @ cur @ dummy_header"
proof -
  from assms obtain d where d: "length d = 2"
    and buf: "mb_buffer mb = concat (map frame msgs) @ open_blocks bl @ d @ cur"
    and len: "length cur + block_left mb = BLOCKSIZE" and rp: "\<not> reset_pending mb"
    by (auto simp: mb_layout_def)
  have used: "BLOCKSIZE - block_left mb = length cur" and le: "length cur \<le> BLOCKSIZE"
    and bl: "\<not> BLOCKSIZE < block_left mb" using len by auto
  obtain h where h: "Header_new (length cur) fin = Ok h" "Header_as_bytes h = head (length cur) fin"
    using Header_new_head [OF le] by blast
  let ?pre = "concat (map frame msgs) @ open_blocks bl"
  have split: "take (length ?pre) (mb_buffer mb) = ?pre" "drop (length ?pre + 2) (mb_buffer mb) = cur"
    "length (mb_buffer mb) - length cur - 2 = length ?pre"
    using d by (simp_all add: buf)
  have room: "\<not> length (mb_buffer mb) < length cur + 2" using d by (simp add: buf)
  have "finish_block fin mb = Ok (mb\<lparr>mb_buffer := (?pre @ Header_as_bytes h @ cur) @ dummy_header,
      block_left := BLOCKSIZE\<rparr>)"
    unfolding finish_block_def used Let_def using bl room
    by (simp only: h(1) bindR.simps split if_False)
  then show ?thesis using h(2) rp by simp
qed

lemma append_fits_layout:
  "mb_layout mb msgs bl cur \<Longrightarrow> length d \<le> block_left mb \<Longrightarrow>
   mb_layout (mb\<lparr>mb_buffer := mb_buffer mb @ d, block_left := block_left mb - length d\<rparr>) msgs bl (cur @ d)"
  by (auto simp: mb_layout_def)

lemma append_long_layout:
  assumes "mb_layout mb msgs bl cur" and "data \<noteq> []"
  shows "\<exists>mb' bl' cur'. append_long data mb = Ok mb' \<and> mb_layout mb' msgs bl' cur'
           \<and> bl' @ cur' = bl @ cur @ data \<and> cur' \<noteq> []"
  using assms
proof (induction data mb arbitrary: bl cur rule: append_long.induct)
  case (1 data mb)
  have "\<exists>mb1 bl1 cur1. (if block_left mb = 0 then finish_block False mb else Ok mb) = Ok mb1
      \<and> mb_layout mb1 msgs bl1 cur1 \<and> bl1 @ cur1 = bl @ cur \<and> 0 < block_left mb1"
  proof (cases "block_left mb = 0")
    case True
    then have len: "length cur = BLOCKSIZE" and al: "BLOCKSIZE dvd length bl"
      using "1.prems"(1) by (auto simp: mb_layout_def)
    from finish_block_layout [OF "1.prems"(1), of False] obtain mb1
      where mb1: "finish_block False mb = Ok mb1" "\<not> reset_pending mb1" "block_left mb1 = BLOCKSIZE"
        "mb_buffer mb1 = concat (map frame msgs) @ open_blocks bl @ head (length cur) False @ cur @ dummy_header"
      by blast
    then have "mb_layout mb1 msgs (bl @ cur) []"
      using len al by (auto simp: mb_layout_def open_blocks_snoc dummy_header_def)
    with mb1 True show ?thesis by auto
  qed (use "1.prems"(1) in auto)
  then obtain mb1 bl1 cur1 where mb1: "(if block_left mb = 0 then finish_block False mb else Ok mb) = Ok mb1"
    and lay: "mb_layout mb1 msgs bl1 cur1" and same: "bl1 @ cur1 = bl @ cur" and pos: "0 < block_left mb1"
    by blast
  define n where "n = min (length data) (block_left mb1)"
  define mb2 where "mb2 = mb1\<lparr>mb_buffer := mb_buffer mb1 @ take n data, block_left := block_left mb1 - n\<rparr>"
  have n: "length (take n data) = n" "0 < n" using pos "1.prems"(2) by (auto simp: n_def)
  have lay2: "mb_layout mb2 msgs bl1 (cur1 @ take n data)"
    using append_fits_layout [OF lay, of "take n data"] by (simp add: mb2_def n_def)
  have step: "append_long data mb = append_long (drop n data) mb2"
    using mb1 "1.prems"(2) by (simp add: append_long.simps [of data mb] Let_def n_def mb2_def)
  show ?case
  proof (cases "drop n data = []")
    case True
    have "append_long data mb = Ok mb2"
      unfolding step True by (simp add: append_long.simps [of "[]"])
    with lay2 same True n show ?thesis
      by (intro exI [of _ mb2] exI [of _ bl1] exI [of _ "cur1 @ take n data"]) auto
  next
    case False
    have "\<exists>mb' bl' cur'. append_long (drop n data) mb2 = Ok mb' \<and> mb_layout mb' msgs bl' cur'
           \<and> bl' @ cur' = bl1 @ (cur1 @ take n data) @ drop n data \<and> cur' \<noteq> []"
      using "1.IH" [OF "1.prems"(2) mb1 n_def, of bl1 "cur1 @ take n data"] lay2 False
      unfolding mb2_def by blast
    moreover have "bl1 @ (cur1 @ take n data) @ drop n data = bl @ cur @ data"
      using same by (metis append_assoc append_take_drop_id)
    ultimately show ?thesis by (simp only: step)
  qed
qed

lemma prepare_reset_layout:
  "mb_holds mb msgs m \<Longrightarrow> \<exists>bl cur. mb_layout (prepare_reset mb) msgs bl cur \<and> m = bl @ cur \<and> (bl \<noteq> [] \<longrightarrow> cur \<noteq> [])"
  by (cases "reset_pending mb")
     (auto simp: mb_holds_def prepare_reset_def mb_layout_def open_blocks.simps [of "[]"])

lemma MapiBuf_append_holds:
  assumes "mb_holds mb msgs m"
  shows "\<exists>mb'. MapiBuf_append d mb = Ok mb' \<and> mb_holds mb' msgs (m @ d)"
proof -
  from prepare_reset_layout [OF assms] obtain bl cur
    where lay: "mb_layout (prepare_reset mb) msgs bl cur" and m: "m = bl @ cur" and ne: "bl \<noteq> [] \<longrightarrow> cur \<noteq> []"
    by blast
  show ?thesis
  proof (cases "length d \<le> block_left (prepare_reset mb)")
    case True
    have "mb_layout ((prepare_reset mb)\<lparr>mb_buffer := mb_buffer (prepare_reset mb) @ d,
        block_left := block_left (prepare_reset mb) - length d\<rparr>) msgs bl (cur @ d)"
      using append_fits_layout [OF lay True] .
    then have "mb_holds ((prepare_reset mb)\<lparr>mb_buffer := mb_buffer (prepare_reset mb) @ d,
        block_left := block_left (prepare_reset mb) - length d\<rparr>) msgs (m @ d)"
      by (rule mb_holdsI [of _ msgs bl "cur @ d"]) (use m ne in auto)
    with True show ?thesis by (simp add: MapiBuf_append_def Let_def)
  next
    case False
    then have "d \<noteq> []" by auto
    from append_long_layout [OF lay this] obtain mb' bl' cur'
      where "append_long d (prepare_reset mb) = Ok mb'" and "mb_layout mb' msgs bl' cur'"
        and "bl' @ cur' = bl @ cur @ d" and "cur' \<noteq> []" by blast
    with False m show ?thesis
      by (auto simp: MapiBuf_append_def Let_def intro!: mb_holdsI)
  qed
qed

lemma MapiBuf_end_holds:
  assumes "mb_holds mb msgs m"
  shows "\<exists>mb'. MapiBuf_end mb = Ok mb' \<and> mb_holds mb' (msgs @ [m]) []"
proof -
  from prepare_reset_layout [OF assms] obtain bl cur
    where lay: "mb_layout (prepare_reset mb) msgs bl cur" and m: "m = bl @ cur" and ne: "bl \<noteq> [] \<longrightarrow> cur \<noteq> []"
    by blast
  have "frame m = open_blocks bl @ head (length cur) True @ cur"
    using lay ne by (auto simp: m mb_layout_def intro!: frame_aligned)
  with finish_block_layout [OF lay, of True] obtain mb' where "finish_block True (prepare_reset mb) = Ok mb'"
    and "mb_layout mb' (msgs @ [m]) [] []"
    by (auto simp: mb_layout_def open_blocks.simps [of "[]"] dummy_header_def)
  then show ?thesis by (auto simp: MapiBuf_end_def mb_holds_def mb_layout_def)
qed

lemma MapiBuf_reset_holds:
  assumes "mb_holds mb msgs []"
  shows "\<exists>mb'. MapiBuf_reset debug mb = Ok (concat (map frame msgs), mb') \<and> mb_holds mb' [] []"
  using prepare_reset_layout [OF assms]
  by (auto simp: MapiBuf_reset_def Let_def mb_layout_def mb_holds_def open_blocks.simps [of "[]"])

lemma MapiBuf_new_holds: "mb_holds MapiBuf_new [] []"
  by (auto simp: MapiBuf_new_def MapiBuf_with_buf_def mb_holds_def mb_layout_def dummy_header_def
      open_blocks.simps [of "[]"])

interpretation mapibuf: message_writer MapiBuf_new MapiBuf_append MapiBuf_end "MapiBuf_reset debug" mb_holds
  for debug
  by unfold_locales
     (rule MapiBuf_new_holds MapiBuf_append_holds MapiBuf_end_holds MapiBuf_reset_holds; assumption?)+

lemma append_all_holds:
  "mb_holds mb msgs m \<Longrightarrow> \<exists>mb'. append_all cs mb = Ok mb' \<and> mb_holds mb' msgs (m @ concat cs)"
proof -
  have "append_all cs mb = mapibuf.write_chunks cs mb"
    by (induction cs arbitrary: mb) (auto cong: bindR_cong)
  then show "mb_holds mb msgs m \<Longrightarrow> \<exists>mb'. append_all cs mb = Ok mb' \<and> mb_holds mb' msgs (m @ concat cs)"
    using mapibuf.write_chunks_holds by simp
qed

end
