(* ===== verification/Framing_Reading.thy ===== *)
theory Framing_Reading
  imports Framing_Blocks
begin

text \<open>
  The input side of the framing layer, \<open>src/framing/reading.rs\<close>: \<open>MapiReader\<close> wraps a byte
  stream and delivers the payload of one message.

  The stream is any implementation \<open>rd\<close> of \<open>Read::read\<close>: given the size of the caller's buffer
  it returns the bytes put there, or an I/O error, and its next state. The locale \<open>byte_source\<close>
  is the contract of such a stream, \<open>reliable_source\<close> that of one that never fails. Loops that
  go on as long as the stream delivers carry fuel; a fuel above the number of bytes still to
  come plus the interruptions still to come (\<open>pend\<close> and \<open>patience\<close> in the locale) is enough.
\<close>

section \<open>I/O errors\<close>

datatype ErrorKind = UnexpectedEof | Interrupted | WouldBlock | TimedOut | InvalidInput | InvalidData
  | WriteZero | ConnectionReset | BrokenPipe | NotFound | OtherKind

datatype IoError = IoKind ErrorKind | IoText ErrorKind bytes | IoFraming FramingError
  | IoWrap ErrorKind IoError

fun io_kind :: "IoError \<Rightarrow> ErrorKind" where
  "io_kind (IoKind k) = k"
| "io_kind (IoText k _) = k"
| "io_kind (IoFraming _) = InvalidData"
| "io_kind (IoWrap k _) = k"

type_synonym 's reader = "nat \<Rightarrow> 's \<Rightarrow> (bytes, IoError) outcome \<times> 's"

text \<open>\<open>Read::read_exact\<close> of the standard library: it retries interrupted reads.\<close>

fun read_exact :: "'s reader \<Rightarrow> nat \<Rightarrow> nat \<Rightarrow> 's \<Rightarrow> (bytes, IoError) outcome \<times> 's" where
  "read_exact rd 0 n s = (NoFuel, s)"
| "read_exact rd (Suc f) n s = (if n = 0 then (Ok [], s) else
     case rd n s of
       (Ok bs, s') \<Rightarrow> if bs = [] then (Err (IoText UnexpectedEof ''failed to fill whole buffer''), s')
          else bindS (read_exact rd f (n - length bs) s') (\<lambda>more s''. (Ok (bs @ more), s''))
     | (Err e, s') \<Rightarrow> if io_kind e = Interrupted then read_exact rd f n s' else (Err e, s')
     | (Panic, s') \<Rightarrow> (Panic, s')
     | (NoFuel, s') \<Rightarrow> (NoFuel, s'))"

section \<open>Model of the code\<close>

record 's MapiReader =
  rd_inner :: 's
  rd_state :: BlockState

definition MapiReader_new :: "'s \<Rightarrow> 's MapiReader" where
  "MapiReader_new s = \<lparr>rd_inner = s, rd_state = Start\<rparr>"

text \<open>\<open>self.state.interpret(buf)?\<close>\<close>

definition reader_interpret ::
  "bytes \<Rightarrow> 's MapiReader \<Rightarrow> (nat \<times> nat, IoError) outcome \<times> 's MapiReader" where
  "reader_interpret buf r = (case BlockState_interpret (rd_state r) buf of
     (res, st) \<Rightarrow> (map_err IoFraming res, r\<lparr>rd_state := st\<rparr>))"

definition read_header ::
  "'s reader \<Rightarrow> nat \<Rightarrow> nat \<Rightarrow> 's MapiReader \<Rightarrow> (unit, IoError) outcome \<times> 's MapiReader" where
  "read_header rd fuel n r = (case read_exact rd fuel n (rd_inner r) of
     (res, s') \<Rightarrow>
       bindS (case res of
                Err e \<Rightarrow> Err (if io_kind e = UnexpectedEof then IoKind UnexpectedEof else e)
              | _ \<Rightarrow> res, r\<lparr>rd_inner := s'\<rparr>)
         (\<lambda>buf r. bindS (reader_interpret buf r) (\<lambda>_ r. (Ok (), r))))"

definition read_some ::
  "'s reader \<Rightarrow> nat \<Rightarrow> 's MapiReader \<Rightarrow> (bytes, IoError) outcome \<times> 's MapiReader" where
  "read_some rd n r = (case rd n (rd_inner r) of
     (res, s') \<Rightarrow> bindS (res, r\<lparr>rd_inner := s'\<rparr>) (\<lambda>bs r.
        if bs = [] then (Err (IoKind UnexpectedEof), r) else (Ok bs, r)))"

text \<open>\<open>read_body\<close> for a buffer of \<open>n\<close> bytes; the result is the part of the buffer that holds payload.\<close>

definition read_body ::
  "'s reader \<Rightarrow> nat \<Rightarrow> bool \<Rightarrow> nat \<Rightarrow> 's MapiReader \<Rightarrow> (bytes, IoError) outcome \<times> 's MapiReader"
  where
  "read_body rd remaining lst n r =
     (if remaining = 0 then (Panic, r)
      else let ideal_read = (if lst then remaining else remaining + 2)
      in bindS (read_some rd (min ideal_read n) r) (\<lambda>bs r.
         bindS (reader_interpret bs r) (\<lambda>(start, stop) r.
           if start \<noteq> 0 then (Panic, r)
           else if stop < length bs then
             bindS (reader_interpret (drop stop bs) r) (\<lambda>(nstart, nstop) r.
               if nstart < nstop then (Panic, r)
               else if nstop \<noteq> length (drop stop bs) then (Panic, r)
               else (Ok (take stop bs), r))
           else (Ok (take stop bs), r))))"

fun do_read ::
  "'s reader \<Rightarrow> nat \<Rightarrow> nat \<Rightarrow> nat \<Rightarrow> 's MapiReader \<Rightarrow> (bytes, IoError) outcome \<times> 's MapiReader"
  where
  "do_read rd F 0 n r = (NoFuel, r)"
| "do_read rd F (Suc f) n r = (if n = 0 then (Ok [], r) else
     case rd_state r of
       Body remaining lst \<Rightarrow> read_body rd remaining lst n r
     | Start \<Rightarrow> bindS (read_header rd F 2 r) (\<lambda>_ r. do_read rd F f n r)
     | PartialHeader _ \<Rightarrow> bindS (read_header rd F 1 r) (\<lambda>_ r. do_read rd F f n r)
     | End \<Rightarrow> (Ok [], r))"

fun skip_to_end ::
  "'s reader \<Rightarrow> nat \<Rightarrow> nat \<Rightarrow> 's MapiReader \<Rightarrow> (unit, IoError) outcome \<times> 's MapiReader" where
  "skip_to_end rd F 0 r = (NoFuel, r)"
| "skip_to_end rd F (Suc f) r = (if rd_state r = End then (Ok (), r)
     else bindS (do_read rd F F (BLOCKSIZE + 2) r) (\<lambda>_ r. skip_to_end rd F f r))"

definition MapiReader_finish :: "'s reader \<Rightarrow> nat \<Rightarrow> 's MapiReader \<Rightarrow> ('s, IoError) outcome" where
  "MapiReader_finish rd F r =
     (if rd_state r = End then Ok (rd_inner r)
      else case skip_to_end rd F F r of (res, r') \<Rightarrow> bindR res (\<lambda>_. Ok (rd_inner r')))"

text \<open>
  \<open>(&mut reader).take(limit).read_to_end(buffer)\<close>: the standard library reads into buffers of
  sizes it chooses (\<open>pol k\<close> for the \<open>k\<close>-th read), \<open>Take\<close> cuts them to what is left of the
  limit and reports the end when nothing is left, and interrupted reads are retried. The
  result carries the bytes read so far, which stay in the caller's buffer.
\<close>

fun take_read_to_end ::
  "'s reader \<Rightarrow> nat \<Rightarrow> (nat \<Rightarrow> nat) \<Rightarrow> nat \<Rightarrow> nat \<Rightarrow> 's MapiReader \<Rightarrow> bytes
    \<Rightarrow> (unit, IoError) outcome \<times> 's MapiReader \<times> bytes" where
  "take_read_to_end rd F pol 0 limit r acc = (NoFuel, r, acc)"
| "take_read_to_end rd F pol (Suc f) limit r acc =
     (if limit = 0 then (Ok (), r, acc) else
      case do_read rd F F (min (pol f) limit) r of
        (Ok bs, r') \<Rightarrow> if bs = [] then (Ok (), r', acc)
           else take_read_to_end rd F pol f (limit - length bs) r' (acc @ bs)
      | (Err e, r') \<Rightarrow> if io_kind e = Interrupted then take_read_to_end rd F pol f limit r' acc
           else (Err e, r', acc)
      | (Panic, r') \<Rightarrow> (Panic, r', acc)
      | (NoFuel, r') \<Rightarrow> (NoFuel, r', acc))"

text \<open>What \<open>to_limited\<close> and \<open>to_limited_string\<close> do once the limit or the end is reached.\<close>

definition limited_tail :: "'s reader \<Rightarrow> nat \<Rightarrow> 's MapiReader \<Rightarrow> ('s, IoError) outcome" where
  "limited_tail rd F reader =
     (case (if rd_state reader \<noteq> End
            then bindS (do_read rd F F 1 reader) (\<lambda>extra r.
                   if length extra \<noteq> 0 then (Err (IoFraming TooLong), r) else (Ok (), r))
            else (Ok (), reader))
      of (res, r) \<Rightarrow> bindR res (\<lambda>_.
           if rd_state r = End then MapiReader_finish rd F r else Err (IoFraming TooLong)))"

definition to_limited ::
  "'s reader \<Rightarrow> nat \<Rightarrow> (nat \<Rightarrow> nat) \<Rightarrow> 's \<Rightarrow> bytes \<Rightarrow> nat \<Rightarrow> ('s, IoError) outcome \<times> bytes" where
  "to_limited rd F pol s buffer limit =
     (case take_read_to_end rd F pol F limit (MapiReader_new s) buffer of
       (res, reader, buffer') \<Rightarrow> (bindR res (\<lambda>_. limited_tail rd F reader), buffer'))"

text \<open>\<open>read_to_string\<close> keeps the bytes read only if they are valid UTF-8.\<close>

definition to_limited_string ::
  "'s reader \<Rightarrow> nat \<Rightarrow> (nat \<Rightarrow> nat) \<Rightarrow> 's \<Rightarrow> bytes \<Rightarrow> nat \<Rightarrow> ('s, IoError) outcome \<times> bytes" where
  "to_limited_string rd F pol s buffer limit =
     (case take_read_to_end rd F pol F limit (MapiReader_new s) [] of
       (res, reader, text) \<Rightarrow>
         if utf8_valid text then (bindR res (\<lambda>_. limited_tail rd F reader), buffer @ text)
         else (bindR res (\<lambda>_. Err (IoText InvalidData ''stream did not contain valid UTF-8'')), buffer))"

section \<open>Decoding the pieces a reader gets\<close>

lemma skip_headers_two:
  "skip_headers Start [a, b] = bindR (Header_from_bytes a b) (\<lambda>h. Ok ((2, 2), BlockState_from_header h))"
  by (simp add: skip_headers_def skip_loop.simps [of Start] skip_loop.simps [of _ "Suc (Suc 0)"]
      numeral_2_eq_2)

lemma skip_headers_one:
  "skip_headers (PartialHeader a) [b]
     = bindR (Header_from_bytes a b) (\<lambda>h. Ok ((1, 1), BlockState_from_header h))"
  by (simp add: skip_headers_def skip_loop.simps [of "PartialHeader a"] skip_loop.simps [of _ 1]
      skip_loop.simps [of _ "Suc 0"])

lemma skip_headers_part: "skip_headers Start [a] = Ok ((1, 1), PartialHeader a)"
  by (simp add: skip_headers_def skip_loop.simps [of Start])

lemma skip_headers_body:
  "0 < r \<Longrightarrow> bs \<noteq> [] \<Longrightarrow> skip_headers (Body r l) bs
     = Ok ((0, min r (length bs)), BlockState_new (r - min r (length bs)) l)"
  by (simp add: skip_headers_def skip_loop.simps [of "Body r l"] min_def Let_def)

lemmas skip_headers_short = skip_headers_two skip_headers_one skip_headers_part

lemma from_bytes_Err: "Header_from_bytes a b = Err e \<Longrightarrow> e = InvalidBlockSize"
  by (auto simp: Header_from_bytes_def Let_def split: if_splits)

lemma feeds_len: "feeds st cs = Ok (out, st') \<Longrightarrow> length out \<le> length cs"
proof (induction cs arbitrary: st out)
  case (Cons c cs)
  then obtain o1 st1 o2 where "feed st c = Ok (o1, st1)" and f: "feeds st1 cs = Ok (o2, st')"
    and out: "out = o1 @ o2" by auto
  then have "length o1 \<le> 1" by (cases st) auto
  with Cons.IH [OF f] out show ?case by simp
qed simp

lemma feeds_End [simp]: "feeds End cs = (if cs = [] then Ok ([], End) else Err MessageAlreadyComplete)"
  by (cases cs) auto

lemma feeds_stuck: "cs = a @ b \<Longrightarrow> feeds st a = Err e \<Longrightarrow> feeds st cs = Err e"
  by (simp add: feeds_append)

text \<open>A stream has at most one place where the message ends.\<close>

lemma feeds_end_unique:
  assumes "a @ x = b @ y" and "feeds st a = Ok (p, End)" and "feeds st b = Ok (q, End)"
  shows "a = b \<and> p = q"
proof -
  from assms(1) obtain u where "a = b @ u \<and> u @ x = y \<or> a @ u = b \<and> x = u @ y"
    by (auto simp: append_eq_append_conv2)
  with assms(2,3) show ?thesis by (auto simp: feeds_append split: if_splits)
qed

lemma feeds_before_end:
  assumes "a @ x = b @ y" and "feeds st a = Ok (p, st')" and "st' \<noteq> End" and "feeds st b = Ok (q, End)"
  shows "\<exists>u. u \<noteq> [] \<and> b = a @ u \<and> x = u @ y \<and> (\<exists>q'. feeds st' u = Ok (q', End) \<and> q = p @ q')"
proof -
  from assms(1) obtain u where "a = b @ u \<and> u @ x = y \<or> a @ u = b \<and> x = u @ y"
    by (auto simp: append_eq_append_conv2)
  with assms(2-4) show ?thesis by (cases "u = []") (auto simp: feeds_append split: if_splits)
qed

section \<open>The contract of a byte stream\<close>

locale byte_source =
  fixes rd :: "'s reader" and ok :: "'s \<Rightarrow> bool" and pend :: "'s \<Rightarrow> bytes" and patience :: "'s \<Rightarrow> nat"
  assumes deliver: "0 < n \<Longrightarrow> ok s \<Longrightarrow> rd n s = (Ok bs, s') \<Longrightarrow> ok s' \<and>
      pend s = bs @ pend s' \<and> length bs \<le> n \<and> (bs = [] \<longrightarrow> pend s = []) \<and> patience s' \<le> patience s"
    and interrupted: "0 < n \<Longrightarrow> ok s \<Longrightarrow> rd n s = (Err e, s') \<Longrightarrow> io_kind e = Interrupted \<Longrightarrow>
      ok s' \<and> pend s' = pend s \<and> patience s' < patience s"
    and no_panic: "0 < n \<Longrightarrow> ok s \<Longrightarrow> returns (fst (rd n s))"
begin

definition load :: "'s \<Rightarrow> nat" where
  "load s = length (pend s) + patience s"

definition source_kind :: "ErrorKind \<Rightarrow> bool" where
  "source_kind k \<longleftrightarrow> (\<exists>n s e s'. 0 < n \<and> ok s \<and> rd n s = (Err e, s') \<and> io_kind e = k)"

definition good :: "'s MapiReader \<Rightarrow> bool" where
  "good r \<longleftrightarrow> wf_block (rd_state r) \<and> ok (rd_inner r)"

lemma rd_cases:
  assumes "0 < n" and "ok s"
  obtains (Data) bs s' where "rd n s = (Ok bs, s')" | (Fault) e s' where "rd n s = (Err e, s')"
  using no_panic [OF assms] by (cases "rd n s"; cases "fst (rd n s)") auto

text \<open>The reader went from \<open>r\<close> to \<open>r'\<close> and delivered \<open>bs\<close>: it took bytes off the stream that
  decode to \<open>bs\<close>. It failed with \<open>e\<close>: the stream did, or what is on the stream is malformed or
  stops inside the message.\<close>

definition reads :: "'s MapiReader \<Rightarrow> bytes \<Rightarrow> 's MapiReader \<Rightarrow> bool" where
  "reads r bs r' \<longleftrightarrow> (ok (rd_inner r) \<longrightarrow> ok (rd_inner r')) \<and> patience (rd_inner r') \<le> patience (rd_inner r) \<and>
     (\<exists>used. pend (rd_inner r) = used @ pend (rd_inner r') \<and> feeds (rd_state r) used = Ok (bs, rd_state r'))"

definition fails :: "'s MapiReader \<Rightarrow> IoError \<Rightarrow> bool" where
  "fails r e \<longleftrightarrow> source_kind (io_kind e)
     \<or> (e = IoFraming InvalidBlockSize \<and> feeds (rd_state r) (pend (rd_inner r)) = Err InvalidBlockSize)
     \<or> (io_kind e = UnexpectedEof
         \<and> (\<exists>p st'. feeds (rd_state r) (pend (rd_inner r)) = Ok (p, st') \<and> st' \<noteq> End))"

lemma reads_refl: "reads r [] r"
  by (simp add: reads_def)

lemma reads_trans: "reads r a r' \<Longrightarrow> reads r' b r'' \<Longrightarrow> reads r (a @ b) r''"
  unfolding reads_def by (force simp: feeds_append)

lemma reads_good: "reads r a r' \<Longrightarrow> good r \<Longrightarrow> good r'"
  by (auto simp: reads_def good_def dest: feeds_wf)

lemma reads_load: "reads r a r' \<Longrightarrow> load (rd_inner r') + length a \<le> load (rd_inner r)"
  by (auto simp: reads_def load_def dest!: feeds_len)

lemma reads_progress:
  assumes "reads r a r'" and "rd_state r' \<noteq> rd_state r \<or> a \<noteq> []"
  shows "load (rd_inner r') < load (rd_inner r)"
proof -
  from assms(1) obtain used where u: "pend (rd_inner r) = used @ pend (rd_inner r')"
    "feeds (rd_state r) used = Ok (a, rd_state r')" "patience (rd_inner r') \<le> patience (rd_inner r)"
    by (auto simp: reads_def)
  with assms(2) have "used \<noteq> []" by auto
  with u show ?thesis by (cases used) (auto simp: load_def)
qed

lemma reads_fails: "reads r a r' \<Longrightarrow> fails r' e \<Longrightarrow> fails r e"
  unfolding reads_def fails_def by (auto simp: feeds_append)

lemma read_exact_spec:
  "load s < f \<Longrightarrow> ok s \<Longrightarrow> case read_exact rd f n s of
     (Ok bs, s') \<Rightarrow> ok s' \<and> pend s = bs @ pend s' \<and> length bs = n \<and> patience s' \<le> patience s
   | (Err e, s') \<Rightarrow> io_kind e \<noteq> Interrupted
       \<and> (source_kind (io_kind e) \<or> io_kind e = UnexpectedEof \<and> length (pend s) < n)
   | _ \<Rightarrow> False"
proof (induction f arbitrary: n s)
  case (Suc f)
  show ?case
  proof (cases "n = 0")
    case False
    then have n: "0 < n" by simp
    show ?thesis
    proof (cases rule: rd_cases [OF n Suc.prems(2), case_names Data Fault])
      case (Data bs s')
      from deliver [OF n Suc.prems(2) Data] have d: "ok s'" "pend s = bs @ pend s'" "length bs \<le> n"
        "bs = [] \<longrightarrow> pend s = []" "patience s' \<le> patience s" by auto
      show ?thesis
      proof (cases "bs = []")
        case ne: False
        with d Suc.prems have "load s' < f" by (cases bs) (auto simp: load_def)
        from Suc.IH [OF this d(1), of "n - length bs"] show ?thesis
          using d Data False ne
          by (auto split: prod.splits outcome.splits)
      qed (use d Data False in simp)
    next
      case (Fault e s')
      show ?thesis
      proof (cases "io_kind e = Interrupted")
        case True
        with interrupted [OF n Suc.prems(2) Fault] have "ok s'" "pend s' = pend s" "patience s' < patience s" by auto
        with Suc.prems Suc.IH [of s' n] Fault True False show ?thesis
          by (auto simp: load_def split: prod.splits outcome.splits)
      qed (use Fault False n Suc.prems in \<open>auto simp: source_kind_def\<close>)
    qed
  qed (use Suc.prems in simp)
qed simp

text \<open>A header is read in the states \<open>Start\<close> (two bytes) and \<open>PartialHeader\<close> (one byte).\<close>

fun header_size :: "BlockState \<Rightarrow> nat" where
  "header_size Start = 2"
| "header_size (PartialHeader c) = 1"
| "header_size _ = 0"

lemma header_interpret:
  assumes "0 < header_size st" and "length bs = header_size st"
  shows "(\<exists>st'. skip_headers st bs = Ok ((length bs, length bs), st') \<and> feeds st bs = Ok ([], st'))
       \<or> skip_headers st bs = Err InvalidBlockSize \<and> feeds st bs = Err InvalidBlockSize"
proof (cases st)
  case Start
  with assms(2) obtain a b where bs: "bs = [a, b]" by (auto simp: length_Suc_conv numeral_2_eq_2)
  show ?thesis using Start from_bytes_returns [of a b]
    by (cases "Header_from_bytes a b") (auto simp: bs skip_headers_two dest: from_bytes_Err)
next
  case (PartialHeader a)
  with assms(2) obtain b where bs: "bs = [b]" by (auto simp: length_Suc_conv)
  show ?thesis using PartialHeader from_bytes_returns [of a b]
    by (cases "Header_from_bytes a b") (auto simp: bs skip_headers_one dest: from_bytes_Err)
qed (use assms in auto)

lemma tail_interpret:
  assumes "bs \<noteq> []" and "length bs \<le> 2"
  shows "(\<exists>st'. skip_headers Start bs = Ok ((length bs, length bs), st') \<and> feeds Start bs = Ok ([], st'))
       \<or> skip_headers Start bs = Err InvalidBlockSize \<and> feeds Start bs = Err InvalidBlockSize"
proof (cases "length bs = 2")
  case True
  then show ?thesis using header_interpret [of Start bs] by simp
next
  case False
  with assms obtain a where "bs = [a]" by (cases bs; cases "tl bs") auto
  then show ?thesis by (simp add: skip_headers_part)
qed

lemma header_cut: "length cs < header_size st \<Longrightarrow> \<exists>p st'. feeds st cs = Ok (p, st') \<and> st' \<noteq> End"
  by (cases st; cases cs) auto

lemma read_header_spec:
  assumes "0 < header_size (rd_state r)" and "load (rd_inner r) < F" and ok: "ok (rd_inner r)"
  shows "case read_header rd F (header_size (rd_state r)) r of
     (Ok _, r') \<Rightarrow> reads r [] r' \<and> load (rd_inner r') < load (rd_inner r)
   | (Err e, r') \<Rightarrow> fails r e \<and> io_kind e \<noteq> Interrupted
   | _ \<Rightarrow> False"
proof -
  let ?n = "header_size (rd_state r)"
  obtain res s' where re: "read_exact rd F ?n (rd_inner r) = (res, s')" by (metis surj_pair)
  note spec = read_exact_spec [OF assms(2) ok, of ?n, unfolded re, simplified]
  show ?thesis
  proof (cases res)
    case (Ok bs)
    with spec have bs: "pend (rd_inner r) = bs @ pend s'" "length bs = ?n" "ok s'"
      "patience s' \<le> patience (rd_inner r)" by auto
    from header_interpret [OF assms(1) bs(2)] show ?thesis
      using re Ok bs assms(1)
      by (auto simp: read_header_def reader_interpret_def BlockState_interpret_def reads_def fails_def
          load_def feeds_append)
  next
    case (Err e)
    then show ?thesis using re spec header_cut [of "pend (rd_inner r)" "rd_state r"]
      by (auto simp: read_header_def fails_def)
  qed (use spec in auto)
qed

lemma read_body_spec:
  assumes st: "rd_state r = Body rem l" and wf: "0 < rem" and n: "0 < n" and ok: "ok (rd_inner r)"
  shows "case read_body rd rem l n r of
     (Ok bs, r') \<Rightarrow> reads r bs r' \<and> length bs \<le> n \<and> bs \<noteq> []
   | (Err e, r') \<Rightarrow> fails r e \<and>
       (io_kind e = Interrupted \<longrightarrow> reads r [] r' \<and> patience (rd_inner r') < patience (rd_inner r))
   | _ \<Rightarrow> False"
proof -
  define m where "m = min (if l then rem else rem + 2) n"
  have m: "0 < m" "m \<le> n" "l \<Longrightarrow> m \<le> rem" "m \<le> rem + 2" using wf n by (auto simp: m_def)
  have body: "read_body rd rem l n r = bindS (read_some rd m r) (\<lambda>bs r.
         bindS (reader_interpret bs r) (\<lambda>(start, stop) r.
           if start \<noteq> 0 then (Panic, r)
           else if stop < length bs then
             bindS (reader_interpret (drop stop bs) r) (\<lambda>(nstart, nstop) r.
               if nstart < nstop then (Panic, r)
               else if nstop \<noteq> length (drop stop bs) then (Panic, r)
               else (Ok (take stop bs), r))
           else (Ok (take stop bs), r)))"
    using wf by (simp add: read_body_def m_def Let_def)
  show ?thesis
  proof (cases rule: rd_cases [OF m(1) ok, case_names Data Fault])
    case (Data bs s')
    from deliver [OF m(1) ok Data] have d: "pend (rd_inner r) = bs @ pend s'" "length bs \<le> m"
      "bs = [] \<longrightarrow> pend (rd_inner r) = []" "patience s' \<le> patience (rd_inner r)" "ok s'" by auto
    show ?thesis
    proof (cases "bs = []")
      case True
      with d st Data show ?thesis by (auto simp: body read_some_def fails_def)
    next
      case ne: False
      let ?r1 = "r\<lparr>rd_inner := s', rd_state := BlockState_new (rem - min rem (length bs)) l\<rparr>"
      have i1: "reader_interpret bs (r\<lparr>rd_inner := s'\<rparr>) = (Ok (0, min rem (length bs)), ?r1)"
        using st ne wf by (simp add: reader_interpret_def BlockState_interpret_def skip_headers_body)
      have f1: "feeds (Body rem l) (take (min rem (length bs)) bs)
          = Ok (take (min rem (length bs)) bs, BlockState_new (rem - min rem (length bs)) l)"
        using feeds_body [of "take (min rem (length bs)) bs" rem l] ne wf
        by (auto simp: min_def)
      show ?thesis
      proof (cases "length bs \<le> rem")
        case True
        with i1 f1 ne Data d st m show ?thesis
          by (auto simp: body read_some_def reads_def)
      next
        case False
        then have nl: "\<not> l" using m(3) d(2) by auto
        have f2: "feeds (Body rem l) (take rem bs) = Ok (take rem bs, Start)"
          using f1 False nl by (simp add: min_absorb1 BlockState_new_def)
        have t: "drop rem bs \<noteq> []" "length (drop rem bs) \<le> 2" using False m(4) d(2) by auto
        have i2: "reader_interpret bs (r\<lparr>rd_inner := s'\<rparr>) = (Ok (0, rem), r\<lparr>rd_inner := s', rd_state := Start\<rparr>)"
          using i1 False nl by (simp add: min_absorb1 BlockState_new_def)
        have f3: "feeds (Body rem l) bs = bindR (feeds Start (drop rem bs)) (\<lambda>(q, st). Ok (take rem bs @ q, st))"
          using feeds_append_Ok [OF f2, of "drop rem bs"] by simp
        have body2: "read_body rd rem l n r
          = bindS (reader_interpret (drop rem bs) (r\<lparr>rd_inner := s', rd_state := Start\<rparr>)) (\<lambda>(nstart, nstop) r.
               if nstart < nstop then (Panic, r)
               else if nstop \<noteq> length (drop rem bs) then (Panic, r)
               else (Ok (take rem bs), r))"
          using i2 False Data ne by (simp add: body read_some_def)
        have "length (take rem bs) \<le> n" using False d(2) m(2) by simp
        with tail_interpret [OF t] show ?thesis
          unfolding body2 using f3 d st ne wf
          by (auto simp: reads_def fails_def reader_interpret_def BlockState_interpret_def feeds_append)
      qed
    qed
  next
    case (Fault e s')
    then have "source_kind (io_kind e)" using m(1) ok by (auto simp: source_kind_def)
    with interrupted [OF m(1) ok Fault] Fault show ?thesis
      by (auto simp: body read_some_def fails_def reads_def)
  qed
qed

lemma do_read_spec:
  assumes "good r" and "load (rd_inner r) < F" and "load (rd_inner r) < f" and "0 < n"
  shows "case do_read rd F f n r of
     (Ok bs, r') \<Rightarrow> reads r bs r' \<and> length bs \<le> n \<and> (bs = [] \<longrightarrow> rd_state r' = End)
   | (Err e, r') \<Rightarrow> fails r e \<and>
       (io_kind e = Interrupted \<longrightarrow> reads r [] r' \<and> patience (rd_inner r') < patience (rd_inner r))
   | _ \<Rightarrow> False"
  using assms
proof (induction f arbitrary: r)
  case (Suc f)
  have ok: "ok (rd_inner r)" using Suc.prems(1) by (simp add: good_def)
  show ?case
  proof (cases "0 < header_size (rd_state r)")
    case True
    have unf: "do_read rd F (Suc f) n r
        = bindS (read_header rd F (header_size (rd_state r)) r) (\<lambda>_ r. do_read rd F f n r)"
      using True Suc.prems(4) by (cases "rd_state r") auto
    obtain res r1 where rh: "read_header rd F (header_size (rd_state r)) r = (res, r1)" by (metis surj_pair)
    note hspec = read_header_spec [OF True Suc.prems(2) ok, unfolded rh, simplified]
    show ?thesis
    proof (cases res)
      case (Ok u)
      with hspec have rds: "reads r [] r1" and less: "load (rd_inner r1) < load (rd_inner r)" by auto
      have "good r1" using reads_good [OF rds Suc.prems(1)] .
      note ih = Suc.IH [OF this less_trans [OF less Suc.prems(2)] _ Suc.prems(4)]
      have lf: "load (rd_inner r1) < f" using less Suc.prems(3) by simp
      obtain res2 r2 where dr: "do_read rd F f n r1 = (res2, r2)" by (metis surj_pair)
      have pat: "patience (rd_inner r1) \<le> patience (rd_inner r)" using rds by (simp add: reads_def)
      show ?thesis
        unfolding unf rh Ok bindS.simps dr using ih [OF lf] pat reads_fails [OF rds]
        by (cases res2) (auto simp: dr dest!: reads_trans [OF rds])
    qed (unfold unf rh, use hspec in auto)
  next
    case False
    show ?thesis
    proof (cases "rd_state r")
      case (Body rem l)
      with Suc.prems(1) have "0 < rem" by (simp add: good_def)
      from read_body_spec [OF Body this Suc.prems(4) ok] show ?thesis
        using Body Suc.prems(4) by (auto split: prod.splits outcome.splits)
    next
      case End
      then show ?thesis using Suc.prems(4) by (simp add: reads_refl)
    qed (use False in auto)
  qed
qed simp

lemma skip_to_end_spec:
  assumes "good r" and "load (rd_inner r) < F" and "load (rd_inner r) < f"
  shows "case skip_to_end rd F f r of
     (Ok _, r') \<Rightarrow> \<exists>bs. reads r bs r' \<and> rd_state r' = End
   | (Err e, r') \<Rightarrow> fails r e
   | _ \<Rightarrow> False"
  using assms
proof (induction f arbitrary: r)
  case (Suc f)
  show ?case
  proof (cases "rd_state r = End")
    case False
    obtain res r1 where dr: "do_read rd F F (BLOCKSIZE + 2) r = (res, r1)" by (metis surj_pair)
    note spec = do_read_spec [OF Suc.prems(1,2,2), of "BLOCKSIZE + 2", unfolded dr, simplified]
    show ?thesis
    proof (cases res)
      case (Ok bs)
      with spec have rds: "reads r bs r1" and e: "bs = [] \<longrightarrow> rd_state r1 = End" by auto
      have wf: "good r1" using reads_good [OF rds Suc.prems(1)] .
      have step: "skip_to_end rd F (Suc f) r = skip_to_end rd F f r1"
        using False dr Ok by simp
      have "load (rd_inner r1) < load (rd_inner r)"
        using e False by (intro reads_progress [OF rds]) auto
      then have lt: "load (rd_inner r1) < F" "load (rd_inner r1) < f" using Suc.prems(2,3) by auto
      show ?thesis
        unfolding step using Suc.IH [OF wf lt]
        by (auto split: prod.splits outcome.splits intro: reads_fails [OF rds] reads_trans [OF rds])
    qed (use spec False dr in auto)
  qed (use reads_refl in auto)
qed simp

lemma take_read_to_end_spec:
  assumes "good r" and "load (rd_inner r) < F" and "load (rd_inner r) < f"
    and "\<And>k. 0 < pol k"
  shows "case take_read_to_end rd F pol f limit r acc of
     (Ok _, r', acc') \<Rightarrow> \<exists>bs. acc' = acc @ bs \<and> reads r bs r' \<and> length bs \<le> limit
        \<and> (length bs = limit \<or> rd_state r' = End)
   | (Err e, r', acc') \<Rightarrow> fails r e \<and> io_kind e \<noteq> Interrupted
   | _ \<Rightarrow> False"
  using assms
proof (induction f arbitrary: r limit acc)
  case (Suc f)
  show ?case
  proof (cases "limit = 0")
    case False
    obtain res r1 where dr: "do_read rd F F (min (pol f) limit) r = (res, r1)" by (metis surj_pair)
    have "0 < min (pol f) limit" using False assms(4) by simp
    note spec = do_read_spec [OF Suc.prems(1,2,2) this, unfolded dr, simplified]
    show ?thesis
    proof (cases res)
      case (Ok bs)
      with spec have rds: "reads r bs r1" and len: "length bs \<le> limit"
        and e: "bs = [] \<longrightarrow> rd_state r1 = End" by auto
      show ?thesis
      proof (cases "bs = []")
        case ne: False
        then have "load (rd_inner r1) < load (rd_inner r)" by (intro reads_progress [OF rds]) simp
        then have lt: "load (rd_inner r1) < F" "load (rd_inner r1) < f" using Suc.prems(2,3) by auto
        have step: "take_read_to_end rd F pol (Suc f) limit r acc
            = take_read_to_end rd F pol f (limit - length bs) r1 (acc @ bs)"
          using False ne dr Ok by simp
        note ih = Suc.IH [OF reads_good [OF rds Suc.prems(1)] lt assms(4),
          where limit = "limit - length bs" and acc = "acc @ bs"]
        show ?thesis
          unfolding step using ih len
          by (auto split: prod.splits outcome.splits intro: reads_fails [OF rds] reads_trans [OF rds])
      qed (use False dr Ok rds e in auto)
    next
      case (Err e)
      show ?thesis
      proof (cases "io_kind e = Interrupted")
        case True
        with spec Err have rds: "reads r [] r1" and "patience (rd_inner r1) < patience (rd_inner r)" by auto
        then have "load (rd_inner r1) < load (rd_inner r)"
          by (auto simp: reads_def load_def dest!: feeds_len)
        then have lt: "load (rd_inner r1) < F" "load (rd_inner r1) < f" using Suc.prems(2,3) by auto
        have step: "take_read_to_end rd F pol (Suc f) limit r acc = take_read_to_end rd F pol f limit r1 acc"
          using False dr Err True by simp
        note ih = Suc.IH [OF reads_good [OF rds Suc.prems(1)] lt assms(4), where limit = limit and acc = acc]
        show ?thesis
          unfolding step using ih reads_trans [OF rds]
          by (fastforce split: prod.splits outcome.splits intro: reads_fails [OF rds])
      qed (use False dr Err spec in auto)
    qed (use spec in auto)
  qed (use reads_refl in auto)
qed simp

lemma finish_spec:
  assumes "good r" and "load (rd_inner r) < F"
  shows "case MapiReader_finish rd F r of
     Ok s' \<Rightarrow> \<exists>bs r'. reads r bs r' \<and> rd_state r' = End \<and> s' = rd_inner r'
   | Err e \<Rightarrow> fails r e | _ \<Rightarrow> False"
  using skip_to_end_spec [OF assms assms(2)]
  by (auto simp: MapiReader_finish_def intro: reads_refl split: prod.splits outcome.splits)

lemma limited_tail_spec:
  assumes "good r" and "load (rd_inner r) < F"
  shows "case limited_tail rd F r of
     Ok s' \<Rightarrow> \<exists>r'. reads r [] r' \<and> rd_state r' = End \<and> s' = rd_inner r'
   | Err e \<Rightarrow> fails r e \<or> e = IoFraming TooLong \<and> (\<exists>b bs r'. reads r (b # bs) r')
   | _ \<Rightarrow> False"
proof (cases "rd_state r = End")
  case True
  then show ?thesis by (auto simp: limited_tail_def MapiReader_finish_def intro: reads_refl)
next
  case False
  obtain res r1 where dr: "do_read rd F F 1 r = (res, r1)" by (metis surj_pair)
  note spec = do_read_spec [OF assms assms(2), of 1, unfolded dr, simplified]
  show ?thesis
  proof (cases res)
    case (Ok bs)
    with spec False dr show ?thesis
      by (cases bs) (auto simp: limited_tail_def MapiReader_finish_def)
  qed (use spec False dr in \<open>auto simp: limited_tail_def\<close>)
qed

lemma to_limited_spec:
  assumes "load s < F" and "ok s" and pol: "\<And>k. 0 < pol k"
  shows "case to_limited rd F pol s buffer limit of
     (Ok s', buf') \<Rightarrow> \<exists>m r'. reads (MapiReader_new s) m r' \<and> rd_state r' = End \<and> s' = rd_inner r'
        \<and> length m \<le> limit \<and> buf' = buffer @ m
   | (Err e, buf') \<Rightarrow> fails (MapiReader_new s) e
        \<or> e = IoFraming TooLong \<and> (\<exists>m r'. reads (MapiReader_new s) m r' \<and> limit < length m)
   | _ \<Rightarrow> False"
proof -
  let ?r = "MapiReader_new s"
  have r: "good ?r" "load (rd_inner ?r) < F"
    using assms(1,2) by (simp_all add: MapiReader_new_def good_def)
  obtain res r1 buf' where tr: "take_read_to_end rd F pol F limit ?r buffer = (res, r1, buf')"
    by (metis surj_pair)
  note spec = take_read_to_end_spec [where pol = pol and limit = limit and acc = buffer, OF r r(2) pol, unfolded tr, simplified]
  show ?thesis
  proof (cases res)
    case (Ok u)
    with spec obtain bs where bs: "buf' = buffer @ bs" "reads ?r bs r1" "length bs \<le> limit"
      "length bs = limit \<or> rd_state r1 = End" by auto
    have "load (rd_inner r1) < F" using reads_load [OF bs(2)] r(2) by simp
    note lt = limited_tail_spec [OF reads_good [OF bs(2) r(1)] this]
    have tl: "to_limited rd F pol s buffer limit = (limited_tail rd F r1, buffer @ bs)"
      by (simp add: to_limited_def tr Ok bs(1))
    show ?thesis
    proof (cases "limited_tail rd F r1")
      case (Ok s')
      with lt obtain r' where "reads r1 [] r'" "rd_state r' = End" "s' = rd_inner r'" by auto
      with reads_trans [OF bs(2) this(1)] bs(3) show ?thesis unfolding tl Ok by auto
    next
      case (Err e)
      then consider "fails r1 e" | b bs' r' where "e = IoFraming TooLong" "reads r1 (b # bs') r'"
        using lt by auto
      then show ?thesis
      proof cases
        case 1
        then show ?thesis unfolding tl Err using reads_fails [OF bs(2)] by simp
      next
        case 2
        then have "rd_state r1 \<noteq> End" by (auto simp: reads_def split: if_splits)
        with bs(4) have "limit < length (bs @ b # bs')" by simp
        then show ?thesis unfolding tl Err using 2(1) reads_trans [OF bs(2) 2(2)] by auto
      qed
    qed (use lt in auto)
  qed (use spec tr in \<open>auto simp: to_limited_def\<close>)
qed

text \<open>Reading a framed message: the reader returns its payload and leaves the stream right after
  it, unless the stream fails or the message is longer than allowed.\<close>

lemma reads_frame:
  assumes "pend s = frame m @ rest" and "reads (MapiReader_new s) p r'"
  shows "rd_state r' = End \<Longrightarrow> p = m \<and> pend (rd_inner r') = rest" and "length p \<le> length m"
proof -
  from assms(2) obtain used where u: "used @ pend (rd_inner r') = frame m @ rest"
    "feeds Start used = Ok (p, rd_state r')"
    by (auto simp: reads_def MapiReader_new_def assms(1))
  show "p = m \<and> pend (rd_inner r') = rest" if "rd_state r' = End"
    using feeds_end_unique [OF u(1) u(2) [unfolded that] feeds_frame] u(1) by simp
  then show "length p \<le> length m"
    using feeds_before_end [OF u _ feeds_frame] by (cases "rd_state r' = End") auto
qed

lemma fails_frame:
  "pend s = frame m @ rest \<Longrightarrow> fails (MapiReader_new s) e \<Longrightarrow> source_kind (io_kind e)"
  by (auto simp: fails_def MapiReader_new_def feeds_append feeds_frame split: if_splits)

lemma to_limited_message:
  assumes "pend s = frame m @ rest" and "load s < F" and "ok s" and "\<And>k. 0 < pol k"
  shows "case to_limited rd F pol s buffer limit of
     (Ok s', buf') \<Rightarrow> length m \<le> limit \<and> buf' = buffer @ m \<and> pend s' = rest \<and> ok s' \<and> patience s' \<le> patience s
   | (Err e, buf') \<Rightarrow> source_kind (io_kind e) \<or> e = IoFraming TooLong \<and> limit < length m
   | _ \<Rightarrow> False"
proof -
  obtain res buf' where tl: "to_limited rd F pol s buffer limit = (res, buf')" by (metis surj_pair)
  note spec = to_limited_spec [where pol = pol and buffer = buffer and limit = limit, OF assms(2-4), unfolded tl]
  show ?thesis
  proof (cases res)
    case (Ok s')
    with spec obtain p r' where r: "reads (MapiReader_new s) p r'" "rd_state r' = End" "s' = rd_inner r'"
      "length p \<le> limit" "buf' = buffer @ p" by auto
    then have "ok s' \<and> patience s' \<le> patience s" using assms(3) by (simp add: reads_def MapiReader_new_def)
    with r reads_frame(1) [OF assms(1) r(1,2)] Ok show ?thesis unfolding tl by auto
  next
    case (Err e)
    with spec fails_frame [OF assms(1)] consider "source_kind (io_kind e)"
      | p r' where "e = IoFraming TooLong" "reads (MapiReader_new s) p r'" "limit < length p" by auto
    then show ?thesis
    proof cases
      case 2
      then have "limit < length m" using reads_frame(2) [OF assms(1) 2(2)] by simp
      with 2(1) show ?thesis unfolding tl Err by simp
    qed (simp add: tl Err)
  qed (use spec in auto)
qed

end

locale reliable_source = byte_source +
  assumes no_error: "0 < n \<Longrightarrow> ok s \<Longrightarrow> \<exists>bs s'. rd n s = (Ok bs, s')"
begin

lemma no_source_kind: "\<not> source_kind k"
proof
  assume "source_kind k"
  then obtain n s e s' where "0 < n" "ok s" and e: "rd n s = (Err e, s')" by (auto simp: source_kind_def)
  with no_error [of n s] show False by auto
qed

lemma to_limited_exact:
  assumes "pend s = frame m @ rest" and "load s < F" and "ok s" and "\<And>k. 0 < pol k"
  shows "length m \<le> limit \<Longrightarrow> \<exists>s'. to_limited rd F pol s buffer limit = (Ok s', buffer @ m)
       \<and> pend s' = rest \<and> ok s' \<and> patience s' \<le> patience s"
    and "limit < length m \<Longrightarrow> fst (to_limited rd F pol s buffer limit) = Err (IoFraming TooLong)"
proof -
  obtain res buf' where tl: "to_limited rd F pol s buffer limit = (res, buf')" by (metis surj_pair)
  note spec = to_limited_message [where pol = pol and buffer = buffer and limit = limit, OF assms, unfolded tl]
  show "\<exists>s'. to_limited rd F pol s buffer limit = (Ok s', buffer @ m)
       \<and> pend s' = rest \<and> ok s' \<and> patience s' \<le> patience s" if "length m \<le> limit"
    using spec that no_source_kind unfolding tl by (cases res) auto
  show "fst (to_limited rd F pol s buffer limit) = Err (IoFraming TooLong)" if "limit < length m"
    using spec that no_source_kind unfolding tl by (cases res) auto
qed

end

end
