(* ===== verification/Framing_Sock.thy ===== *)
theory Framing_Sock
  imports Framing_Reading
begin

text \<open>
  The socket of \<open>src/framing/mod.rs\<close>: idle timeouts and operation deadlines (\<open>Timeouts\<close>,
  \<open>ActiveTimeouts\<close>), the control block shared with the cancelling side (\<open>SocketControl\<close>) and
  the buffering \<open>ServerSock\<close>.

  Durations and instants are nanoseconds. The operating system's socket under a \<open>ServerSock\<close>
  is the record \<open>transport\<close>: its operations on an arbitrary state that also holds the clock.
  The locale \<open>transport_source\<close> says what the reads of such a socket promise; under it a
  \<open>ServerSock\<close> is again a \<open>byte_source\<close>, so every lemma about \<open>MapiReader\<close> applies to it.
  \<open>script\<close> is a transport that plays back a list of events.
\<close>

section \<open>Framing errors as text\<close>

fun FramingError_to_str :: "FramingError \<Rightarrow> bytes" where
  "FramingError_to_str InvalidBlockSize = ''network layer: invalid block; network byte stream out of sync?''"
| "FramingError_to_str (InvalidHeaderLength _) = ''network layer: invalid block header length''"
| "FramingError_to_str MessageAlreadyComplete = ''network layer: message is already complete''"
| "FramingError_to_str TooLong = ''network layer: message too long''"

fun FramingError_fmt :: "FramingError \<Rightarrow> bytes" where
  "FramingError_fmt (InvalidHeaderLength n) = ''network layer: invalid block header length '' @ show_nat n"
| "FramingError_fmt e = FramingError_to_str e"

section \<open>Timeouts\<close>

abbreviation READ_BUFFER_SIZE :: nat where
  "READ_BUFFER_SIZE \<equiv> 64 * 1024"

definition MAX_TIMEOUT_SECONDS :: int where
  "MAX_TIMEOUT_SECONDS = (4294967295 - 1) div 1000"

abbreviation from_secs :: "nat \<Rightarrow> nat" where
  "from_secs s \<equiv> s * 1000000000"

definition MAX_TIMEOUT :: nat where
  "MAX_TIMEOUT = from_secs (nat MAX_TIMEOUT_SECONDS)"

text \<open>The largest instant the platform represents (64-bit seconds).\<close>

definition instant_max :: nat where
  "instant_max = from_secs (2 ^ 63)"

record Timeouts =
  t_read :: "nat option"
  t_write :: "nat option"
  t_operation :: "nat option"

definition Timeouts_bounded :: "Timeouts \<Rightarrow> Timeouts" where
  "Timeouts_bounded t = (let bounded = map_option (\<lambda>value. min value MAX_TIMEOUT) in
     \<lparr>t_read = bounded (t_read t), t_write = bounded (t_write t), t_operation = bounded (t_operation t)\<rparr>)"

record ActiveTimeouts =
  a_read :: "nat option"
  a_write :: "nat option"
  a_deadline :: "nat option"

definition ActiveTimeouts_new :: "nat \<Rightarrow> Timeouts \<Rightarrow> (ActiveTimeouts, IoError) outcome" where
  "ActiveTimeouts_new now ts = (let t = Timeouts_bounded ts in
     bindR (case t_operation t of None \<Rightarrow> Ok None
            | Some timeout \<Rightarrow> if instant_max \<le> now + timeout then Panic else Ok (Some (now + timeout)))
       (\<lambda>deadline. Ok \<lparr>a_read = t_read t, a_write = t_write t, a_deadline = deadline\<rparr>))"

definition ActiveTimeouts_for_connection :: "Timeouts \<Rightarrow> nat option \<Rightarrow> ActiveTimeouts" where
  "ActiveTimeouts_for_connection ts deadline = (let t = Timeouts_bounded ts in
     \<lparr>a_read = t_read t, a_write = t_write t, a_deadline = deadline\<rparr>)"

definition deadline_expired :: IoError where
  "deadline_expired = IoText TimedOut ''operation deadline expired''"

definition ActiveTimeouts_limit ::
  "nat \<Rightarrow> ActiveTimeouts \<Rightarrow> nat option \<Rightarrow> (nat option, IoError) outcome" where
  "ActiveTimeouts_limit now a idle =
     bindR (case a_deadline a of
              Some deadline \<Rightarrow>
                if deadline < now then Err deadline_expired
                else let remaining = deadline - now in
                  if remaining = 0 then Err deadline_expired else Ok (Some remaining)
            | None \<Rightarrow> Ok None)
       (\<lambda>remaining.
         let limit = (case (idle, remaining) of
                 (Some i, Some r) \<Rightarrow> Some (min i r)
               | (Some i, None) \<Rightarrow> Some i
               | (None, r) \<Rightarrow> r)
         in case limit of
              Some l \<Rightarrow> if MAX_TIMEOUT < l
                then Err (IoText InvalidInput ''timeout exceeds the portable socket limit'')
                else Ok limit
            | None \<Rightarrow> Ok limit)"

definition ActiveTimeouts_read_limit :: "nat \<Rightarrow> ActiveTimeouts \<Rightarrow> (nat option, IoError) outcome" where
  "ActiveTimeouts_read_limit now a = ActiveTimeouts_limit now a (a_read a)"

definition ActiveTimeouts_write_limit :: "nat \<Rightarrow> ActiveTimeouts \<Rightarrow> (nat option, IoError) outcome" where
  "ActiveTimeouts_write_limit now a = ActiveTimeouts_limit now a (a_write a)"

section \<open>The control block\<close>

datatype RawSocket = Tcp | Unix | Test

text \<open>The two mutexes are taken for single accesses only, and a poisoned one is used all the same;
  \<open>sc_raw\<close> and \<open>sc_timeouts\<close> are their contents.\<close>

record SocketControl =
  sc_raw :: "RawSocket option"
  sc_timeouts :: ActiveTimeouts

definition SocketControl_new :: "RawSocket \<Rightarrow> ActiveTimeouts \<Rightarrow> SocketControl" where
  "SocketControl_new raw active = \<lparr>sc_raw = Some raw, sc_timeouts = active\<rparr>"

definition SocketControl_start_operation ::
  "nat \<Rightarrow> Timeouts \<Rightarrow> SocketControl \<Rightarrow> (SocketControl, IoError) outcome" where
  "SocketControl_start_operation now ts c =
     bindR (ActiveTimeouts_new now ts) (\<lambda>a. Ok (c\<lparr>sc_timeouts := a\<rparr>))"

definition SocketControl_set_connection_deadline ::
  "Timeouts \<Rightarrow> nat option \<Rightarrow> SocketControl \<Rightarrow> SocketControl" where
  "SocketControl_set_connection_deadline ts deadline c =
     c\<lparr>sc_timeouts := ActiveTimeouts_for_connection ts deadline\<rparr>"

definition SocketControl_read_limit :: "nat \<Rightarrow> SocketControl \<Rightarrow> (nat option, IoError) outcome" where
  "SocketControl_read_limit now c = ActiveTimeouts_read_limit now (sc_timeouts c)"

definition SocketControl_write_limit :: "nat \<Rightarrow> SocketControl \<Rightarrow> (nat option, IoError) outcome" where
  "SocketControl_write_limit now c = ActiveTimeouts_write_limit now (sc_timeouts c)"

definition read_timeout_active :: "SocketControl \<Rightarrow> bool" where
  "read_timeout_active c \<longleftrightarrow> a_read (sc_timeouts c) \<noteq> None \<or> a_deadline (sc_timeouts c) \<noteq> None"

definition write_timeout_active :: "SocketControl \<Rightarrow> bool" where
  "write_timeout_active c \<longleftrightarrow> a_write (sc_timeouts c) \<noteq> None \<or> a_deadline (sc_timeouts c) \<noteq> None"

text \<open>\<open>shutdown\<close> takes the raw socket out, so that only the first call reaches the operating
  system, whose answer is \<open>os\<close>.\<close>

definition SocketControl_shutdown ::
  "(RawSocket \<Rightarrow> (unit, IoError) outcome) \<Rightarrow> SocketControl \<Rightarrow> (unit, IoError) outcome \<times> SocketControl"
  where
  "SocketControl_shutdown os c = (case sc_raw c of
       None \<Rightarrow> (Ok (), c\<lparr>sc_raw := None\<rparr>)
     | Some Tcp \<Rightarrow> (os Tcp, c\<lparr>sc_raw := None\<rparr>)
     | Some Unix \<Rightarrow> (os Unix, c\<lparr>sc_raw := None\<rparr>)
     | Some Test \<Rightarrow> (Ok (), c\<lparr>sc_raw := None\<rparr>))"

section \<open>The socket\<close>

record 't transport =
  tr_now :: "'t \<Rightarrow> nat"
  tr_read :: "'t reader"
  tr_set_read_timeout :: "nat option \<Rightarrow> 't \<Rightarrow> (unit, IoError) outcome \<times> 't"
  tr_write :: "bytes \<Rightarrow> 't \<Rightarrow> (nat, IoError) outcome \<times> 't"
  tr_set_write_timeout :: "nat option \<Rightarrow> 't \<Rightarrow> (unit, IoError) outcome \<times> 't"
  tr_flush :: "'t \<Rightarrow> (unit, IoError) outcome \<times> 't"
  tr_write_vectored :: "bytes list \<Rightarrow> 't \<Rightarrow> (nat, IoError) outcome \<times> 't"

record 't ServerSock =
  inner :: 't
  control :: SocketControl
  read_buffer :: "bytes option"
  read_position :: nat
  read_length :: nat
  last_read_timeout :: "nat option option"
  last_write_timeout :: "nat option option"

definition ServerSock_with_control :: "'t \<Rightarrow> SocketControl \<Rightarrow> 't ServerSock" where
  "ServerSock_with_control sock c =
     \<lparr>inner = sock, control = c, read_buffer = Some (replicate READ_BUFFER_SIZE (byte_of 0)),
      read_position = 0, read_length = 0, last_read_timeout = None, last_write_timeout = None\<rparr>"

text \<open>\<open>clone\<close> is the outcome of \<open>try_clone\<close>, which duplicates the handle for the control block.\<close>

definition ServerSock_from_tcp ::
  "(unit, IoError) outcome \<Rightarrow> 't \<Rightarrow> Timeouts \<Rightarrow> nat option \<Rightarrow> ('t ServerSock, IoError) outcome" where
  "ServerSock_from_tcp clone sock ts deadline = bindR clone (\<lambda>_. Ok (
     ServerSock_with_control sock (SocketControl_new Tcp (ActiveTimeouts_for_connection ts deadline))))"

definition ServerSock_from_unix ::
  "(unit, IoError) outcome \<Rightarrow> 't \<Rightarrow> Timeouts \<Rightarrow> nat option \<Rightarrow> ('t ServerSock, IoError) outcome" where
  "ServerSock_from_unix clone sock ts deadline = bindR clone (\<lambda>_. Ok (
     ServerSock_with_control sock (SocketControl_new Unix (ActiveTimeouts_for_connection ts deadline))))"

definition ServerSock_wrap :: "'t \<Rightarrow> SocketControl \<Rightarrow> 't ServerSock" where
  "ServerSock_wrap sock c =
     \<lparr>inner = sock, control = c, read_buffer = None,
      read_position = 0, read_length = 0, last_read_timeout = None, last_write_timeout = None\<rparr>"

definition ServerSock_start_operation ::
  "nat \<Rightarrow> Timeouts \<Rightarrow> 't ServerSock \<Rightarrow> ('t ServerSock, IoError) outcome" where
  "ServerSock_start_operation now ts sock =
     bindR (SocketControl_start_operation now ts (control sock)) (\<lambda>c. Ok (sock\<lparr>control := c\<rparr>))"

definition ServerSock_set_connection_deadline ::
  "Timeouts \<Rightarrow> nat option \<Rightarrow> 't ServerSock \<Rightarrow> 't ServerSock" where
  "ServerSock_set_connection_deadline ts deadline sock =
     sock\<lparr>control := SocketControl_set_connection_deadline ts deadline (control sock)\<rparr>"

definition normalize_timeout :: "IoError \<Rightarrow> bool \<Rightarrow> IoError" where
  "normalize_timeout error timeout_active =
     (if io_kind error = WouldBlock \<and> timeout_active then IoWrap TimedOut error else error)"

text \<open>An operation of the inner socket, run on the state of the outer one.\<close>

definition on_inner ::
  "('t \<Rightarrow> ('a, IoError) outcome \<times> 't) \<Rightarrow> 't ServerSock \<Rightarrow> ('a, IoError) outcome \<times> 't ServerSock" where
  "on_inner op sock = (case op (inner sock) of (res, t) \<Rightarrow> (res, sock\<lparr>inner := t\<rparr>))"

text \<open>Filling the empty buffer: the timeout that is still allowed is set if it changed.\<close>

definition apply_read_timeout ::
  "'t transport \<Rightarrow> 't ServerSock \<Rightarrow> (unit, IoError) outcome \<times> 't ServerSock" where
  "apply_read_timeout T sock =
     bindS (SocketControl_read_limit (tr_now T (inner sock)) (control sock), sock) (\<lambda>timeout sock.
       if last_read_timeout sock \<noteq> Some timeout then
         bindS (on_inner (tr_set_read_timeout T timeout) sock)
           (\<lambda>_ sock. (Ok (), sock\<lparr>last_read_timeout := Some timeout\<rparr>))
       else (Ok (), sock))"

definition fill_buffer ::
  "'t transport \<Rightarrow> bytes \<Rightarrow> 't ServerSock \<Rightarrow> (unit, IoError) outcome \<times> 't ServerSock" where
  "fill_buffer T buffer sock =
     (case on_inner (tr_read T (length buffer)) sock of
        (res, sock) \<Rightarrow>
          bindS (map_err (\<lambda>e. normalize_timeout e (read_timeout_active (control sock))) res, sock)
            (\<lambda>bs sock. (Ok (), sock\<lparr>read_buffer := Some (bs @ drop (length bs) buffer),
                read_position := 0, read_length := length bs\<rparr>)))"

definition ServerSock_read :: "'t transport \<Rightarrow> 't ServerSock reader" where
  "ServerSock_read T n sock =
     (if n = 0 then (Ok [], sock) else
      case read_buffer sock of
        None \<Rightarrow> on_inner (tr_read T n) sock
      | Some buffer \<Rightarrow>
          bindS (if read_position sock = read_length sock
                 then bindS (apply_read_timeout T sock) (\<lambda>_ sock. fill_buffer T buffer sock)
                 else (Ok (), sock))
            (\<lambda>_ sock.
              case read_buffer sock of None \<Rightarrow> (Panic, sock) | Some buffer \<Rightarrow>
                if read_length sock < read_position sock \<or> length buffer < read_length sock then (Panic, sock)
                else let available = drop (read_position sock) (take (read_length sock) buffer);
                         count = min (length available) n
                     in (Ok (take count available), sock\<lparr>read_position := read_position sock + count\<rparr>)))"

definition apply_write_timeout ::
  "'t transport \<Rightarrow> 't ServerSock \<Rightarrow> (unit, IoError) outcome \<times> 't ServerSock" where
  "apply_write_timeout T sock =
     bindS (SocketControl_write_limit (tr_now T (inner sock)) (control sock), sock) (\<lambda>timeout sock.
       if last_write_timeout sock \<noteq> Some timeout then
         bindS (on_inner (tr_set_write_timeout T timeout) sock)
           (\<lambda>_ sock. (Ok (), sock\<lparr>last_write_timeout := Some timeout\<rparr>))
       else (Ok (), sock))"

definition with_write_timeout ::
  "'t transport \<Rightarrow> ('t \<Rightarrow> ('a, IoError) outcome \<times> 't) \<Rightarrow> 't ServerSock
    \<Rightarrow> ('a, IoError) outcome \<times> 't ServerSock" where
  "with_write_timeout T op sock =
     (if read_buffer sock = None then on_inner op sock
      else bindS (apply_write_timeout T sock) (\<lambda>_ sock.
        case on_inner op sock of (res, sock) \<Rightarrow>
          (map_err (\<lambda>e. normalize_timeout e (write_timeout_active (control sock))) res, sock)))"

definition ServerSock_write ::
  "'t transport \<Rightarrow> bytes \<Rightarrow> 't ServerSock \<Rightarrow> (nat, IoError) outcome \<times> 't ServerSock" where
  "ServerSock_write T buf sock = with_write_timeout T (tr_write T buf) sock"

definition ServerSock_flush ::
  "'t transport \<Rightarrow> 't ServerSock \<Rightarrow> (unit, IoError) outcome \<times> 't ServerSock" where
  "ServerSock_flush T sock = with_write_timeout T (tr_flush T) sock"

definition ServerSock_write_vectored ::
  "'t transport \<Rightarrow> bytes list \<Rightarrow> 't ServerSock \<Rightarrow> (nat, IoError) outcome \<times> 't ServerSock" where
  "ServerSock_write_vectored T bufs sock = with_write_timeout T (tr_write_vectored T bufs) sock"

text \<open>\<open>Write::write_all\<close> of the standard library, which \<open>MapiBuf::write_reset\<close> calls.\<close>

fun write_all ::
  "(bytes \<Rightarrow> 's \<Rightarrow> (nat, IoError) outcome \<times> 's) \<Rightarrow> nat \<Rightarrow> bytes \<Rightarrow> 's \<Rightarrow> (unit, IoError) outcome \<times> 's" where
  "write_all wr 0 buf s = (NoFuel, s)"
| "write_all wr (Suc f) buf s = (if buf = [] then (Ok (), s) else
     case wr buf s of
       (Ok n, s') \<Rightarrow> if n = 0 then (Err (IoText WriteZero ''failed to write whole buffer''), s')
          else if length buf < n then (Panic, s')
          else write_all wr f (drop n buf) s'
     | (Err e, s') \<Rightarrow> if io_kind e = Interrupted then write_all wr f buf s' else (Err e, s')
     | (Panic, s') \<Rightarrow> (Panic, s')
     | (NoFuel, s') \<Rightarrow> (NoFuel, s'))"

section \<open>Limits\<close>

lemma limit_Ok:
  assumes "ActiveTimeouts_limit now a idle = Ok r"
  shows "r = None \<longleftrightarrow> a_deadline a = None \<and> idle = None"
    and "r = Some l \<Longrightarrow> l \<le> MAX_TIMEOUT"
    and "r = Some l \<Longrightarrow> a_deadline a = Some d \<Longrightarrow> now + l \<le> d"
    and "r = Some l \<Longrightarrow> idle = Some i \<Longrightarrow> l \<le> i"
    and "a_deadline a = Some d \<Longrightarrow> now < d"
proof -
  have "(case a_deadline a of Some d \<Rightarrow> now < d \<and> r = Some (case idle of Some i \<Rightarrow> min i (d - now) | None \<Rightarrow> d - now)
       | None \<Rightarrow> r = idle) \<and> (case r of Some l \<Rightarrow> l \<le> MAX_TIMEOUT | None \<Rightarrow> True)"
    using assms by (cases "a_deadline a"; cases idle) (auto simp: ActiveTimeouts_limit_def Let_def split: if_splits)
  then show "r = None \<longleftrightarrow> a_deadline a = None \<and> idle = None"
    and "r = Some l \<Longrightarrow> l \<le> MAX_TIMEOUT"
    and "r = Some l \<Longrightarrow> a_deadline a = Some d \<Longrightarrow> now + l \<le> d"
    and "r = Some l \<Longrightarrow> idle = Some i \<Longrightarrow> l \<le> i"
    and "a_deadline a = Some d \<Longrightarrow> now < d"
    by (auto split: option.splits)
qed

lemma limit_expired:
  "a_deadline a = Some d \<Longrightarrow> d \<le> now \<Longrightarrow> ActiveTimeouts_limit now a idle = Err deadline_expired"
  by (simp add: ActiveTimeouts_limit_def)

lemma bounded_le:
  "t_read (Timeouts_bounded t) = Some l \<Longrightarrow> l \<le> MAX_TIMEOUT"
  "t_write (Timeouts_bounded t) = Some l \<Longrightarrow> l \<le> MAX_TIMEOUT"
  "t_operation (Timeouts_bounded t) = Some l \<Longrightarrow> l \<le> MAX_TIMEOUT"
  by (auto simp: Timeouts_bounded_def Let_def)

lemma limit_no_deadline:
  "a_deadline a = None \<Longrightarrow> (\<And>i. idle = Some i \<Longrightarrow> i \<le> MAX_TIMEOUT)
    \<Longrightarrow> ActiveTimeouts_limit now a idle = Ok idle"
  by (auto simp: ActiveTimeouts_limit_def split: option.splits)

lemma limit_returns: "returns (ActiveTimeouts_limit now a idle)"
  by (auto simp: ActiveTimeouts_limit_def Let_def split: option.splits)

lemma limit_not_interrupted: "ActiveTimeouts_limit now a idle = Err e \<Longrightarrow> io_kind e \<noteq> Interrupted"
  by (cases "a_deadline a"; cases idle)
     (auto simp: ActiveTimeouts_limit_def deadline_expired_def Let_def split: if_splits)

lemmas read_limit_defs = SocketControl_read_limit_def ActiveTimeouts_read_limit_def

lemma normalize_interrupted: "io_kind (normalize_timeout e b) = Interrupted \<longleftrightarrow> io_kind e = Interrupted"
  by (simp add: normalize_timeout_def)

section \<open>A buffered socket is a byte stream\<close>

definition buffered :: "'t ServerSock \<Rightarrow> bytes" where
  "buffered sock = (case read_buffer sock of None \<Rightarrow> []
     | Some b \<Rightarrow> drop (read_position sock) (take (read_length sock) b))"

definition sock_ok :: "('t \<Rightarrow> bool) \<Rightarrow> 't ServerSock \<Rightarrow> bool" where
  "sock_ok tok sock \<longleftrightarrow> tok (inner sock) \<and> (case read_buffer sock of None \<Rightarrow> True
     | Some b \<Rightarrow> length b = READ_BUFFER_SIZE \<and> read_position sock \<le> read_length sock
         \<and> read_length sock \<le> READ_BUFFER_SIZE)"

definition sock_pend :: "('t \<Rightarrow> bytes) \<Rightarrow> 't ServerSock \<Rightarrow> bytes" where
  "sock_pend tpend sock = buffered sock @ tpend (inner sock)"

definition sock_patience :: "('t \<Rightarrow> nat) \<Rightarrow> 't ServerSock \<Rightarrow> nat" where
  "sock_patience tpat sock = tpat (inner sock)"

lemmas sock_defs = sock_patience_def sock_ok_def sock_pend_def buffered_def

locale transport_source = byte_source "tr_read T" tok tpend tpat
  for T :: "'t transport" and tok :: "'t \<Rightarrow> bool" and tpend :: "'t \<Rightarrow> bytes" and tpat :: "'t \<Rightarrow> nat" +
  assumes set_timeout: "tok t \<Longrightarrow> tr_set_read_timeout T d t = (res, t') \<Longrightarrow>
      tok t' \<and> tpend t' = tpend t \<and> tpat t' = tpat t \<and> returns res
      \<and> (\<forall>e. res = Err e \<longrightarrow> io_kind e \<noteq> Interrupted)"
begin

text \<open>Setting the timeout changes nothing a reader sees.\<close>

lemma apply_read_timeout_spec:
  assumes "sock_ok tok s" and "apply_read_timeout T s = (res, s')"
  shows "sock_ok tok s' \<and> buffered s' = buffered s \<and> tpend (inner s') = tpend (inner s)
      \<and> tpat (inner s') = tpat (inner s) \<and> read_buffer s' = read_buffer s
      \<and> read_position s' = read_position s \<and> read_length s' = read_length s \<and> control s' = control s
      \<and> returns res \<and> (\<forall>e. res = Err e \<longrightarrow> io_kind e \<noteq> Interrupted)"
proof (cases "SocketControl_read_limit (tr_now T (inner s)) (control s)")
  case (Ok timeout)
  obtain r2 t2 where st: "tr_set_read_timeout T timeout (inner s) = (r2, t2)" by (metis surj_pair)
  with set_timeout [OF _ st] assms Ok show ?thesis
    by (cases r2; cases "read_buffer s")
       (auto simp: apply_read_timeout_def on_inner_def sock_defs split: if_splits)
next
  case (Err e)
  then have "io_kind e \<noteq> Interrupted" by (auto simp: read_limit_defs dest: limit_not_interrupted)
  with assms Err show ?thesis by (auto simp: apply_read_timeout_def)
qed (use limit_returns [of "tr_now T (inner s)" "sc_timeouts (control s)" "a_read (sc_timeouts (control s))"]
      in \<open>auto simp: read_limit_defs\<close>)

lemma fill_buffer_spec:
  assumes ok: "sock_ok tok s" and b: "read_buffer s = Some b" and empty: "read_position s = read_length s"
    and fb: "fill_buffer T b s = (res, s')"
  shows "case res of
      Ok _ \<Rightarrow> sock_ok tok s' \<and> read_buffer s' \<noteq> None \<and> tpend (inner s) = buffered s' @ tpend (inner s')
        \<and> (buffered s' = [] \<longrightarrow> tpend (inner s) = []) \<and> tpat (inner s') \<le> tpat (inner s)
    | Err e \<Rightarrow> io_kind e = Interrupted \<longrightarrow> sock_ok tok s' \<and> sock_pend tpend s' = sock_pend tpend s
        \<and> tpat (inner s') < tpat (inner s)
    | _ \<Rightarrow> False"
proof -
  have tok: "tok (inner s)" and n: "length b = READ_BUFFER_SIZE" "0 < length b"
    using ok b by (auto simp: sock_ok_def)
  show ?thesis
  proof (cases rule: rd_cases [OF n(2) tok, case_names Data Fault])
    case (Data bs t')
    with deliver [OF n(2) tok Data] fb n(1) show ?thesis
      by (auto simp: fill_buffer_def on_inner_def sock_defs)
  next
    case (Fault e t')
    with interrupted [OF n(2) tok Fault] fb ok b show ?thesis
      by (auto simp: fill_buffer_def on_inner_def sock_defs normalize_interrupted)
  qed
qed

lemma ServerSock_read_spec:
  assumes n: "0 < n" and ok: "sock_ok tok s" and rd: "ServerSock_read T n s = (res, s')"
  shows "case res of
      Ok bs \<Rightarrow> sock_ok tok s' \<and> sock_pend tpend s = bs @ sock_pend tpend s' \<and> length bs \<le> n
        \<and> (bs = [] \<longrightarrow> sock_pend tpend s = []) \<and> sock_patience tpat s' \<le> sock_patience tpat s
    | Err e \<Rightarrow> io_kind e = Interrupted \<longrightarrow> sock_ok tok s' \<and> sock_pend tpend s' = sock_pend tpend s
        \<and> sock_patience tpat s' < sock_patience tpat s
    | _ \<Rightarrow> False"
proof (cases "read_buffer s")
  case None
  then have tok: "tok (inner s)" using ok by (simp add: sock_ok_def)
  show ?thesis
  proof (cases rule: rd_cases [OF n tok, case_names Data Fault])
    case (Data bs t')
    with deliver [OF n tok Data] rd n None show ?thesis
      by (auto simp: ServerSock_read_def on_inner_def sock_defs)
  next
    case (Fault e t')
    with interrupted [OF n tok Fault] rd n None show ?thesis
      by (auto simp: ServerSock_read_def on_inner_def sock_defs)
  qed
next
  case (Some b)
  obtain r1 s1 where pre: "(if read_position s = read_length s
      then bindS (apply_read_timeout T s) (\<lambda>_ sock. fill_buffer T b sock) else (Ok (), s)) = (r1, s1)"
    by (metis surj_pair)
  have filled: "case r1 of
      Ok _ \<Rightarrow> sock_ok tok s1 \<and> read_buffer s1 \<noteq> None \<and> sock_pend tpend s = sock_pend tpend s1
        \<and> (buffered s1 = [] \<longrightarrow> sock_pend tpend s = []) \<and> tpat (inner s1) \<le> tpat (inner s)
    | Err e \<Rightarrow> io_kind e = Interrupted \<longrightarrow> sock_ok tok s1 \<and> sock_pend tpend s1 = sock_pend tpend s
        \<and> tpat (inner s1) < tpat (inner s)
    | _ \<Rightarrow> False"
  proof (cases "read_position s = read_length s")
    case True
    then have nb: "buffered s = []" using Some by (simp add: buffered_def)
    obtain r0 s0 where art: "apply_read_timeout T s = (r0, s0)" by (metis surj_pair)
    note spec = apply_read_timeout_spec [OF ok art]
    show ?thesis
    proof (cases r0)
      case (Ok u)
      then have "fill_buffer T b s0 = (r1, s1)" using pre True art by simp
      from fill_buffer_spec [OF _ _ _ this] spec True Some nb show ?thesis
        by (cases r1) (auto simp: sock_pend_def)
    qed (use spec pre True art in auto)
  next
    case False
    with pre ok Some show ?thesis by (auto simp: sock_defs)
  qed
  show ?thesis
  proof (cases r1)
    case (Ok u)
    then obtain b1 where b1: "read_buffer s1 = Some b1" using filled by auto
    with Ok filled have lens: "length b1 = READ_BUFFER_SIZE" "read_position s1 \<le> read_length s1"
      "read_length s1 \<le> READ_BUFFER_SIZE" by (auto simp: sock_ok_def)
    define av where "av = drop (read_position s1) (take (read_length s1) b1)"
    have rs: "res = Ok (take (min (length av) n) av)"
      and s': "s' = s1\<lparr>read_position := read_position s1 + min (length av) n\<rparr>"
      using rd n Some pre Ok b1 lens by (auto simp: ServerSock_read_def av_def Let_def)
    have bs1: "buffered s1 = av" using b1 by (simp add: buffered_def av_def)
    have bs': "buffered s' = drop (min (length av) n) av"
      using b1 by (simp add: buffered_def s' av_def add.commute)
    have "length av = read_length s1 - read_position s1" using lens by (simp add: av_def)
    then have ok': "sock_ok tok s'" using Ok filled b1 lens by (auto simp: sock_ok_def s')
    have i': "inner s' = inner s1" by (simp add: s')
    have "min (length av) n = 0 \<longleftrightarrow> av = []" using n by (cases av) (auto simp: min_def)
    then show ?thesis
      unfolding rs using filled Ok ok'
      by (auto simp: sock_pend_def bs' bs1 i' sock_patience_def)
  next
    case (Err e)
    then have "res = Err e" "s' = s1" using rd n Some pre by (auto simp: ServerSock_read_def)
    with Err filled show ?thesis by (simp add: sock_patience_def)
  qed (use filled in auto)
qed

lemma sock_source:
  "byte_source (ServerSock_read T) (sock_ok tok) (sock_pend tpend) (sock_patience tpat)"
proof
  fix n :: nat and s s' :: "'t ServerSock" and bs e
  assume n: "0 < n" and ok: "sock_ok tok s"
  note spec = ServerSock_read_spec [OF n ok]
  show "ServerSock_read T n s = (Ok bs, s') \<Longrightarrow> sock_ok tok s' \<and> sock_pend tpend s = bs @ sock_pend tpend s'
      \<and> length bs \<le> n \<and> (bs = [] \<longrightarrow> sock_pend tpend s = []) \<and> sock_patience tpat s' \<le> sock_patience tpat s"
    using spec by fastforce
  show "ServerSock_read T n s = (Err e, s') \<Longrightarrow> io_kind e = Interrupted \<Longrightarrow>
      sock_ok tok s' \<and> sock_pend tpend s' = sock_pend tpend s \<and> sock_patience tpat s' < sock_patience tpat s"
    using spec by fastforce
  show "returns (fst (ServerSock_read T n s))"
    using spec by (cases "ServerSock_read T n s"; cases "fst (ServerSock_read T n s)") auto
qed

end

sublocale transport_source \<subseteq>
  sock: byte_source "ServerSock_read T" "sock_ok tok" "sock_pend tpend" "sock_patience tpat"
  by (rule sock_source)

section \<open>Reading without failures\<close>

text \<open>A transport that never fails, under a socket without a deadline.\<close>

definition sock_calm :: "'t ServerSock \<Rightarrow> bool" where
  "sock_calm sock \<longleftrightarrow> a_deadline (sc_timeouts (control sock)) = None
     \<and> (\<forall>l. a_read (sc_timeouts (control sock)) = Some l \<longrightarrow> l \<le> MAX_TIMEOUT)"

definition calm_ok :: "('t \<Rightarrow> bool) \<Rightarrow> 't ServerSock \<Rightarrow> bool" where
  "calm_ok tok sock \<longleftrightarrow> sock_ok tok sock \<and> sock_calm sock"

lemma calm_limit:
  "sock_calm s \<Longrightarrow> SocketControl_read_limit now (control s) = Ok (a_read (sc_timeouts (control s)))"
  by (auto simp: sock_calm_def read_limit_defs intro!: limit_no_deadline)

locale reliable_transport = transport_source +
  assumes read_ok: "0 < n \<Longrightarrow> tok t \<Longrightarrow> \<exists>bs t'. tr_read T n t = (Ok bs, t')"
    and set_ok: "tok t \<Longrightarrow> \<exists>t'. tr_set_read_timeout T d t = (Ok (), t')"
begin

lemma on_inner_control: "on_inner op s = (res, s') \<Longrightarrow> control s' = control s"
  by (auto simp: on_inner_def split: prod.splits)

lemma apply_read_timeout_ok:
  assumes "calm_ok tok s"
  shows "\<exists>s'. apply_read_timeout T s = (Ok (), s') \<and> tok (inner s') \<and> control s' = control s"
proof -
  have tok: "tok (inner s)" and c: "sock_calm s" using assms by (simp_all add: calm_ok_def sock_ok_def)
  let ?l = "a_read (sc_timeouts (control s))"
  obtain t' where st: "tr_set_read_timeout T ?l (inner s) = (Ok (), t')" using set_ok [OF tok] by blast
  from set_timeout [OF tok st] tok st c show ?thesis
    by (simp add: apply_read_timeout_def calm_limit on_inner_def)
qed

lemma fill_buffer_ok:
  assumes "tok (inner s)" and "0 < length b"
  shows "\<exists>s'. fill_buffer T b s = (Ok (), s') \<and> control s' = control s"
  using read_ok [OF assms(2,1)] by (auto simp: fill_buffer_def on_inner_def)

lemma ServerSock_read_ok:
  assumes n: "0 < n" and ok: "calm_ok tok s"
  shows "\<exists>bs s'. ServerSock_read T n s = (Ok bs, s') \<and> calm_ok tok s'"
proof -
  have sok: "sock_ok tok s" using ok by (simp add: calm_ok_def)
  obtain res s' where rd: "ServerSock_read T n s = (res, s')" by (metis surj_pair)
  have "control s' = control s \<and> (\<forall>e. res \<noteq> Err e)"
  proof (cases "read_buffer s")
    case None
    then have "tok (inner s)" using sok by (simp add: sock_ok_def)
    from read_ok [OF n this] None n rd show ?thesis
      by (auto simp: ServerSock_read_def on_inner_def)
  next
    case (Some b)
    then have b: "0 < length b" using sok by (simp add: sock_ok_def)
    from apply_read_timeout_ok [OF ok] obtain s1 where s1: "apply_read_timeout T s = (Ok (), s1)"
      "tok (inner s1)" "control s1 = control s" by blast
    from fill_buffer_ok [OF s1(2) b] obtain s2 where "fill_buffer T b s1 = (Ok (), s2)" "control s2 = control s1"
      by blast
    with s1 rd n Some show ?thesis
      by (auto simp: ServerSock_read_def Let_def split: if_splits option.splits)
  qed
  with ServerSock_read_spec [OF n sok rd] ok rd show ?thesis
    by (cases res) (auto simp: calm_ok_def sock_calm_def)
qed

lemma calm_source:
  "reliable_source (ServerSock_read T) (calm_ok tok) (sock_pend tpend) (sock_patience tpat)"
proof
  fix n :: nat and s s' :: "'a ServerSock" and bs e
  assume n: "0 < n" and ok: "calm_ok tok s"
  obtain bs1 s1 where r1: "ServerSock_read T n s = (Ok bs1, s1)" "calm_ok tok s1"
    using ServerSock_read_ok [OF n ok] by blast
  have sok: "sock_ok tok s" using ok by (simp add: calm_ok_def)
  show "ServerSock_read T n s = (Ok bs, s') \<Longrightarrow> calm_ok tok s' \<and> sock_pend tpend s = bs @ sock_pend tpend s'
      \<and> length bs \<le> n \<and> (bs = [] \<longrightarrow> sock_pend tpend s = []) \<and> sock_patience tpat s' \<le> sock_patience tpat s"
    using ServerSock_read_spec [OF n sok, of "Ok bs" s'] r1 by auto
  show "ServerSock_read T n s = (Err e, s') \<Longrightarrow> io_kind e = Interrupted \<Longrightarrow>
      calm_ok tok s' \<and> sock_pend tpend s' = sock_pend tpend s \<and> sock_patience tpat s' < sock_patience tpat s"
    and "returns (fst (ServerSock_read T n s))" and "\<exists>bs s'. ServerSock_read T n s = (Ok bs, s')"
    using r1 by auto
qed

end

sublocale reliable_transport \<subseteq>
  calm: reliable_source "ServerSock_read T" "calm_ok tok" "sock_pend tpend" "sock_patience tpat"
  by (rule calm_source)

section \<open>Writing everything\<close>

locale byte_sink =
  fixes wr :: "bytes \<Rightarrow> 's \<Rightarrow> (nat, IoError) outcome \<times> 's" and out :: "'s \<Rightarrow> bytes" and wpat :: "'s \<Rightarrow> nat"
  assumes accept: "buf \<noteq> [] \<Longrightarrow> wr buf s = (Ok n, s') \<Longrightarrow>
      n \<le> length buf \<and> out s' = out s @ take n buf \<and> wpat s' \<le> wpat s"
    and refuse: "buf \<noteq> [] \<Longrightarrow> wr buf s = (Err e, s') \<Longrightarrow>
      out s' = out s \<and> (io_kind e = Interrupted \<longrightarrow> wpat s' < wpat s)"
    and wr_returns: "returns (fst (wr buf s))"
begin

text \<open>\<open>write_all\<close> hands over the whole buffer in order, or fails after a prefix of it.\<close>

lemma write_all_spec:
  "length buf + wpat s < f \<Longrightarrow> case write_all wr f buf s of
     (Ok _, s') \<Rightarrow> out s' = out s @ buf
   | (Err e, s') \<Rightarrow> \<exists>k\<le>length buf. out s' = out s @ take k buf
   | _ \<Rightarrow> False"
proof (induction f arbitrary: buf s)
  case (Suc f)
  show ?case
  proof (cases "buf = []")
    case ne: False
    obtain res s1 where wr: "wr buf s = (res, s1)" by (metis surj_pair)
    show ?thesis
    proof (cases res)
      case (Ok n)
      with accept [OF ne wr [unfolded Ok]] have a: "n \<le> length buf" "out s1 = out s @ take n buf"
        "wpat s1 \<le> wpat s" by auto
      show ?thesis
      proof (cases "n = 0")
        case False
        with a Suc.prems have lt: "length (drop n buf) + wpat s1 < f" by simp
        have step: "write_all wr (Suc f) buf s = write_all wr f (drop n buf) s1"
          using ne wr Ok a False by simp
        obtain r2 s2 where w2: "write_all wr f (drop n buf) s1 = (r2, s2)" by (metis surj_pair)
        from Suc.IH [OF lt, unfolded w2] show ?thesis
        proof (cases r2)
          case (Err e)
          with Suc.IH [OF lt, unfolded w2] obtain k where k: "k \<le> length buf - n"
            "out s2 = out s1 @ take k (drop n buf)" by auto
          then have "out s2 = out s @ take (n + k) buf" using a by (simp add: take_add)
          with k a Err show ?thesis unfolding step w2 by (auto intro!: exI [of _ "n + k"])
        qed (unfold step w2, use a in auto)
      qed (use ne wr Ok a in auto)
    next
      case (Err e)
      with refuse [OF ne wr [unfolded Err]] have a: "out s1 = out s"
        "io_kind e = Interrupted \<Longrightarrow> wpat s1 < wpat s" by auto
      show ?thesis
      proof (cases "io_kind e = Interrupted")
        case True
        with a Suc.prems have "length buf + wpat s1 < f" by auto
        from Suc.IH [OF this] ne wr Err True show ?thesis unfolding a(1) by simp
      qed (use ne wr Err a in auto)
    qed (use wr_returns [of buf s] wr in auto)
  qed simp
qed simp

end

locale transport_sink = byte_sink "tr_write T" out wpat
  for T :: "'t transport" and out :: "'t \<Rightarrow> bytes" and wpat :: "'t \<Rightarrow> nat" +
  assumes set_write: "tr_set_write_timeout T d t = (res, t') \<Longrightarrow>
      out t' = out t \<and> wpat t' = wpat t \<and> returns res \<and> (\<forall>e. res = Err e \<longrightarrow> io_kind e \<noteq> Interrupted)"
begin

lemma apply_write_timeout_spec:
  assumes "apply_write_timeout T s = (res, s')"
  shows "out (inner s') = out (inner s) \<and> wpat (inner s') = wpat (inner s) \<and> returns res
      \<and> (\<forall>e. res = Err e \<longrightarrow> io_kind e \<noteq> Interrupted)"
proof (cases "SocketControl_write_limit (tr_now T (inner s)) (control s)")
  case (Ok timeout)
  obtain r2 t2 where st: "tr_set_write_timeout T timeout (inner s) = (r2, t2)" by (metis surj_pair)
  with set_write [OF st] assms Ok show ?thesis
    by (cases r2) (auto simp: apply_write_timeout_def on_inner_def split: if_splits)
next
  case (Err e)
  then have "io_kind e \<noteq> Interrupted"
    by (auto simp: SocketControl_write_limit_def ActiveTimeouts_write_limit_def dest: limit_not_interrupted)
  with assms Err show ?thesis by (auto simp: apply_write_timeout_def)
qed (use limit_returns [of "tr_now T (inner s)" "sc_timeouts (control s)" "a_write (sc_timeouts (control s))"]
      in \<open>auto simp: SocketControl_write_limit_def ActiveTimeouts_write_limit_def\<close>)

lemma with_write_timeout_cases:
  assumes "with_write_timeout T op s = (res, s')"
  obtains (plain) t r where "out t = out (inner s)" "wpat t = wpat (inner s)"
      "op t = (r, inner s')" "res = map_err (\<lambda>e. e) r \<or> (\<exists>b. res = map_err (\<lambda>e. normalize_timeout e b) r)"
    | (early) e where "res = Err e" "io_kind e \<noteq> Interrupted" "out (inner s') = out (inner s)"
proof (cases "read_buffer s = None")
  case True
  obtain r t where w: "op (inner s) = (r, t)" by (metis surj_pair)
  with assms True have "res = map_err (\<lambda>e. e) r" "inner s' = t"
    by (cases r; auto simp: with_write_timeout_def on_inner_def)+
  with w plain show ?thesis by blast
next
  case False
  obtain r0 s0 where a: "apply_write_timeout T s = (r0, s0)" by (metis surj_pair)
  note spec = apply_write_timeout_spec [OF a]
  show ?thesis
  proof (cases r0)
    case (Ok u)
    obtain r t where w: "op (inner s0) = (r, t)" by (metis surj_pair)
    with assms False a Ok have "res = map_err (\<lambda>e. normalize_timeout e (write_timeout_active (control s0))) r"
      "inner s' = t"
      by (auto simp: with_write_timeout_def on_inner_def)
    with w spec plain show ?thesis by metis
  next
    case (Err e)
    with assms False a spec early show ?thesis
      by (auto simp: with_write_timeout_def)
  qed (use spec in auto)
qed

lemmas ServerSock_write_cases [consumes 1, case_names plain early] = with_write_timeout_cases [where op = "tr_write T buf" for buf, folded ServerSock_write_def]

lemma sock_sink: "byte_sink (ServerSock_write T) (out \<circ> inner) (wpat \<circ> inner)"
proof
  fix buf n e and s s' :: "'t ServerSock"
  show "n \<le> length buf \<and> (out \<circ> inner) s' = (out \<circ> inner) s @ take n buf \<and> (wpat \<circ> inner) s' \<le> (wpat \<circ> inner) s"
    if "buf \<noteq> []" and "ServerSock_write T buf s = (Ok n, s')"
    using that(2)
  proof (cases rule: ServerSock_write_cases)
    case (plain t r)
    then have "tr_write T buf t = (Ok n, inner s')" by (cases r) auto
    from accept [OF that(1) this] plain(1,2) show ?thesis by simp
  qed simp
  show "(out \<circ> inner) s' = (out \<circ> inner) s \<and> (io_kind e = Interrupted \<longrightarrow> (wpat \<circ> inner) s' < (wpat \<circ> inner) s)"
    if "buf \<noteq> []" and w: "ServerSock_write T buf s = (Err e, s')"
    using w
  proof (cases rule: ServerSock_write_cases)
    case (plain t r)
    then obtain e' where "r = Err e'" "io_kind e = Interrupted \<Longrightarrow> io_kind e' = Interrupted"
      by (cases r) (auto simp: normalize_interrupted)
    with refuse [OF that(1), of t e'] plain show ?thesis by auto
  qed auto
  show "returns (fst (ServerSock_write T buf s))"
  proof -
    obtain res s1 where w: "ServerSock_write T buf s = (res, s1)" by (metis surj_pair)
    then show ?thesis
    proof (cases rule: ServerSock_write_cases)
      case (plain t r)
      with wr_returns [of buf t] show ?thesis by (auto simp: w)
    qed (simp add: w)
  qed
qed

end

sublocale transport_sink \<subseteq> sock: byte_sink "ServerSock_write T" "out \<circ> inner" "wpat \<circ> inner"
  by (rule sock_sink)

section \<open>A scripted transport\<close>

text \<open>Each read takes the next event of the list: bytes that arrived (what does not fit the buffer
  stays) or a failure. Each write takes the next allowance, or accepts everything when none is left.\<close>

datatype event = Recv bytes | Fault ErrorKind
datatype allowance = Accept nat | Refuse ErrorKind

record script =
  clock :: nat
  events :: "(nat \<times> event) list"
  allowances :: "allowance list"
  sent :: bytes

fun script_read :: "script reader" where
  "script_read n s = (case events s of
       [] \<Rightarrow> (Ok [], s)
     | (dt, Recv bs) # es \<Rightarrow> (Ok (take n bs), s\<lparr>clock := clock s + dt,
          events := (if length bs \<le> n then es else (0, Recv (drop n bs)) # es)\<rparr>)
     | (dt, Fault k) # es \<Rightarrow> (Err (IoKind k), s\<lparr>clock := clock s + dt, events := es\<rparr>))"

fun script_write :: "bytes \<Rightarrow> script \<Rightarrow> (nat, IoError) outcome \<times> script" where
  "script_write buf s = (case allowances s of
       [] \<Rightarrow> (Ok (length buf), s\<lparr>sent := sent s @ buf\<rparr>)
     | Accept n # as \<Rightarrow> (Ok (min n (length buf)), s\<lparr>allowances := as, sent := sent s @ take n buf\<rparr>)
     | Refuse k # as \<Rightarrow> (Err (IoKind k), s\<lparr>allowances := as\<rparr>))"

definition script_transport :: "script transport" where
  "script_transport = \<lparr>tr_now = clock, tr_read = script_read,
     tr_set_read_timeout = (\<lambda>d s. (Ok (), s)), tr_write = script_write,
     tr_set_write_timeout = (\<lambda>d s. (Ok (), s)), tr_flush = (\<lambda>s. (Ok (), s)),
     tr_write_vectored = (\<lambda>bufs. script_write (concat bufs))\<rparr>"

definition script_ok :: "script \<Rightarrow> bool" where
  "script_ok s \<longleftrightarrow> (\<forall>dt. (dt, Recv []) \<notin> set (events s))"

fun event_bytes :: "nat \<times> event \<Rightarrow> bytes" where
  "event_bytes (_, Recv bs) = bs"
| "event_bytes (_, Fault k) = []"

definition script_pend :: "script \<Rightarrow> bytes" where
  "script_pend s = concat (map event_bytes (events s))"

definition script_patience :: "script \<Rightarrow> nat" where
  "script_patience s = length (filter (\<lambda>(dt, ev). ev = Fault Interrupted) (events s))"

interpretation script_source: transport_source script_transport script_ok script_pend script_patience
proof
  fix n :: nat and s s' :: script and bs e and d and res :: "(unit, IoError) outcome"
  assume n: "0 < n"
  show "script_ok s \<Longrightarrow> tr_read script_transport n s = (Ok bs, s') \<Longrightarrow> script_ok s' \<and>
      script_pend s = bs @ script_pend s' \<and> length bs \<le> n \<and> (bs = [] \<longrightarrow> script_pend s = [])
      \<and> script_patience s' \<le> script_patience s"
    using n by (auto simp: script_transport_def script_ok_def script_pend_def script_patience_def
        split: list.splits event.splits if_splits)
  show "tr_read script_transport n s = (Err e, s') \<Longrightarrow> script_ok s \<Longrightarrow> io_kind e = Interrupted \<Longrightarrow>
      script_ok s' \<and> script_pend s' = script_pend s \<and> script_patience s' < script_patience s"
    by (auto simp: script_transport_def script_ok_def script_pend_def script_patience_def
        split: list.splits event.splits if_splits)
  show "returns (fst (tr_read script_transport n s))"
    by (auto simp: script_transport_def split: list.splits event.splits)
qed (auto simp: script_transport_def)

definition script_wpatience :: "script \<Rightarrow> nat" where
  "script_wpatience s = length (filter (\<lambda>a. a = Refuse Interrupted) (allowances s))"

interpretation script_sink: transport_sink script_transport sent script_wpatience
  by unfold_locales
     (auto simp: script_transport_def script_wpatience_def min_def split: list.splits allowance.splits)

text \<open>A script without failures.\<close>

definition script_calm :: "script \<Rightarrow> bool" where
  "script_calm s \<longleftrightarrow> script_ok s \<and> (\<forall>dt k. (dt, Fault k) \<notin> set (events s))"

lemma script_read_calm:
  "0 < n \<Longrightarrow> script_calm s \<Longrightarrow> \<exists>bs s'. script_read n s = (Ok bs, s') \<and> script_calm s'"
  by (fastforce simp: script_calm_def script_ok_def split: list.splits event.splits if_splits)

interpretation script_reliable: reliable_transport script_transport script_calm script_pend script_patience
proof
  fix n :: nat and s s' :: script and bs e
  assume n: "0 < n" and ok: "script_calm s"
  obtain bs1 s1 where r: "tr_read script_transport n s = (Ok bs1, s1)" "script_calm s1"
    using script_read_calm [OF n ok] by (auto simp: script_transport_def)
  have "script_ok s" using ok by (simp add: script_calm_def)
  note d = script_source.deliver [OF n this r(1)]
  show "tr_read script_transport n s = (Ok bs, s') \<Longrightarrow> script_calm s' \<and>
      script_pend s = bs @ script_pend s' \<and> length bs \<le> n \<and> (bs = [] \<longrightarrow> script_pend s = [])
      \<and> script_patience s' \<le> script_patience s"
    using r d by auto
  show "tr_read script_transport n s = (Err e, s') \<Longrightarrow> io_kind e = Interrupted \<Longrightarrow>
      script_calm s' \<and> script_pend s' = script_pend s \<and> script_patience s' < script_patience s"
    and "returns (fst (tr_read script_transport n s))"
    and "\<exists>bs s'. tr_read script_transport n s = (Ok bs, s')"
    using r by auto
qed (auto simp: script_transport_def)

section \<open>Properties\<close>

text \<open>The timeout of an operation started at \<open>t0\<close> with the operation timeout \<open>op\<close>, at time \<open>now\<close>.\<close>

definition cap_timeout :: "nat option \<Rightarrow> nat option" where
  "cap_timeout = map_option (\<lambda>v. min v MAX_TIMEOUT)"

definition limit_spec :: "nat \<Rightarrow> nat option \<Rightarrow> nat option \<Rightarrow> nat \<Rightarrow> (nat option, IoError) outcome" where
  "limit_spec t0 op idle now = (case op of
       None \<Rightarrow> Ok idle
     | Some op \<Rightarrow> if t0 + op \<le> now then Err deadline_expired
         else Ok (Some (case idle of Some i \<Rightarrow> min i (t0 + op - now) | None \<Rightarrow> t0 + op - now)))"

text \<open>Once an operation has been started at time \<open>t0\<close>, the timeout used for a socket read or write
  at any later time is the idle timeout cut to what is left of the operation, both capped at the
  portable maximum; when nothing is left the call fails with \<open>TimedOut\<close>, and it never fails for
  any other reason.\<close>

theorem operation_limits:
  assumes "SocketControl_start_operation t0 ts c = Ok c'" and "t0 \<le> now"
  shows "SocketControl_read_limit now c'
       = limit_spec t0 (cap_timeout (t_operation ts)) (cap_timeout (t_read ts)) now
     \<and> SocketControl_write_limit now c'
       = limit_spec t0 (cap_timeout (t_operation ts)) (cap_timeout (t_write ts)) now"
proof -
  define b where "b = Timeouts_bounded ts"
  have caps: "cap_timeout (t_operation ts) = t_operation b" "cap_timeout (t_read ts) = t_read b"
    "cap_timeout (t_write ts) = t_write b"
    by (simp_all add: b_def cap_timeout_def Timeouts_bounded_def Let_def)
  have le: "t_read b = Some l \<Longrightarrow> l \<le> MAX_TIMEOUT" "t_write b = Some l \<Longrightarrow> l \<le> MAX_TIMEOUT"
    "t_operation b = Some l \<Longrightarrow> l \<le> MAX_TIMEOUT" for l
    by (simp_all add: b_def bounded_le)
  have a: "sc_timeouts c' = \<lparr>a_read = t_read b, a_write = t_write b,
      a_deadline = map_option (\<lambda>op. t0 + op) (t_operation b)\<rparr>"
    using assms(1) by (auto simp: SocketControl_start_operation_def ActiveTimeouts_new_def b_def Let_def
        split: option.splits if_splits)
  have key: "ActiveTimeouts_limit now (sc_timeouts c') idle = limit_spec t0 (t_operation b) idle now"
    if "\<And>l. idle = Some l \<Longrightarrow> l \<le> MAX_TIMEOUT" for idle
    using that le(3) assms(2)
    by (cases "t_operation b"; cases idle) (fastforce simp: a limit_spec_def ActiveTimeouts_limit_def Let_def min_def)+
  show ?thesis
    unfolding caps SocketControl_read_limit_def SocketControl_write_limit_def ActiveTimeouts_read_limit_def
      ActiveTimeouts_write_limit_def
    using key [of "t_read b"] key [of "t_write b"] le(1,2) by (simp add: a)
qed

theorem operation_limits_witness:
  "SocketControl_read_limit 150 \<lparr>sc_raw = Some Tcp,
       sc_timeouts = \<lparr>a_read = Some 90, a_write = None, a_deadline = Some 200\<rparr>\<rparr>
     = limit_spec 100 (cap_timeout (Some 100)) (cap_timeout (Some 90)) 150"
  using operation_limits [of 100 "\<lparr>t_read = Some 90, t_write = None, t_operation = Some 100\<rparr>"
      "\<lparr>sc_raw = Some Tcp, sc_timeouts = \<lparr>a_read = None, a_write = None, a_deadline = None\<rparr>\<rparr>"
      "\<lparr>sc_raw = Some Tcp, sc_timeouts = \<lparr>a_read = Some 90, a_write = None, a_deadline = Some 200\<rparr>\<rparr>" 150]
  by (simp add: SocketControl_start_operation_def ActiveTimeouts_new_def Timeouts_bounded_def Let_def
      MAX_TIMEOUT_def MAX_TIMEOUT_SECONDS_def instant_max_def)

definition expired_sock :: "script ServerSock" where
  "expired_sock = ServerSock_with_control \<lparr>clock = 10, events = [(0, Recv ''a'')], allowances = [], sent = []\<rparr>
     (SocketControl_new Tcp (ActiveTimeouts_for_connection
        \<lparr>t_read = None, t_write = None, t_operation = None\<rparr> (Some 10)))"

text \<open>Once its deadline has passed, a socket whose buffer is used up neither reads nor writes any more:
  both operations report that the operation's deadline expired and leave the transport alone.\<close>

theorem expired_deadline_stops_io:
  assumes "a_deadline (sc_timeouts (control sock)) = Some d" and "d \<le> tr_now T (inner sock)"
    and "read_buffer sock = Some b" and "read_position sock = read_length sock" and "0 < n"
  shows "ServerSock_read T n sock = (Err deadline_expired, sock)
     \<and> ServerSock_write T buf sock = (Err deadline_expired, sock)
     \<and> ServerSock_flush T sock = (Err deadline_expired, sock)"
  using assms limit_expired [OF assms(1,2)]
  by (simp add: ServerSock_read_def ServerSock_write_def ServerSock_flush_def with_write_timeout_def
      apply_read_timeout_def apply_write_timeout_def SocketControl_read_limit_def SocketControl_write_limit_def
      ActiveTimeouts_read_limit_def ActiveTimeouts_write_limit_def)

theorem expired_deadline_stops_io_witness:
  "ServerSock_read script_transport 4 (expired_sock :: script ServerSock) = (Err deadline_expired, expired_sock)"
  using expired_deadline_stops_io [of expired_sock 10 script_transport "replicate READ_BUFFER_SIZE (byte_of 0)" 4]
  by (simp add: expired_sock_def ServerSock_with_control_def SocketControl_new_def
      ActiveTimeouts_for_connection_def Let_def script_transport_def)

end
