(* ===== verification/Framing_Link.thy ===== *)
theory Framing_Link
  imports Framing_Writing Framing_Sock
begin

text \<open>
  The two directions of the framing layer put together: \<open>MapiBuf::write_reset\<close> and
  \<open>write_reset_plus\<close> (\<open>src/framing/writing.rs\<close>) over a socket, and the properties of the whole
  layer: what is written is framed, what is framed is read back, whatever the pieces in which
  the stream accepts and delivers bytes.
\<close>

section \<open>Model of the code\<close>

type_synonym 's writer = "bytes \<Rightarrow> 's \<Rightarrow> (nat, IoError) outcome \<times> 's"

text \<open>\<open>MapiBuf\<close> itself never fails; \<open>lift_buf\<close> puts its result where an I/O result is expected.\<close>

fun lift_buf :: "('a, FramingError) outcome \<Rightarrow> ('a, IoError) outcome" where
  "lift_buf m = map_err IoFraming m"

definition MapiBuf_write_reset ::
  "bool \<Rightarrow> 's writer \<Rightarrow> nat \<Rightarrow> MapiBuf \<Rightarrow> 's \<Rightarrow> (unit, IoError) outcome \<times> MapiBuf \<times> 's" where
  "MapiBuf_write_reset debug wr F mb s =
     (case lift_buf (MapiBuf_end_reset debug mb) of
        Ok (data, mb') \<Rightarrow> (case write_all wr F data s of (res, s') \<Rightarrow> (res, mb', s'))
      | Err e \<Rightarrow> (Err e, mb, s) | Panic \<Rightarrow> (Panic, mb, s) | NoFuel \<Rightarrow> (NoFuel, mb, s))"

definition MapiBuf_write_reset_plus ::
  "bool \<Rightarrow> 's writer \<Rightarrow> nat \<Rightarrow> bytes list \<Rightarrow> MapiBuf \<Rightarrow> 's \<Rightarrow> (unit, IoError) outcome \<times> MapiBuf \<times> 's"
  where
  "MapiBuf_write_reset_plus debug wr F extra mb s =
     (case lift_buf (append_all extra mb) of
        Ok mb' \<Rightarrow> MapiBuf_write_reset debug wr F mb' s
      | Err e \<Rightarrow> (Err e, mb, s) | Panic \<Rightarrow> (Panic, mb, s) | NoFuel \<Rightarrow> (NoFuel, mb, s))"

text \<open>Sockets for the examples: one that accepts a few bytes at a time and one that delivers two
  messages in pieces, with an interruption in between.\<close>

definition example_out :: "script ServerSock" where
  "example_out = ServerSock_with_control
     \<lparr>clock = 0, events = [], allowances = [Accept 3, Refuse Interrupted, Accept 1], sent = ''x''\<rparr>
     (SocketControl_new Tcp (ActiveTimeouts_for_connection
        \<lparr>t_read = None, t_write = Some 5, t_operation = None\<rparr> None))"

definition example_in :: "script ServerSock" where
  "example_in = ServerSock_with_control
     \<lparr>clock = 0, events = [(1, Recv [CHR 0x07]), (0, Recv [CHR 0x00, CHR ''a'']), (2, Recv [CHR ''b'', CHR ''c'', CHR 0x01])],
      allowances = [], sent = []\<rparr>
     (SocketControl_new Tcp (ActiveTimeouts_for_connection
        \<lparr>t_read = Some 7, t_write = None, t_operation = None\<rparr> None))"

section \<open>Lemmas\<close>

lemma end_reset_holds:
  assumes "mb_holds mb msgs m"
  shows "\<exists>mb'. MapiBuf_end_reset debug mb = Ok (concat (map frame msgs) @ frame m, mb') \<and> mb_holds mb' [] []"
proof -
  from MapiBuf_end_holds [OF assms] obtain mb1 where "MapiBuf_end mb = Ok mb1" "mb_holds mb1 (msgs @ [m]) []"
    by blast
  with MapiBuf_reset_holds [of mb1 "msgs @ [m]" debug] show ?thesis
    by (auto simp: MapiBuf_end_reset_def)
qed

lemma write_reset_plus_holds:
  assumes "mb_holds mb msgs m"
  shows "\<exists>mb'. mb_holds mb' [] [] \<and> MapiBuf_write_reset_plus debug wr F extra mb s
      = (case write_all wr F (concat (map frame msgs) @ frame (m @ concat extra)) s of (res, s') \<Rightarrow> (res, mb', s'))"
proof -
  from append_all_holds [OF assms, of extra] obtain mb1 where a: "append_all extra mb = Ok mb1"
    "mb_holds mb1 msgs (m @ concat extra)" by blast
  from end_reset_holds [OF a(2), of debug] obtain mb2
    where "MapiBuf_end_reset debug mb1 = Ok (concat (map frame msgs) @ frame (m @ concat extra), mb2)"
      "mb_holds mb2 [] []" by blast
  with a(1) show ?thesis
    by (auto simp: MapiBuf_write_reset_plus_def MapiBuf_write_reset_def)
qed

lemma example_in_ok: "sock_ok script_ok example_in" "calm_ok script_calm example_in"
  by (simp_all add: example_in_def ServerSock_with_control_def calm_ok_def sock_ok_def
      sock_calm_def script_ok_def script_calm_def SocketControl_new_def ActiveTimeouts_for_connection_def
      Timeouts_bounded_def Let_def)

lemma example_in_pend: "sock_pend script_pend example_in = frame ''abc'' @ [CHR 0x01]"
  by (simp add: example_in_def ServerSock_with_control_def sock_pend_def buffered_def
      script_pend_def frame.simps head_def char_of_def bit_0)

lemma example_in_patience: "sock_patience script_patience example_in = 0"
  by (simp add: example_in_def ServerSock_with_control_def sock_patience_def
      script_patience_def)

section \<open>Properties\<close>

text \<open>C14. Sending: from a buffer that holds complete messages \<open>msgs\<close> and the beginning \<open>m\<close> of another
  one, \<open>write_reset_plus\<close> on a socket either puts the frames of all these messages on the wire, in
  order, and leaves the buffer empty, or reports an I/O error after a prefix of them; it neither
  panics nor runs forever, for every way the transport accepts bytes.\<close>

theorem write_reset_plus_sends_frames:
  assumes "transport_sink T out wpat" and "mb_holds mb msgs m"
    and "length (concat (map frame msgs) @ frame (m @ concat extra)) + wpat (inner s) < F"
  shows "case MapiBuf_write_reset_plus debug (ServerSock_write T) F extra mb s of
      (Ok _, mb', s') \<Rightarrow> mb_holds mb' [] []
        \<and> out (inner s') = out (inner s) @ concat (map frame msgs) @ frame (m @ concat extra)
    | (Err e, mb', s') \<Rightarrow> mb_holds mb' [] [] \<and> (\<exists>k. out (inner s')
        = out (inner s) @ take k (concat (map frame msgs) @ frame (m @ concat extra)))
    | _ \<Rightarrow> False"
proof -
  from assms(1) have sink: "byte_sink (ServerSock_write T) (out \<circ> inner) (wpat \<circ> inner)"
    by (rule transport_sink.sock_sink)
  define data where "data = concat (map frame msgs) @ frame (m @ concat extra)"
  obtain res s' where w: "write_all (ServerSock_write T) F data s = (res, s')" by (metis surj_pair)
  have "length data + (wpat \<circ> inner) s < F" using assms(3) by (simp add: data_def)
  from byte_sink.write_all_spec [OF sink this, unfolded w]
    write_reset_plus_holds [OF assms(2), of debug "ServerSock_write T" F extra s, folded data_def, unfolded w]
  show ?thesis unfolding data_def [symmetric] by (cases res) (auto intro!: exI)
qed

theorem write_reset_plus_sends_frames_witness:
  "case MapiBuf_write_reset_plus True (ServerSock_write script_transport) 100 [''ab'', ''c''] MapiBuf_new
        example_out of
      (Ok _, mb', s') \<Rightarrow> mb_holds mb' [] []
        \<and> sent (inner s') = sent (inner example_out) @ concat (map frame []) @ frame ([] @ concat [''ab'', ''c''])
    | (Err e, mb', s') \<Rightarrow> mb_holds mb' [] [] \<and> (\<exists>k. sent (inner s')
        = sent (inner example_out) @ take k (concat (map frame []) @ frame ([] @ concat [''ab'', ''c''])))
    | _ \<Rightarrow> False"
  by (rule write_reset_plus_sends_frames [OF script_sink.transport_sink_axioms MapiBuf_new_holds])
     (simp add: example_out_def ServerSock_with_control_def script_wpatience_def
       frame.simps)



text \<open>C16. Without failures on the transport and without a deadline, a message of at most \<open>limit\<close> bytes is
  always received: \<open>to_limited\<close> returns, with the message, and the rest of the stream is untouched;
  a longer message is always reported as \<open>TooLong\<close>.\<close>

theorem to_limited_always_returns:
  assumes "reliable_transport T tok tpend tpat" and "calm_ok tok s" and "sock_pend tpend s = frame m @ rest"
    and "length (sock_pend tpend s) + sock_patience tpat s < F" and "\<forall>k. 0 < pol k"
  shows "if length m \<le> limit
     then \<exists>s'. to_limited (ServerSock_read T) F pol s buffer limit = (Ok s', buffer @ m) \<and> sock_pend tpend s' = rest
     else fst (to_limited (ServerSock_read T) F pol s buffer limit) = Err (IoFraming TooLong)"
proof -
  note src = reliable_transport.calm_source [OF assms(1)]
  note load = byte_source.load_def [OF reliable_source.axioms(1) [OF src]]
  have "byte_source.load (sock_pend tpend) (sock_patience tpat) s < F" using assms(4) by (simp add: load)
  note exact = reliable_source.to_limited_exact [where pol = pol and limit = limit and buffer = buffer,
      OF src assms(3) this assms(2) spec [OF assms(5)]]
  show ?thesis using exact by auto
qed

theorem to_limited_always_returns_witness:
  "\<exists>s'. to_limited (ServerSock_read script_transport) 50 (\<lambda>k. 2) example_in ''x'' 3 = (Ok s', ''xabc'')
     \<and> sock_pend script_pend s' = [CHR 0x01]"
  using to_limited_always_returns [OF script_reliable.reliable_transport_axioms example_in_ok(2) example_in_pend,
      of 50 "\<lambda>k. 2" 3 "''x''"]
  by (simp add: example_in_pend example_in_patience frame.simps)

end
