(* ===== verification/Raw_Decimal.thy ===== *)
theory Raw_Decimal
  imports Mapi_Prelude
begin

text \<open>
  Decimal numbers, \<open>src/convert/raw_decimal.rs\<close>. The Rust code is generic in the integer type
  that holds the digits; the model takes the type's bounds \<open>ty\<close>. \<open>decimal_text\<close> describes the
  texts the parsers accept, and \<open>parse_digits_spec\<close> says what they return on each.
\<close>

section \<open>Model of the code\<close>

datatype RawDecimal = RawDecimal int nat

datatype InvalidDecimal = OutOfRange | UnexpectedCharacter byte | Empty

definition multiply_accumulate :: "int_type \<Rightarrow> int \<Rightarrow> nat \<Rightarrow> int option" where
  "multiply_accumulate ty acc digit = (case checked ty (acc * 10) of None \<Rightarrow> None
     | Some m \<Rightarrow> checked ty (m + int digit))"

definition multiply_subtract :: "int_type \<Rightarrow> int \<Rightarrow> nat \<Rightarrow> int option" where
  "multiply_subtract ty acc digit = (case checked ty (acc * 10) of None \<Rightarrow> None
     | Some m \<Rightarrow> checked ty (m - int digit))"

text \<open>The loop of \<open>parse_digits\<close>: it stops at the first byte that does not belong to the number.\<close>

fun digits_loop ::
  "(int \<Rightarrow> nat \<Rightarrow> int option) \<Rightarrow> int \<Rightarrow> nat \<Rightarrow> bool \<Rightarrow> bytes
    \<Rightarrow> (int \<times> nat \<times> bool \<times> bytes, InvalidDecimal) outcome" where
  "digits_loop accumulate acc scale saw_period [] = Ok (acc, scale, saw_period, [])"
| "digits_loop accumulate acc scale saw_period (d # rest) =
     (if is_ascii_digit d then
        (case accumulate acc (digit_val d) of
           Some new \<Rightarrow> if 255 < scale + 1 then Err OutOfRange
             else digits_loop accumulate new (scale + 1) saw_period rest
         | None \<Rightarrow> Err OutOfRange)
      else if d = CHR ''.'' \<and> \<not> saw_period then digits_loop accumulate acc 0 True rest
      else Ok (acc, scale, saw_period, d # rest))"

definition parse_digits ::
  "(int \<Rightarrow> nat \<Rightarrow> int option) \<Rightarrow> bytes \<Rightarrow> (RawDecimal \<times> bytes, InvalidDecimal) outcome" where
  "parse_digits accumulate orig_digits =
     bindR (digits_loop accumulate 0 0 False orig_digits) (\<lambda>(acc, scale, saw_period, digits).
       let scale = (if \<not> saw_period then 0 else scale) in
       if length digits = length orig_digits then
         (case digits of first # _ \<Rightarrow> Err (UnexpectedCharacter first) | [] \<Rightarrow> Err Empty)
       else Ok (RawDecimal acc scale, digits))"

definition parse_unsigned :: "int_type \<Rightarrow> bytes \<Rightarrow> (RawDecimal \<times> bytes, InvalidDecimal) outcome" where
  "parse_unsigned ty digits = parse_digits (multiply_accumulate ty) digits"

definition parse_signed :: "int_type \<Rightarrow> bytes \<Rightarrow> (RawDecimal \<times> bytes, InvalidDecimal) outcome" where
  "parse_signed ty digits = (case strip_prefix digits ''-'' of
       Some digits \<Rightarrow> parse_digits (multiply_subtract ty) digits
     | None \<Rightarrow> parse_unsigned ty digits)"

text \<open>The macro \<open>raw_decimal!\<close> pairs the signed types with \<open>parse_signed\<close> and the unsigned ones
  with \<open>parse_unsigned\<close>.\<close>

definition RawDecimal_from_str :: "int_type \<Rightarrow> bytes \<Rightarrow> (RawDecimal, InvalidDecimal) outcome" where
  "RawDecimal_from_str ty s =
     bindR ((if fst ty < 0 then parse_signed ty else parse_unsigned ty) s) (\<lambda>(dec, rest).
       case rest of first # _ \<Rightarrow> Err (UnexpectedCharacter first) | [] \<Rightarrow> Ok dec)"

text \<open>\<open>checked_pow(10, e)\<close>.\<close>

definition checked_pow10 :: "int_type \<Rightarrow> nat \<Rightarrow> int option" where
  "checked_pow10 ty e = checked ty (10 ^ e)"

fun at_scale :: "int_type \<Rightarrow> RawDecimal \<Rightarrow> nat \<Rightarrow> int option" where
  "at_scale ty (RawDecimal n sc) s = (if s < sc then None
     else case checked_pow10 ty (s - sc) of None \<Rightarrow> None | Some p \<Rightarrow> checked ty (n * p))"

fun scale_of :: "RawDecimal \<Rightarrow> nat" where
  "scale_of (RawDecimal n s) = s"

definition RawDecimal_eq :: "int_type \<Rightarrow> RawDecimal \<Rightarrow> RawDecimal \<Rightarrow> bool" where
  "RawDecimal_eq ty a b = (let highest = max (scale_of a) (scale_of b) in
     case at_scale ty a highest of None \<Rightarrow> False
     | Some left \<Rightarrow> (case at_scale ty b highest of None \<Rightarrow> False | Some right \<Rightarrow> left = right))"

section \<open>What the parsers accept\<close>

definition all_digits :: "bytes \<Rightarrow> bool" where
  "all_digits s \<longleftrightarrow> (\<forall>c\<in>set s. is_ascii_digit c)"

text \<open>Digits \<open>a\<close>, possibly a period and digits \<open>b\<close>, then something that does not continue the number.\<close>

definition decimal_text :: "bytes \<Rightarrow> bool \<Rightarrow> bytes \<Rightarrow> bytes \<Rightarrow> bool" where
  "decimal_text a period b rest \<longleftrightarrow> all_digits a \<and> all_digits b \<and> (\<not> period \<longrightarrow> b = [])
     \<and> (case rest of [] \<Rightarrow> True | c # _ \<Rightarrow> \<not> is_ascii_digit c \<and> (c = CHR ''.'' \<longrightarrow> period))"

definition sgn_of :: "bool \<Rightarrow> nat \<Rightarrow> int" where
  "sgn_of neg n = (if neg then - int n else int n)"

definition signed_val :: "bool \<Rightarrow> bytes \<Rightarrow> int" where
  "signed_val neg ds = sgn_of neg (digits_val 0 ds)"

abbreviation accum :: "bool \<Rightarrow> int_type \<Rightarrow> int \<Rightarrow> nat \<Rightarrow> int option" where
  "accum neg \<equiv> if neg then multiply_subtract else multiply_accumulate"

fun fits :: "int_type \<Rightarrow> int \<Rightarrow> bool" where
  "fits (lo, hi) v = (lo \<le> v \<and> v \<le> hi)"

lemma checked_eq: "checked ty v = (if fits ty v then Some v else None)"
  by (cases ty) simp

lemma sgn_of_0: "sgn_of neg 0 = 0"
  by (simp add: sgn_of_def)

lemma accum_step:
  assumes "decimal_type ty" and "d < 10"
  shows "accum neg ty (sgn_of neg n) d
     = (if fits ty (sgn_of neg (n * 10 + d)) then Some (sgn_of neg (n * 10 + d)) else None)"
  using assms by (cases ty) (auto simp: sgn_of_def multiply_accumulate_def multiply_subtract_def)

lemma fits_mono: "decimal_type ty \<Longrightarrow> m \<le> n \<Longrightarrow> fits ty (sgn_of neg n) \<Longrightarrow> fits ty (sgn_of neg m)"
  by (cases ty) (auto simp: sgn_of_def)

text \<open>The digits of one part are accumulated exactly, or the loop reports the overflow.\<close>

lemma digits_loop_digits:
  assumes "decimal_type ty" and "all_digits ds"
  shows "digits_loop (accum neg ty) (sgn_of neg n) sc saw (ds @ rest)
     = (if fits ty (sgn_of neg (digits_val n ds)) \<and> sc + length ds \<le> 255 \<or> ds = []
        then digits_loop (accum neg ty) (sgn_of neg (digits_val n ds)) (sc + length ds) saw rest
        else Err OutOfRange)"
  using assms(2)
proof (induction ds arbitrary: n sc)
  case (Cons d ds)
  have dd: "is_ascii_digit d" and ds: "all_digits ds" using Cons.prems by (auto simp: all_digits_def)
  let ?n = "n * 10 + digit_val d"
  have step: "accum neg ty (sgn_of neg n) (digit_val d)
      = (if fits ty (sgn_of neg ?n) then Some (sgn_of neg ?n) else None)"
    by (rule accum_step [OF assms(1) digit_val_bound [OF dd]])
  have up: "fits ty (sgn_of neg (digits_val ?n ds)) \<Longrightarrow> fits ty (sgn_of neg ?n)"
    using fits_mono [OF assms(1) digits_val_mono] .
  show ?case
  proof (cases "fits ty (sgn_of neg ?n) \<and> sc + 1 \<le> 255")
    case True
    then have "digits_loop (accum neg ty) (sgn_of neg n) sc saw ((d # ds) @ rest)
        = digits_loop (accum neg ty) (sgn_of neg ?n) (sc + 1) saw (ds @ rest)"
      using step dd by simp
    also have "\<dots> = (if fits ty (sgn_of neg (digits_val ?n ds)) \<and> sc + 1 + length ds \<le> 255 \<or> ds = []
        then digits_loop (accum neg ty) (sgn_of neg (digits_val ?n ds)) (sc + 1 + length ds) saw rest
        else Err OutOfRange)"
      using Cons.IH [OF ds, of ?n "sc + 1"] .
    finally show ?thesis using True by auto
  next
    case False
    then have "digits_loop (accum neg ty) (sgn_of neg n) sc saw ((d # ds) @ rest) = Err OutOfRange"
      using step dd by auto
    with False up show ?thesis by auto
  qed
qed simp

lemma digits_loop_stop:
  "(case rest of [] \<Rightarrow> True | c # _ \<Rightarrow> \<not> is_ascii_digit c \<and> (c = CHR ''.'' \<longrightarrow> saw))
    \<Longrightarrow> digits_loop f acc sc saw rest = Ok (acc, sc, saw, rest)"
  by (cases rest) auto

lemma digits_loop_period:
  "digits_loop f acc sc False (CHR ''.'' # rest) = digits_loop f acc 0 True rest"
  by (simp add: is_ascii_digit_def)

text \<open>A whole number: its value and its scale, or the overflow of one of them.\<close>

lemma parse_digits_spec:
  assumes ty: "decimal_type ty" and dt: "decimal_text a period b rest" and ne: "a \<noteq> [] \<or> period"
  shows "parse_digits (accum neg ty) (a @ (if period then CHR ''.'' # b else []) @ rest)
     = (if fits ty (signed_val neg (a @ b)) \<and> length a \<le> 255 \<and> length b \<le> 255
        then Ok (RawDecimal (signed_val neg (a @ b)) (length b), rest) else Err OutOfRange)"
proof -
  let ?va = "digits_val 0 a" and ?v = "digits_val 0 (a @ b)"
  have digs: "all_digits a" "all_digits b" and b: "\<not> period \<Longrightarrow> b = []"
    and stop: "case rest of [] \<Rightarrow> True | c # _ \<Rightarrow> \<not> is_ascii_digit c \<and> (c = CHR ''.'' \<longrightarrow> period)"
    using dt by (auto simp: decimal_text_def)
  have v: "?v = digits_val ?va b" by (rule digits_val_append)
  have up: "fits ty (sgn_of neg ?v) \<Longrightarrow> fits ty (sgn_of neg ?va)"
    unfolding v using fits_mono [OF ty digits_val_mono] .
  define f where "f = accum neg ty"
  have la: "digits_loop f 0 0 False (a @ r) = (if fits ty (sgn_of neg ?va) \<and> length a \<le> 255 \<or> a = []
      then digits_loop f (sgn_of neg ?va) (length a) False r else Err OutOfRange)" for r
    using digits_loop_digits [OF ty digs(1), of neg 0 0 False r] unfolding f_def [symmetric] sgn_of_0 by simp
  have lb: "digits_loop f (sgn_of neg ?va) 0 True (b @ rest) = (if fits ty (sgn_of neg ?v) \<and> length b \<le> 255 \<or> b = []
      then digits_loop f (sgn_of neg ?v) (length b) True rest else Err OutOfRange)"
    using digits_loop_digits [OF ty digs(2), of neg ?va 0 True rest] unfolding f_def [symmetric] v by simp
  have fits0: "fits ty (sgn_of neg 0)" using ty by (cases ty) (auto simp: sgn_of_def)
  have sv: "signed_val neg (a @ b) = sgn_of neg ?v" by (simp add: signed_val_def)
  have "parse_digits f (a @ (if period then CHR ''.'' # b else []) @ rest)
     = (if fits ty (signed_val neg (a @ b)) \<and> length a \<le> 255 \<and> length b \<le> 255
        then Ok (RawDecimal (signed_val neg (a @ b)) (length b), rest) else Err OutOfRange)"
  proof (cases "fits ty (sgn_of neg ?va) \<and> length a \<le> 255 \<or> a = []")
    case False
    then have "parse_digits (f) (a @ (if period then CHR ''.'' # b else []) @ rest) = Err OutOfRange"
      using la by (simp only: parse_digits_def if_False bindR.simps)
    with False up show ?thesis by (auto simp: sv)
  next
    case True
    then have la': "digits_loop (f) 0 0 False (a @ r) = digits_loop (f) (sgn_of neg ?va) (length a) False r"
      for r using la by simp
    show ?thesis
    proof (cases period)
      case False
      with ne b have "a \<noteq> []" "b = []" by auto
      moreover have "digits_loop f 0 0 False (a @ rest) = Ok (sgn_of neg ?va, length a, False, rest)"
        unfolding la' using stop False by (intro digits_loop_stop) (cases rest; simp)
      ultimately show ?thesis using True False by (auto simp: parse_digits_def signed_val_def)
    next
      case True
      have mid: "digits_loop (f) 0 0 False (a @ CHR ''.'' # b @ rest)
          = digits_loop (f) (sgn_of neg ?va) 0 True (b @ rest)"
        by (simp only: la' digits_loop_period)
      have len: "length a \<le> 255" and fa: "fits ty (sgn_of neg ?va)"
        using \<open>fits ty (sgn_of neg ?va) \<and> length a \<le> 255 \<or> a = []\<close> fits0 by auto
      have tail: "digits_loop (f) (sgn_of neg ?v) (length b) True rest = Ok (sgn_of neg ?v, length b, True, rest)"
        using stop True by (intro digits_loop_stop) (cases rest; simp)
      show ?thesis
        using True mid lb tail len fa
        by (auto simp: parse_digits_def sv v)
    qed
  qed
  then show ?thesis by (simp only: f_def)
qed

lemma parse_signed_cases:
  assumes "decimal_text a period b rest" and "a \<noteq> [] \<or> period"
  shows "parse_signed ty ((if neg then ''-'' else []) @ a @ (if period then CHR ''.'' # b else []) @ rest)
     = parse_digits (accum neg ty) (a @ (if period then CHR ''.'' # b else []) @ rest)"
proof (cases neg)
  case False
  have "\<not> prefix ''-'' (a @ (if period then CHR ''.'' # b else []) @ rest)"
    using assms by (cases a) (auto simp: decimal_text_def all_digits_def is_ascii_digit_def)
  with False show ?thesis by (simp add: parse_signed_def parse_unsigned_def strip_prefix_def)
qed (simp add: parse_signed_def strip_prefix_def)

section \<open>Scaling and comparing\<close>

lemma at_scale_iff:
  "at_scale ty (RawDecimal n sc) s = Some m \<longleftrightarrow>
     sc \<le> s \<and> fits ty (10 ^ (s - sc)) \<and> fits ty m \<and> m = n * 10 ^ (s - sc)"
  by (auto simp: checked_pow10_def checked_eq)

lemma RawDecimal_eq_sound:
  assumes "RawDecimal_eq ty (RawDecimal m a) (RawDecimal n b)"
  shows "m * 10 ^ b = n * 10 ^ a"
proof -
  obtain x where x: "at_scale ty (RawDecimal m a) (max a b) = Some x" "at_scale ty (RawDecimal n b) (max a b) = Some x"
    using assms by (auto simp: RawDecimal_eq_def Let_def split: option.splits)
  then have e: "m * 10 ^ (max a b - a) = n * 10 ^ (max a b - b)"
    unfolding at_scale_iff by metis
  show ?thesis
  proof (cases "a \<le> b")
    case True
    then have "m * 10 ^ (b - a) = n" using e by (simp add: max_def)
    then have "n * 10 ^ a = m * 10 ^ (b - a + a)" by (simp add: power_add)
    with True show ?thesis by simp
  next
    case False
    then have "n * 10 ^ (a - b) = m" using e by (simp add: max_def)
    then have "m * 10 ^ b = n * 10 ^ (a - b + b)" by (simp add: power_add)
    with False show ?thesis by simp
  qed
qed

section \<open>Printing\<close>

text \<open>The server's text of a decimal: a sign, at least one digit, a period before the last \<open>s\<close> digits.\<close>

definition padded :: "nat \<Rightarrow> nat \<Rightarrow> bytes" where
  "padded k s = replicate (s + 1 - length (show_nat k)) (CHR ''0'') @ show_nat k"

definition RawDecimal_show :: "int \<Rightarrow> nat \<Rightarrow> bytes" where
  "RawDecimal_show n s = (let ds = padded (nat \<bar>n\<bar>) s; i = length ds - s in
     (if n < 0 then ''-'' else []) @ take i ds @ (if s = 0 then [] else CHR ''.'' # drop i ds))"

lemma padded_digits: "all_digits (padded k s)"
  by (auto simp: padded_def all_digits_def is_ascii_digit_def dest: show_nat_digits)

lemma digits_val_zeros: "digits_val 0 (replicate k (CHR ''0'') @ ds) = digits_val 0 ds"
  by (induction k) simp_all

lemma padded_val: "digits_val 0 (padded k s) = k"
  by (simp add: padded_def digits_val_zeros)

lemma padded_len: "s < length (padded k s)" "length (padded k s) \<le> max (s + 1) (length (show_nat k))"
  by (auto simp: padded_def)

lemma show_nat_len: "k < 10 ^ n \<Longrightarrow> 0 < n \<Longrightarrow> length (show_nat k) \<le> n"
proof (induction k arbitrary: n rule: show_nat.induct)
  case (1 k)
  show ?case
  proof (cases "k < 10")
    case False
    then obtain m where n: "n = Suc m" "0 < m" using "1.prems" by (cases n; cases "n - 1") auto
    then have "k div 10 < 10 ^ m" using "1.prems"(1) by (simp add: less_mult_imp_div_less mult.commute)
    with "1.IH" [OF False, of m] n False show ?thesis by (simp add: show_nat.simps [of k])
  qed (use "1.prems" in \<open>simp add: show_nat.simps [of k]\<close>)
qed

lemma padded_exact: "k < 10 ^ Suc s \<Longrightarrow> length (padded k s) = Suc s"
  using show_nat_len [of k "Suc s"] by (simp add: padded_def)

lemma decimal_decompose:
  "\<exists>a period b rest. s = a @ (if period then CHR ''.'' # b else []) @ rest \<and> decimal_text a period b rest"
proof -
  define a where "a = takeWhile is_ascii_digit s"
  define r where "r = dropWhile is_ascii_digit s"
  have s: "s = a @ r" and da: "all_digits a"
    by (auto simp: a_def r_def all_digits_def dest: set_takeWhileD)
  have hd: "r \<noteq> [] \<Longrightarrow> \<not> is_ascii_digit (hd r)" unfolding r_def by (rule hd_dropWhile)
  show ?thesis
  proof (cases "\<exists>t. r = CHR ''.'' # t")
    case True
    then obtain t where r: "r = CHR ''.'' # t" ..
    let ?b = "takeWhile is_ascii_digit t" and ?rest = "dropWhile is_ascii_digit t"
    have "?rest = c # u \<Longrightarrow> \<not> is_ascii_digit c" for c u
      using hd_dropWhile [of is_ascii_digit t] by (metis list.distinct(1) list.sel(1))
    then have "decimal_text a True ?b ?rest"
      using da by (auto simp: decimal_text_def all_digits_def dest: set_takeWhileD split: list.splits)
    moreover have "s = a @ (if True then CHR ''.'' # ?b else []) @ ?rest" by (simp add: s r)
    ultimately show ?thesis by blast
  next
    case False
    then have "decimal_text a False [] r"
      using da hd by (auto simp: decimal_text_def all_digits_def split: list.splits)
    with s show ?thesis by (intro exI [of _ a] exI [of _ False] exI [of _ "[]"] exI [of _ r]) simp
  qed
qed

lemma parse_digits_none:
  "decimal_text [] False [] rest \<Longrightarrow>
   parse_digits f rest = (case rest of [] \<Rightarrow> Err Empty | c # _ \<Rightarrow> Err (UnexpectedCharacter c))"
  by (cases rest) (auto simp: decimal_text_def parse_digits_def)

section \<open>Properties\<close>

text \<open>On a number followed by anything that does not continue it, \<open>parse_signed\<close> returns the exact value
  of its digits with the number of digits after the period as scale, and what follows the number;
  it reports \<open>OutOfRange\<close> exactly when the value does not fit the type or a part has more than 255
  digits. The smallest value of a signed type is accepted.\<close>

theorem parse_signed_value:
  assumes "decimal_type ty" and "decimal_text a period b rest" and "a \<noteq> [] \<or> period"
  shows "parse_signed ty ((if neg then ''-'' else []) @ a @ (if period then CHR ''.'' # b else []) @ rest)
     = (if fits ty (signed_val neg (a @ b)) \<and> length a \<le> 255 \<and> length b \<le> 255
        then Ok (RawDecimal (signed_val neg (a @ b)) (length b), rest) else Err OutOfRange)"
  unfolding parse_signed_cases [OF assms(2,3)] by (rule parse_digits_spec [OF assms])

theorem parse_signed_value_witness:
  "parse_signed i8 ''-1.28xyz'' = Ok (RawDecimal (- 128) 2, ''xyz'')"
  using parse_signed_value [of i8 "''1''" True "''28''" "''xyz''" True]
  by (simp add: decimal_text_def all_digits_def is_ascii_digit_def signed_val_def sgn_of_def)

text \<open>Printing a decimal and parsing it gives the decimal back, for every value of the type and every
  scale a \<open>u8\<close> holds.\<close>

theorem RawDecimal_roundtrip:
  assumes "decimal_type ty" and "fits ty n" and "s < 255" and "length (show_nat (nat \<bar>n\<bar>)) \<le> 255"
    and "n < 0 \<longrightarrow> fst ty < 0"
  shows "RawDecimal_from_str ty (RawDecimal_show n s) = Ok (RawDecimal n s)"
proof -
  let ?ds = "padded (nat \<bar>n\<bar>) s" let ?i = "length ?ds - s"
  let ?a = "take ?i ?ds" and ?b = "drop ?i ?ds"
  have "max (s + 1) (length (show_nat (nat \<bar>n\<bar>))) \<le> 255" using assms(3,4) by simp
  then have "length ?ds - s \<le> 255" using padded_len(2) [of "nat \<bar>n\<bar>" s] by linarith
  then have len: "length ?b = s" "length ?a \<le> 255" "?a \<noteq> []"
    using padded_len(1) [of s "nat \<bar>n\<bar>"] by auto
  have dt: "decimal_text ?a (s \<noteq> 0) ?b []"
    using padded_digits [of "nat \<bar>n\<bar>" s] len
    by (auto simp: decimal_text_def all_digits_def dest: in_set_takeD in_set_dropD)
  have val: "signed_val (n < 0) (?a @ ?b) = n"
    by (simp add: signed_val_def sgn_of_def padded_val)
  have txteq: "RawDecimal_show n s = (if n < 0 then ''-'' else []) @ ?a @ (if s \<noteq> 0 then CHR ''.'' # ?b else []) @ []"
    by (simp add: RawDecimal_show_def Let_def)
  have ne: "?a \<noteq> [] \<or> s \<noteq> 0" using len by simp
  have ok: "parse_digits (accum (n < 0) ty) (?a @ (if s \<noteq> 0 then CHR ''.'' # ?b else []) @ []) = Ok (RawDecimal n s, [])"
    using parse_digits_spec [OF assms(1) dt ne, of "n < 0"] assms(2,3) len by (simp only: val) simp
  show ?thesis
  proof (cases "fst ty < 0")
    case True
    have "parse_signed ty (RawDecimal_show n s) = Ok (RawDecimal n s, [])"
      unfolding txteq parse_signed_cases [OF dt ne] by (rule ok)
    with True show ?thesis by (simp add: RawDecimal_from_str_def)
  next
    case False
    then have "\<not> n < 0" using assms(5) by simp
    with False ok show ?thesis by (simp add: RawDecimal_from_str_def parse_unsigned_def txteq)
  qed
qed

theorem RawDecimal_roundtrip_witness:
  "RawDecimal_from_str i32 (RawDecimal_show (- 7) 2) = Ok (RawDecimal (- 7) 2)"
  using RawDecimal_roundtrip [of i32 "- 7" 2] by (simp add: show_nat.simps)

text \<open>\<open>at_scale\<close> is exact: it returns the scaled value precisely when the value has no digits beyond
  the scale and both the power of ten and the product fit the type; and two decimals compare equal
  only if they denote the same number.\<close>

theorem at_scale_exact:
  "(at_scale ty (RawDecimal n sc) s = Some m \<longleftrightarrow>
      sc \<le> s \<and> fits ty (10 ^ (s - sc)) \<and> fits ty m \<and> m = n * 10 ^ (s - sc))
   \<and> (RawDecimal_eq ty (RawDecimal n sc) (RawDecimal m s) \<longrightarrow> n * 10 ^ s = m * 10 ^ sc)"
  by (intro conjI impI at_scale_iff) (rule RawDecimal_eq_sound)

theorem at_scale_exact_witness:
  "RawDecimal_eq i32 (RawDecimal 10 0) (RawDecimal 100 1) \<and> (10::int) * 10 ^ 1 = 100 * 10 ^ 0"
  using at_scale_exact [of i32 10 0 1 100] by (simp add: RawDecimal_eq_def checked_pow10_def)


end
