(* ===== verification/Cursor_Error.thy ===== *)
theory Cursor_Error
  imports Framing_Reading Raw_Decimal
begin

text \<open>
  The errors of the cursor layer: \<open>BadReply\<close> of \<open>src/cursor/replies.rs\<close>, \<open>ServerError\<close> and
  \<open>CursorError\<close> of \<open>src/cursor/mod.rs\<close>, and the conversion errors of \<open>src/convert/mod.rs\<close>.
  The text of a conversion error is kept as the constructor of its format string with the values
  that are formatted.
\<close>

section \<open>Malformed replies\<close>

datatype BadReply =
    Unicode bytes
  | UnknownResponse bytes
  | SepNotFound byte
  | InvalidHeader bytes
  | UnexpectedHeader bytes
  | UnexpectedEnd
  | TooManyColumns nat
  | TooFewColumns nat
  | TooManyIncludedRows nat nat
  | TooManyRows nat
  | InvalidBackslashEscape
  | InvalidQuotedIdentifier
  | ColumnIndexOutOfBounds nat nat
  | ResultIdMismatch nat nat
  | ColumnCountMismatch nat nat
  | RowCountMismatch nat nat
  | RowOffsetMismatch nat nat
  | EmptyExportWindow nat nat

section \<open>Errors reported by the server\<close>

record ServerError =
  sqlstate :: "bytes option"
  message :: bytes
  display :: bytes

definition ServerError_from_wire :: "bytes \<Rightarrow> ServerError" where
  "ServerError_from_wire disp =
     (let has_sqlstate = 6 \<le> length disp \<and> disp ! 5 = CHR ''!''
            \<and> list_all is_ascii_alphanumeric (take 5 disp);
          (state, msg) = (if has_sqlstate then (Some (take 5 disp), drop 6 disp) else (None, disp))
      in \<lparr>sqlstate = state, message = msg, display = disp\<rparr>)"

definition ServerError_with_context :: "bytes \<Rightarrow> ServerError \<Rightarrow> ServerError" where
  "ServerError_with_context ctxt error =
     \<lparr>sqlstate = sqlstate error, message = ctxt @ '': '' @ message error,
      display = ctxt @ '': '' @ display error\<rparr>"

section \<open>Errors of a cursor\<close>

datatype conv_msg =
    Msg bytes
  | MsgInvalidInteger bytes
  | MsgInvalidTimezone bytes
  | MsgExpectedDelimiter bytes
  | MsgUnexpectedData bytes
  | MsgInvalidTime InvalidDecimal
  | MsgDecimal InvalidDecimal
  | MsgParseInt parse_int_error
  | MsgParseBool
  | MsgLibrary bytes

datatype CursorError =
    Server ServerError
  | Closed
  | IO IoError
  | Timeout
  | Cancelled
  | Framing FramingError
  | Bad BadReply
  | NoResultSet
  | Conversion bytes conv_msg
  | Metadata bytes
  | InvalidRange nat nat nat
  | FileTransfer bytes
  | UploadComplete
  | UploadRefused CursorError bytes
  | PreparedResult
  | ResultNotResident nat nat
  | Poisoned

fun conversion_error :: "bytes \<Rightarrow> conv_msg \<Rightarrow> CursorError" where
  "conversion_error expected_type e = Conversion expected_type e"

section \<open>SQLSTATE\<close>

lemma from_wire_display: "display (ServerError_from_wire d) = d"
  by (simp add: ServerError_from_wire_def Let_def)

text \<open>The displayed text is the state, an exclamation mark and the message, or the message alone.\<close>

lemma from_wire_split:
  "case sqlstate (ServerError_from_wire d) of
     Some st \<Rightarrow> length st = 5 \<and> list_all is_ascii_alphanumeric st
       \<and> d = st @ ''!'' @ message (ServerError_from_wire d)
   | None \<Rightarrow> message (ServerError_from_wire d) = d"
proof (cases "6 \<le> length d \<and> d ! 5 = CHR ''!'' \<and> list_all is_ascii_alphanumeric (take 5 d)")
  case True
  then have "5 < length d" by simp
  then have "d = take 5 d @ d ! 5 # drop (Suc 5) d" by (rule id_take_nth_drop)
  with True show ?thesis by (simp add: ServerError_from_wire_def Let_def)
qed (auto simp: ServerError_from_wire_def Let_def)

lemma from_wire_state:
  assumes "length st = 5" and "list_all is_ascii_alphanumeric st"
  shows "ServerError_from_wire (st @ ''!'' @ m) = \<lparr>sqlstate = Some st, message = m, display = st @ ''!'' @ m\<rparr>"
  using assms by (simp add: ServerError_from_wire_def Let_def nth_append)

end
