(* ===== verification/Reply_Buf.thy ===== *)
theory Reply_Buf
  imports Cursor_Error
begin

text \<open>
  The buffer a reply is parsed from, \<open>ReplyBuf\<close> of \<open>src/cursor/replies.rs\<close>, with the in-place
  decoding of backslash escapes.

  \<open>peek\<close> slices from \<open>pos\<close> on, which would panic beyond the end of the data; \<open>wf_buf\<close> says that
  \<open>pos\<close> is not beyond it, and every operation keeps it. \<open>convert_backslashes\<close> works with raw
  pointers: the model uses their offsets, and an access outside the data is the outcome \<open>Panic\<close>,
  so that a lemma that excludes \<open>Panic\<close> is the memory safety of the unsafe code.
  \<open>unescape\<close> is the reference decoder.
\<close>

unbundle bit_operations_syntax

section \<open>Model of the code\<close>

record ReplyBuf =
  buf_data :: bytes
  buf_pos :: nat

definition ReplyBuf_new :: "bytes \<Rightarrow> ReplyBuf" where
  "ReplyBuf_new vec = \<lparr>buf_data = vec, buf_pos = 0\<rparr>"

definition peek :: "ReplyBuf \<Rightarrow> bytes" where
  "peek b = drop (buf_pos b) (buf_data b)"

definition buf_is_empty :: "ReplyBuf \<Rightarrow> bool" where
  "buf_is_empty b \<longleftrightarrow> peek b = []"

definition consume :: "nat \<Rightarrow> ReplyBuf \<Rightarrow> (bytes, BadReply) outcome \<times> ReplyBuf" where
  "consume nbytes b = (let newpos = buf_pos b + nbytes in
     if usize_max < newpos then (Err UnexpectedEnd, b)
     else if length (buf_data b) < newpos then (Err UnexpectedEnd, b)
     else (Ok (drop (buf_pos b) (take newpos (buf_data b))), b\<lparr>buf_pos := newpos\<rparr>))"

definition find :: "libs \<Rightarrow> byte \<Rightarrow> ReplyBuf \<Rightarrow> nat option" where
  "find L byte b = memchr L byte (peek b)"

definition find2 :: "libs \<Rightarrow> byte \<Rightarrow> byte \<Rightarrow> ReplyBuf \<Rightarrow> (nat \<times> byte) option" where
  "find2 L byte1 byte2 b = (let haystack = peek b in
     map_option (\<lambda>i. (i, haystack ! i)) (memchr2 L byte1 byte2 haystack))"

definition find_line :: "libs \<Rightarrow> byte \<Rightarrow> ReplyBuf \<Rightarrow> nat option" where
  "find_line L first b = (case peek b of
       [] \<Rightarrow> None
     | c # cs \<Rightarrow> if c = first then Some 0
         else map_option (\<lambda>idx. idx + 1) (memmem_find L (peek b) [CHR 0x0a, first]))"

definition split :: "libs \<Rightarrow> byte \<Rightarrow> ReplyBuf \<Rightarrow> (bytes, BadReply) outcome \<times> ReplyBuf" where
  "split L sep b = (case find L sep b of
       None \<Rightarrow> (Err (if buf_is_empty b then UnexpectedEnd else SepNotFound sep), b)
     | Some i \<Rightarrow> bindS (consume (i + 1) b) (\<lambda>ret b. (Ok (take i ret), b)))"

definition range_of :: "ReplyBuf \<Rightarrow> nat \<Rightarrow> nat \<Rightarrow> (bytes, BadReply) outcome" where
  "range_of b start len = (if usize_max < start + len then Err UnexpectedEnd
     else if length (buf_data b) < start + len then Err UnexpectedEnd
     else Ok (take len (drop start (buf_data b))))"

definition from_utf8 :: "bytes \<Rightarrow> bytes \<Rightarrow> (bytes, BadReply) outcome" where
  "from_utf8 ctxt bs = (if utf8_valid bs then Ok bs else Err (Unicode ctxt))"

definition split_str :: "libs \<Rightarrow> byte \<Rightarrow> bytes \<Rightarrow> ReplyBuf \<Rightarrow> (bytes, BadReply) outcome \<times> ReplyBuf" where
  "split_str L sep ctxt b = bindS (split L sep b) (\<lambda>head b. (from_utf8 ctxt head, b))"

text \<open>The escapes of one letter.\<close>

definition simple_escape :: "byte \<Rightarrow> byte option" where
  "simple_escape chr = (if chr = CHR ''t'' then Some (CHR 0x09)
     else if chr = CHR ''n'' then Some (CHR 0x0a)
     else if chr = CHR ''f'' then Some (CHR 0x0c)
     else if chr = CHR ''r'' then Some (CHR 0x0d)
     else if chr = CHR 0x5c then Some (CHR 0x5c)
     else if chr = CHR 0x22 then Some (CHR 0x22)
     else None)"

definition wrapping_sub8 :: "nat \<Rightarrow> nat \<Rightarrow> nat" where
  "wrapping_sub8 a b = (a + 256 - b) mod 256"

definition octal_lead :: "byte \<Rightarrow> bool" where
  "octal_lead c \<longleftrightarrow> byte_val (CHR ''0'') \<le> byte_val c \<and> byte_val c \<le> byte_val (CHR ''3'')"

text \<open>One turn of the loop of \<open>convert_backslashes\<close>, up to the write: the byte to write, or nothing at
  the closing quote, and the read offset behind what was read.\<close>

definition read_unit :: "bytes \<Rightarrow> nat \<Rightarrow> (byte option \<times> nat, BadReply) outcome" where
  "read_unit d rd =
     (if rd = length d then Err UnexpectedEnd
      else if length d < rd then Panic
      else let b = d ! rd; rd1 = rd + 1 in
        if b = CHR 0x5c then
          (let avail = length d - rd1 in
           if avail < 1 then Err InvalidBackslashEscape
           else let chr = d ! rd1; rd2 = rd1 + 1 in
             case simple_escape chr of
               Some c \<Rightarrow> Ok (Some c, rd2)
             | None \<Rightarrow>
                 if octal_lead chr then
                   (let e1 = wrapping_sub8 (byte_val chr) 48 in
                    if avail < 3 then Err UnexpectedEnd
                    else let e2 = wrapping_sub8 (byte_val (d ! rd2)) 48; rd3 = rd2 + 1;
                             e3 = wrapping_sub8 (byte_val (d ! rd3)) 48; rd4 = rd3 + 1
                         in if ((e2 OR e3) AND 248) \<noteq> 0 then Err InvalidBackslashEscape
                            else Ok (Some (byte_of ((push_bit 6 e1 mod 256) OR (push_bit 3 e2 mod 256) OR e3)), rd4))
                 else Err InvalidBackslashEscape)
        else if b = CHR 0x22 then Ok (None, rd1)
        else Ok (Some b, rd1))"

lemma read_unit_progress: "read_unit d rd = Ok (x, rd') \<Longrightarrow> rd < rd' \<and> rd' \<le> length d"
  by (auto simp: read_unit_def Let_def split: if_splits option.splits)

text \<open>The loop: \<open>rd\<close> and \<open>wr\<close> are the offsets of the two pointers. The result is their final value,
  with the data as they are then.\<close>

function convert_loop :: "bytes \<Rightarrow> nat \<Rightarrow> nat \<Rightarrow> (nat \<times> nat, BadReply) outcome \<times> bytes" where
  "convert_loop d rd wr = (case read_unit d rd of
       Ok (Some unescaped, rd') \<Rightarrow> if length d \<le> wr then (Panic, d)
          else convert_loop (d[wr := unescaped]) rd' (wr + 1)
     | Ok (None, rd') \<Rightarrow> (Ok (rd', wr), d)
     | Err e \<Rightarrow> (Err e, d)
     | Panic \<Rightarrow> (Panic, d)
     | NoFuel \<Rightarrow> (NoFuel, d))"
  by pat_completeness auto
termination
  by (relation "measure (\<lambda>(d, rd, wr). length d - rd)") (auto dest!: read_unit_progress)

declare convert_loop.simps [simp del]

definition convert_backslashes :: "nat \<Rightarrow> ReplyBuf \<Rightarrow> (bytes, BadReply) outcome \<times> ReplyBuf" where
  "convert_backslashes skip b = (let start = buf_pos b + skip in
     if length (buf_data b) < start then (Panic, b)
     else case convert_loop (buf_data b) start start of
         (Ok (rd_offset, wr_offset), d) \<Rightarrow>
            (if wr_offset < buf_pos b \<or> length d < wr_offset
             then (Panic, b\<lparr>buf_data := d, buf_pos := rd_offset\<rparr>)
             else (Ok (drop (buf_pos b) (take wr_offset d)), b\<lparr>buf_data := d, buf_pos := rd_offset\<rparr>))
       | (Err e, d) \<Rightarrow> (Err e, b\<lparr>buf_data := d\<rparr>)
       | (Panic, d) \<Rightarrow> (Panic, b\<lparr>buf_data := d\<rparr>)
       | (NoFuel, d) \<Rightarrow> (NoFuel, b\<lparr>buf_data := d\<rparr>))"

section \<open>The reference decoder and encoder\<close>

definition octal_digit :: "byte \<Rightarrow> bool" where
  "octal_digit c \<longleftrightarrow> byte_val (CHR ''0'') \<le> byte_val c \<and> byte_val c \<le> byte_val (CHR ''7'')"

definition octal_byte :: "byte \<Rightarrow> byte \<Rightarrow> byte \<Rightarrow> byte" where
  "octal_byte a b c = byte_of (64 * digit_val a + 8 * digit_val b + digit_val c)"

text \<open>What the quoted text stands for, and what follows the closing quote.\<close>

function unescape :: "bytes \<Rightarrow> (bytes \<times> bytes, BadReply) outcome" where
  "unescape [] = Err UnexpectedEnd"
| "unescape (c # cs) =
     (if c = CHR 0x5c then
        (case cs of
           [] \<Rightarrow> Err InvalidBackslashEscape
         | e # cs1 \<Rightarrow>
            (case simple_escape e of
               Some x \<Rightarrow> bindR (unescape cs1) (\<lambda>(t, rest). Ok (x # t, rest))
             | None \<Rightarrow>
                if octal_lead e then
                  (case cs1 of
                     x1 # x2 # cs2 \<Rightarrow>
                       if octal_digit x1 \<and> octal_digit x2
                       then bindR (unescape cs2) (\<lambda>(t, rest). Ok (octal_byte e x1 x2 # t, rest))
                       else Err InvalidBackslashEscape
                   | _ \<Rightarrow> Err UnexpectedEnd)
                else Err InvalidBackslashEscape))
      else if c = CHR 0x22 then Ok ([], cs)
      else bindR (unescape cs) (\<lambda>(t, rest). Ok (c # t, rest)))"
  by pat_completeness auto
termination
  by (relation "measure length") auto

text \<open>The server's encoding of a byte inside quotes.\<close>

definition escape_byte :: "byte \<Rightarrow> bytes" where
  "escape_byte c = (let n = byte_val c in
     if n = 9 then [CHR 0x5c, CHR ''t''] else if n = 10 then [CHR 0x5c, CHR ''n'']
     else if n = 13 then [CHR 0x5c, CHR ''r''] else if n = 92 then [CHR 0x5c, CHR 0x5c]
     else if n = 34 then [CHR 0x5c, CHR 0x22]
     else if n < 32 \<or> 127 \<le> n then [CHR 0x5c, digit_of (n div 64), digit_of (n div 8 mod 8), digit_of (n mod 8)]
     else [c])"

definition escape :: "bytes \<Rightarrow> bytes" where
  "escape s = concat (map escape_byte s)"

section \<open>Octal escapes\<close>

lemma high_bits:
  assumes "e < 256"
  shows "(((e::nat) AND 248) = 0) = (e < 8)"
proof -
  have c: "(248::nat) = push_bit 3 (mask 5)" by (simp add: mask_eq_exp_minus_1 push_bit_eq_mult)
  have "(e AND 248) = push_bit 3 (take_bit 5 (drop_bit 3 e))"
    unfolding c by (rule bit_eqI) (auto simp: bit_simps)
  moreover have "take_bit 5 (drop_bit 3 e) = e div 8"
    using assms by (simp add: take_bit_eq_mod drop_bit_eq_div less_mult_imp_div_less)
  ultimately show ?thesis by (simp add: push_bit_eq_mult div_eq_0_iff)
qed

lemma or_add:
  assumes "b < 2 ^ n"
  shows "push_bit n a OR b = push_bit n a + (b::nat)"
proof -
  have "take_bit n b = b" using assms by (simp add: take_bit_nat_eq_self)
  then have nb: "\<not> bit b i" if "n \<le> i" for i using that by (metis bit_take_bit_iff not_le)
  have "push_bit n a AND b = 0" by (rule bit_eqI) (simp add: bit_and_iff bit_push_bit_iff nb)
  then show ?thesis by (rule disjunctive_add_eq_or [symmetric])
qed

lemma octal_arith:
  assumes "e1 < 4" and "e2 < 8" and "e3 < (8::nat)"
  shows "((push_bit 6 e1 mod 256) OR (push_bit 3 e2 mod 256) OR e3) = 64 * e1 + 8 * e2 + e3"
proof -
  have "push_bit 6 e1 mod 256 = push_bit 6 e1" "push_bit 3 e2 mod 256 = push_bit 3 e2"
    using assms by (simp_all add: push_bit_eq_mult)
  moreover have "push_bit 3 e2 OR e3 = push_bit 3 e2 + e3" using assms by (intro or_add) simp
  moreover have "push_bit 6 e1 OR (push_bit 3 e2 + e3) = push_bit 6 e1 + (push_bit 3 e2 + e3)"
    using assms by (intro or_add) (simp add: push_bit_eq_mult)
  ultimately show ?thesis by (simp add: push_bit_eq_mult)
qed

lemma wrapping_digit: "wrapping_sub8 (byte_val c) 48 = (if 48 \<le> byte_val c then byte_val c - 48 else byte_val c + 208)"
proof (cases "48 \<le> byte_val c")
  case True
  then have "byte_val c + 256 - 48 = (byte_val c - 48) + 256" by simp
  moreover have "byte_val c - 48 < 256" by (rule less_imp_diff_less [OF byte_val_less])
  ultimately show ?thesis using True by (simp only: wrapping_sub8_def mod_add_self2 mod_less if_True)
qed (simp add: wrapping_sub8_def)

lemma octal_check:
  "((wrapping_sub8 (byte_val a) 48 OR wrapping_sub8 (byte_val b) 48) AND 248) = 0 \<longleftrightarrow> octal_digit a \<and> octal_digit b"
proof -
  have e: "((wrapping_sub8 (byte_val c) 48 AND 248) = 0) = octal_digit c" for c
  proof -
    let ?e = "if 48 \<le> byte_val c then byte_val c - 48 else byte_val c + 208"
    have "?e < 256" using less_imp_diff_less [OF byte_val_less, of c 48] by auto
    then have "((?e AND 248) = 0) = (?e < 8)" by (rule high_bits)
    also have "(?e < 8) = octal_digit c" by (auto simp: octal_digit_def)
    finally show ?thesis by (simp only: wrapping_digit)
  qed
  have "((x OR y) AND 248) = 0 \<longleftrightarrow> (x AND 248) = 0 \<and> (y AND 248) = 0" for x y :: nat
  proof -
    have "((x OR y) AND 248) = (x AND 248) OR (y AND 248)"
      by (rule bit_eqI) (auto simp only: bit_and_iff bit_or_iff)
    then show ?thesis by (simp only: or_eq_0_iff)
  qed
  with e show ?thesis by simp
qed

lemma octal_check_pos:
  "0 < ((wrapping_sub8 (byte_val a) 48 OR wrapping_sub8 (byte_val b) 48) AND 248) \<longleftrightarrow>
     \<not> (octal_digit a \<and> octal_digit b)"
  unfolding octal_check [symmetric] by simp

lemma octal_value:
  assumes "octal_lead a" and "octal_digit b" and "octal_digit c"
  shows "byte_of ((push_bit 6 (wrapping_sub8 (byte_val a) 48) mod 256)
      OR (push_bit 3 (wrapping_sub8 (byte_val b) 48) mod 256) OR wrapping_sub8 (byte_val c) 48) = octal_byte a b c"
proof -
  have v: "wrapping_sub8 (byte_val a) 48 = digit_val a" "wrapping_sub8 (byte_val b) 48 = digit_val b"
    "wrapping_sub8 (byte_val c) 48 = digit_val c"
    using assms by (auto simp: wrapping_digit octal_lead_def octal_digit_def)
  have "digit_val a < 4" "digit_val b < 8" "digit_val c < 8"
    using assms by (auto simp: octal_lead_def octal_digit_def)
  then show ?thesis by (simp only: v octal_byte_def octal_arith)
qed

section \<open>The in-place loop refines the reference decoder\<close>

text \<open>One turn reads what the reference decoder reads.\<close>

lemma drop_nth: "i < length d \<Longrightarrow> drop i d = d ! i # drop (i + 1) d"
  by (simp add: Cons_nth_drop_Suc)

lemma read_unit_spec:
  assumes "rd \<le> length d"
  shows "case read_unit d rd of
      Ok (Some x, rd') \<Rightarrow> unescape (drop rd d) = bindR (unescape (drop rd' d)) (\<lambda>(t, rest). Ok (x # t, rest))
    | Ok (None, rd') \<Rightarrow> unescape (drop rd d) = Ok ([], drop rd' d)
    | Err e \<Rightarrow> unescape (drop rd d) = Err e
    | _ \<Rightarrow> False"
proof (cases "rd = length d")
  case False
  with assms have lt: "rd < length d" by simp
  note d0 = drop_nth [OF lt]
  show ?thesis
  proof (cases "d ! rd = CHR 0x5c")
    case bs: True
    show ?thesis
    proof (cases "length d - (rd + 1) < 1")
      case True
      with lt bs d0 show ?thesis by (simp add: read_unit_def Let_def)
    next
      case f1: False
      then have d1: "drop (rd + 1) d = d ! (rd + 1) # drop (rd + 1 + 1) d" by (intro drop_nth) simp
      show ?thesis
      proof (cases "simple_escape (d ! (rd + 1)) = None \<and> octal_lead (d ! (rd + 1))")
        case True
        show ?thesis
        proof (cases "length d - (rd + 1) < 3")
          case short: True
          then have "length (drop (rd + 1 + 1) d) < 2" by simp
          then have "drop (rd + 1 + 1) d = [] \<or> (\<exists>x. drop (rd + 1 + 1) d = [x])"
            by (cases "drop (rd + 1 + 1) d"; cases "tl (drop (rd + 1 + 1) d)") auto
          with short True lt bs f1 d0 d1 show ?thesis by (auto simp: read_unit_def Let_def)
        next
          case False
          then have d2: "drop (rd + 1 + 1) d = d ! (rd + 1 + 1) # d ! (rd + 1 + 1 + 1) # drop (rd + 1 + 1 + 1 + 1) d"
            by (subst drop_nth, simp, subst drop_nth) auto
          with False True lt bs f1 d0 d1 show ?thesis
            by (simp add: read_unit_def Let_def octal_check_pos octal_value del: One_nat_def)
        qed
      next
        case False
        with lt bs f1 d0 d1 show ?thesis
          by (auto simp: read_unit_def Let_def split: option.splits)
      qed
    qed
  qed (use lt d0 in \<open>auto simp: read_unit_def Let_def\<close>)
qed (simp add: read_unit_def)

lemma convert_loop_spec:
  assumes "wr \<le> rd" and "rd \<le> length d"
  shows "case convert_loop d rd wr of
      (Ok (rd', wr'), d') \<Rightarrow> \<exists>t. unescape (drop rd d) = Ok (t, drop rd' d) \<and> wr' = wr + length t \<and> wr' < rd'
        \<and> rd < rd' \<and> rd' \<le> length d \<and> d' = take wr d @ t @ drop wr' d
    | (Err e, d') \<Rightarrow> unescape (drop rd d) = Err e \<and> length d' = length d \<and> take wr d' = take wr d
    | _ \<Rightarrow> False"
  using assms
proof (induction d rd wr rule: convert_loop.induct)
  case (1 d rd wr)
  note unit = read_unit_spec [OF "1.prems"(2)]
  show ?case
  proof (cases "read_unit d rd")
    case (Ok p)
    obtain x rd1 where p: "p = (x, rd1)" by (cases p)
    have rd1: "rd < rd1" "rd1 \<le> length d" using read_unit_progress Ok p by auto
    show ?thesis
    proof (cases x)
      case None
      with Ok p unit rd1 "1.prems" show ?thesis unfolding convert_loop.simps [of d rd wr] by auto
    next
      case (Some c)
      have wr: "\<not> length d \<le> wr" using "1.prems" rd1 by simp
      define d1 where "d1 = d[wr := c]"
      have step: "convert_loop d rd wr = convert_loop d1 rd1 (wr + 1)"
        unfolding convert_loop.simps [of d rd wr] using Ok p Some wr by (simp add: d1_def)
      have same: "drop k d1 = drop k d" if "wr < k" for k using that by (simp add: d1_def)
      have tk: "take (wr + 1) d1 = take wr d @ [c]" "length d1 = length d" "take wr d1 = take wr d"
        using wr by (simp_all add: d1_def take_Suc_conv_app_nth)
      have un: "unescape (drop rd d) = bindR (unescape (drop rd1 d1)) (\<lambda>(t, rest). Ok (c # t, rest))"
        using unit Ok p Some same [of rd1] "1.prems" rd1 by simp
      have "wr + 1 \<le> rd1" "rd1 \<le> length d1" using rd1 "1.prems" tk by auto
      note ih = "1.IH" [OF Ok p [symmetric] Some wr, folded d1_def, OF this]
      obtain res d' where cl: "convert_loop d1 rd1 (wr + 1) = (res, d')" by (metis surj_pair)
      show ?thesis
      proof (cases res)
        case ok: (Ok q)
        obtain rd' wr' where q: "q = (rd', wr')" by (cases q)
        from ih obtain t where t: "unescape (drop rd1 d1) = Ok (t, drop rd' d1)" "wr' = wr + 1 + length t"
          "wr' < rd'" "rd1 < rd'" "rd' \<le> length d1" "d' = take (wr + 1) d1 @ t @ drop wr' d1"
          unfolding cl ok q by auto
        have "unescape (drop rd d) = Ok (c # t, drop rd' d)" using un t same [of rd'] by simp
        moreover have "d' = take wr d @ (c # t) @ drop wr' d" using t(2,6) tk(1) same [of wr'] by simp
        ultimately show ?thesis unfolding step cl ok q using t rd1 tk by auto
      next
        case (Err e)
        with ih have "unescape (drop rd1 d1) = Err e" "length d' = length d1" "take (wr + 1) d' = take (wr + 1) d1"
          unfolding cl by auto
        moreover from this have "take wr d' = take wr d"
          using tk(3) by (metis le_add1 min.absorb1 take_take)
        ultimately show ?thesis unfolding step cl Err using un tk by simp
      qed (use ih [unfolded cl] in auto)
    qed
  qed (use unit "1.prems" in \<open>auto simp: convert_loop.simps [of d rd wr]\<close>)
qed

section \<open>Facts about the buffer operations\<close>

definition wf_buf :: "ReplyBuf \<Rightarrow> bool" where
  "wf_buf b \<longleftrightarrow> buf_pos b \<le> length (buf_data b) \<and> length (buf_data b) \<le> usize_max"

lemma wf_buf_new: "length v \<le> usize_max \<Longrightarrow> wf_buf (ReplyBuf_new v)"
  by (simp add: wf_buf_def ReplyBuf_new_def)

lemma peek_new [simp]: "peek (ReplyBuf_new v) = v"
  by (simp add: peek_def ReplyBuf_new_def)

lemma consume_ok:
  assumes "wf_buf b" and "n \<le> length (peek b)"
  shows "consume n b = (Ok (take n (peek b)), b\<lparr>buf_pos := buf_pos b + n\<rparr>)"
  using assms by (auto simp: consume_def wf_buf_def peek_def Let_def drop_take)

lemma peek_advance: "peek (b\<lparr>buf_pos := buf_pos b + n\<rparr>) = drop n (peek b)"
  by (simp add: peek_def add.commute)

lemma wf_buf_advance: "wf_buf b \<Longrightarrow> n \<le> length (peek b) \<Longrightarrow> wf_buf (b\<lparr>buf_pos := buf_pos b + n\<rparr>)"
  by (auto simp: wf_buf_def peek_def)

lemma convert_backslashes_spec:
  assumes "wf_buf b" and "skip \<le> length (peek b)"
  shows "case convert_backslashes skip b of
      (Ok bs, b') \<Rightarrow> \<exists>t. unescape (drop skip (peek b)) = Ok (t, peek b') \<and> bs = take skip (peek b) @ t
        \<and> buf_pos b + length bs < buf_pos b' \<and> wf_buf b' \<and> length (buf_data b') = length (buf_data b)
        \<and> take (buf_pos b) (buf_data b') = take (buf_pos b) (buf_data b)
        \<and> range_of b' (buf_pos b) (length bs) = Ok bs
    | (Err e, b') \<Rightarrow> unescape (drop skip (peek b)) = Err e \<and> buf_pos b' = buf_pos b \<and> wf_buf b'
        \<and> take (buf_pos b) (buf_data b') = take (buf_pos b) (buf_data b)
    | _ \<Rightarrow> False"
proof -
  let ?d = "buf_data b" and ?s = "buf_pos b + skip"
  have s: "?s \<le> length ?d" using assms by (auto simp: wf_buf_def peek_def)
  have dr: "drop ?s ?d = drop skip (peek b)" by (simp add: peek_def add.commute)
  obtain res d' where cl: "convert_loop ?d ?s ?s = (res, d')" by (metis surj_pair)
  note spec = convert_loop_spec [OF order_refl s, unfolded cl dr]
  show ?thesis
  proof (cases res)
    case (Ok q)
    obtain rd' wr' where q: "q = (rd', wr')" by (cases q)
    from spec obtain t where t: "unescape (drop skip (peek b)) = Ok (t, drop rd' ?d)" "wr' = ?s + length t"
      "wr' < rd'" "rd' \<le> length ?d" "d' = take ?s ?d @ t @ drop wr' ?d"
      unfolding Ok q by auto
    have len: "length d' = length ?d" using t s by simp
    have dr': "drop rd' d' = drop rd' ?d" using t s by simp
    have tk: "take (buf_pos b) d' = take (buf_pos b) ?d" using t(5) s by (simp add: min_absorb1)
    have mid: "drop (buf_pos b) (take wr' d') = take skip (peek b) @ t"
      using t(2,5) s by (simp add: peek_def drop_take)
    have cb: "convert_backslashes skip b = (Ok (take skip (peek b) @ t), b\<lparr>buf_data := d', buf_pos := rd'\<rparr>)"
      using s cl Ok q t len mid by (simp add: convert_backslashes_def Let_def)
    have ln: "length (take skip (peek b) @ t) = wr' - buf_pos b" using t(2) assms(2) by simp
    have "range_of (b\<lparr>buf_data := d', buf_pos := rd'\<rparr>) (buf_pos b) (wr' - buf_pos b) = Ok (take skip (peek b) @ t)"
      using t assms len mid by (auto simp: range_of_def wf_buf_def drop_take)
    with t assms len dr' tk ln show ?thesis
      unfolding cb by (auto simp: peek_def wf_buf_def)
  next
    case (Err e)
    then have "take ?s d' = take ?s ?d" using spec by simp
    then have "take (buf_pos b) d' = take (buf_pos b) ?d" by (metis le_add1 min.absorb1 take_take)
    with spec Err s cl assms show ?thesis
      by (simp add: convert_backslashes_def Let_def wf_buf_def)
  qed (use spec in auto)
qed

section \<open>Escaping and unescaping\<close>

lemma digit_not_escape: "k < 8 \<Longrightarrow> simple_escape (digit_of k) = None"
  by (auto simp: simple_escape_def dest: arg_cong [where f = "of_char :: char \<Rightarrow> nat"])

lemma unescape_byte:
  "unescape (escape_byte c @ r) = bindR (unescape r) (\<lambda>(t, rest). Ok (c # t, rest))"
proof (cases "byte_val c \<in> {9, 10, 13, 92, 34}")
  case True
  then have "byte_val c = byte_val (CHR 0x09) \<or> byte_val c = byte_val (CHR 0x0a) \<or> byte_val c = byte_val (CHR 0x0d)
      \<or> byte_val c = byte_val (CHR 0x5c) \<or> byte_val c = byte_val (CHR 0x22)"
    by simp
  then have "c = CHR 0x09 \<or> c = CHR 0x0a \<or> c = CHR 0x0d \<or> c = CHR 0x5c \<or> c = CHR 0x22"
    by (simp only: byte_val_inject)
  then show ?thesis
    by (elim disjE) (simp_all add: escape_byte_def simple_escape_def Let_def)
next
  case False
  show ?thesis
  proof (cases "byte_val c < 32 \<or> 127 \<le> byte_val c")
    case True
    define n where "n = byte_val c"
    have n: "n < 256" unfolding n_def by (rule byte_val_less)
    let ?a = "n div 64" and ?b = "n div 8 mod 8" and ?c = "n mod 8"
    have a: "?a < 4" "?b < 8" "?c < 8" using n by auto
    then have ne: "simple_escape (digit_of ?a) = None" by (intro digit_not_escape) simp
    have lead: "octal_lead (digit_of ?a)" "octal_digit (digit_of ?b)" "octal_digit (digit_of ?c)"
      using a by (auto simp: octal_lead_def octal_digit_def)
    have "?a = n div 8 div 8" by (simp flip: div_mult2_eq)
    then have "8 * ?a + ?b = n div 8" using mult_div_mod_eq [of 8 "n div 8"] by simp
    then have "64 * ?a + 8 * ?b + ?c = n" using mult_div_mod_eq [of 8 n] by linarith
    moreover have "byte_of n = c" by (simp add: n_def)
    ultimately have "octal_byte (digit_of ?a) (digit_of ?b) (digit_of ?c) = c"
      using a by (simp add: octal_byte_def)
    then show ?thesis using False True ne lead by (simp add: escape_byte_def Let_def n_def [symmetric])
  next
    case nt: False
    then have "c \<noteq> CHR 0x5c" "c \<noteq> CHR 0x22" using False by auto
    then show ?thesis using False nt by (simp add: escape_byte_def Let_def)
  qed
qed

lemma unescape_escape: "unescape (escape s @ CHR 0x22 # rest) = Ok (s, rest)"
  by (induction s) (simp_all add: escape_def unescape_byte)

section \<open>Properties\<close>

text \<open>C18. Decoding the escapes of a quoted field in place is memory safe and correct: from any position inside
  the reply no access leaves the data, the bytes before the field stay as they are, the length of
  the data does not change, the range of the field then holds what the reference decoder gives for
  the quoted text, and the position is right behind the closing quote; every error is the error of
  the reference decoder.\<close>

theorem convert_backslashes_correct:
  assumes "wf_buf b" and "skip \<le> length (peek b)"
  shows "case convert_backslashes skip b of
      (Ok bs, b') \<Rightarrow> \<exists>t. unescape (drop skip (peek b)) = Ok (t, peek b') \<and> bs = take skip (peek b) @ t
        \<and> buf_pos b + length bs < buf_pos b' \<and> wf_buf b' \<and> length (buf_data b') = length (buf_data b)
        \<and> take (buf_pos b) (buf_data b') = take (buf_pos b) (buf_data b)
        \<and> range_of b' (buf_pos b) (length bs) = Ok bs
    | (Err e, b') \<Rightarrow> unescape (drop skip (peek b)) = Err e \<and> buf_pos b' = buf_pos b \<and> wf_buf b'
        \<and> take (buf_pos b) (buf_data b') = take (buf_pos b) (buf_data b)
    | _ \<Rightarrow> False"
  using assms by (rule convert_backslashes_spec)

definition example_buf :: ReplyBuf where
  "example_buf = \<lparr>buf_data = ''x'' @ [CHR 0x22] @ ''a'' @ [CHR 0x5c] @ ''303'' @ [CHR 0x5c, CHR 0x22, CHR 0x22] @ ''y'', buf_pos = 2\<rparr>"

theorem convert_backslashes_correct_witness:
  "wf_buf example_buf \<and> 1 \<le> length (peek example_buf) \<and>
   (case convert_backslashes 1 example_buf of
      (Ok bs, b') \<Rightarrow> \<exists>t. unescape (drop 1 (peek example_buf)) = Ok (t, peek b') \<and> bs = take 1 (peek example_buf) @ t
        \<and> buf_pos example_buf + length bs < buf_pos b' \<and> wf_buf b'
        \<and> length (buf_data b') = length (buf_data example_buf)
        \<and> take (buf_pos example_buf) (buf_data b') = take (buf_pos example_buf) (buf_data example_buf)
        \<and> range_of b' (buf_pos example_buf) (length bs) = Ok bs
    | (Err e, b') \<Rightarrow> unescape (drop 1 (peek example_buf)) = Err e \<and> buf_pos b' = buf_pos example_buf \<and> wf_buf b'
        \<and> take (buf_pos example_buf) (buf_data b') = take (buf_pos example_buf) (buf_data example_buf)
    | _ \<Rightarrow> False)"
proof (intro conjI)
  show wf: "wf_buf example_buf" and le: "1 \<le> length (peek example_buf)"
    by (simp_all add: wf_buf_def example_buf_def peek_def)
qed (rule convert_backslashes_correct; simp add: wf_buf_def example_buf_def peek_def)

end
