(* ===== verification/Row_Set.thy ===== *)
theory Row_Set
  imports Reply_Buf
begin

text \<open>
  Rows of a result set, \<open>src/cursor/rowset.rs\<close>: \<open>RowSet\<close> cuts one row at a time out of the reply
  and keeps the position and length of each field.

  Rust stores the fields of the current row one by one and clears them all when a row is
  malformed; the model collects them and stores them when the row is complete.
  \<open>row_text\<close> is the server's rendering of a row.
\<close>

section \<open>Model of the code\<close>

record RowSet =
  rs_buf :: ReplyBuf
  rs_ncols :: nat
  rs_fields :: "(nat \<times> nat) option list"
  rs_noslice :: bool

definition RowSet_new :: "ReplyBuf \<Rightarrow> nat \<Rightarrow> RowSet" where
  "RowSet_new buf ncols = \<lparr>rs_buf = buf, rs_ncols = ncols, rs_fields = replicate ncols None, rs_noslice = False\<rparr>"

definition RowSet_new_noslice :: "ReplyBuf \<Rightarrow> RowSet" where
  "RowSet_new_noslice buf = \<lparr>rs_buf = buf, rs_ncols = 1, rs_fields = [None], rs_noslice = True\<rparr>"

definition has_pending_row :: "RowSet \<Rightarrow> bool" where
  "has_pending_row rs \<longleftrightarrow> starts_with (peek (rs_buf rs)) ''[''"

definition consume_field_separator :: "bool \<Rightarrow> ReplyBuf \<Rightarrow> (unit, BadReply) outcome \<times> ReplyBuf" where
  "consume_field_separator comma b =
     (let expected = (if comma then [CHR '','', CHR 0x09] else [CHR 0x09]) in
      if length (peek b) < length expected then (Err UnexpectedEnd, b)
      else if \<not> starts_with (peek b) expected then (Err (SepNotFound (if comma then CHR '','' else CHR 0x09)), b)
      else bindS (consume (length expected) b) (\<lambda>_ b. (Ok (), b)))"

text \<open>The body of the loop over the columns, for column \<open>i\<close>.\<close>

definition parse_field ::
  "libs \<Rightarrow> nat \<Rightarrow> nat \<Rightarrow> ReplyBuf \<Rightarrow> ((nat \<times> nat) option, BadReply) outcome \<times> ReplyBuf" where
  "parse_field L ncols i b =
     (let comma = (i + 1 < ncols) in
      case peek b of
        [] \<Rightarrow> (Err UnexpectedEnd, b)
      | first # _ \<Rightarrow>
          if first = CHR '']'' then (Err (TooFewColumns i), b)
          else if first = CHR 0x22 then
            bindS (consume 1 b) (\<lambda>_ b.
              case find2 L (CHR 0x22) (CHR 0x5c) b of
                None \<Rightarrow> (Err UnexpectedEnd, b)
              | Some (pos, chr) \<Rightarrow>
                  if chr = CHR 0x22 then
                    (let field = Some (buf_pos b, pos) in
                     bindS (consume (pos + 1) b) (\<lambda>_ b.
                     bindS (consume_field_separator comma b) (\<lambda>_ b. (Ok field, b))))
                  else
                    (let start = buf_pos b in
                     bindS (convert_backslashes pos b) (\<lambda>unescaped b.
                     bindS (consume_field_separator comma b) (\<lambda>_ b.
                       (Ok (Some (start, length unescaped)), b)))))
          else
            (let start = buf_pos b in
             bindS (split L (CHR 0x09) b) (\<lambda>rough b.
               let field_of = (\<lambda>adjusted. if adjusted = ''NULL'' then None else Some (start, length adjusted)) in
               if \<not> comma then (Ok (field_of rough), b)
               else case strip_suffix rough '','' of
                   None \<Rightarrow> (Err (if rough = [] then UnexpectedEnd else SepNotFound (CHR '','')), b)
                 | Some adjusted \<Rightarrow> (Ok (field_of adjusted), b))))"

fun fields_loop ::
  "libs \<Rightarrow> nat \<Rightarrow> nat \<Rightarrow> nat \<Rightarrow> ReplyBuf \<Rightarrow> ((nat \<times> nat) option list, BadReply) outcome \<times> ReplyBuf" where
  "fields_loop L ncols i 0 b = (Ok [], b)"
| "fields_loop L ncols i (Suc k) b =
     bindS (parse_field L ncols i b) (\<lambda>field b.
     bindS (fields_loop L ncols (i + 1) k b) (\<lambda>fs b. (Ok (field # fs), b)))"

text \<open>A row between its opening bracket and the line feed.\<close>

definition parse_row ::
  "libs \<Rightarrow> nat \<Rightarrow> nat \<Rightarrow> ReplyBuf \<Rightarrow> ((nat \<times> nat) option list, BadReply) outcome \<times> ReplyBuf" where
  "parse_row L ncols nfields b =
     (if length (peek b) < 2 then (Err UnexpectedEnd, b)
      else if \<not> starts_with (peek b) ''[ '' then (Err (UnexpectedHeader (peek b)), b)
      else bindS (consume 2 b) (\<lambda>_ b.
        bindS (fields_loop L ncols 0 nfields b) (\<lambda>fs b.
          if length (peek b) < 2 then (Err UnexpectedEnd, b)
          else if \<not> starts_with (peek b) [CHR '']'', CHR 0x0a] then (Err (SepNotFound (CHR '']'')), b)
          else bindS (consume 2 b) (\<lambda>_ b. (Ok fs, b)))))"

definition do_advance :: "libs \<Rightarrow> RowSet \<Rightarrow> (bool, BadReply) outcome \<times> RowSet" where
  "do_advance L rs =
     (if rs_noslice rs then
        (if \<not> starts_with (peek (rs_buf rs)) ''='' then
           (Ok False, rs\<lparr>rs_fields := map (\<lambda>_. None) (rs_fields rs)\<rparr>)
         else case bindS (consume 1 (rs_buf rs)) (\<lambda>_ b.
                let start = buf_pos b in
                bindS (split L (CHR 0x0a) b) (\<lambda>v b. (Ok (start, length v), b))) of
             (Ok field, b) \<Rightarrow>
               (if rs_fields rs = [] then (Panic, rs\<lparr>rs_buf := b\<rparr>)
                else (Ok True, rs\<lparr>rs_buf := b, rs_fields := (rs_fields rs)[0 := Some field]\<rparr>))
           | (Err e, b) \<Rightarrow> (Err e, rs\<lparr>rs_buf := b\<rparr>)
           | (Panic, b) \<Rightarrow> (Panic, rs\<lparr>rs_buf := b\<rparr>)
           | (NoFuel, b) \<Rightarrow> (NoFuel, rs\<lparr>rs_buf := b\<rparr>))
      else if \<not> starts_with (peek (rs_buf rs)) ''['' then
        (Ok False, rs\<lparr>rs_fields := map (\<lambda>_. None) (rs_fields rs)\<rparr>)
      else case parse_row L (rs_ncols rs) (length (rs_fields rs)) (rs_buf rs) of
          (Ok fs, b) \<Rightarrow> (Ok True, rs\<lparr>rs_buf := b, rs_fields := fs\<rparr>)
        | (Err e, b) \<Rightarrow> (Err e, rs\<lparr>rs_buf := b\<rparr>)
        | (Panic, b) \<Rightarrow> (Panic, rs\<lparr>rs_buf := b\<rparr>)
        | (NoFuel, b) \<Rightarrow> (NoFuel, rs\<lparr>rs_buf := b\<rparr>))"

definition advance :: "libs \<Rightarrow> RowSet \<Rightarrow> (bool, BadReply) outcome \<times> RowSet" where
  "advance L rs = (case do_advance L rs of
       (Err e, rs) \<Rightarrow> (Err e, rs\<lparr>rs_fields := []\<rparr>)
     | other \<Rightarrow> other)"

definition min_option :: "nat option \<Rightarrow> nat option \<Rightarrow> nat option" where
  "min_option a b = (case (a, b) of (Some x, Some y) \<Rightarrow> Some (min x y)
     | (Some x, None) \<Rightarrow> Some x | (None, y) \<Rightarrow> y)"

definition RowSet_finish :: "libs \<Rightarrow> RowSet \<Rightarrow> (ReplyBuf, BadReply) outcome" where
  "RowSet_finish L rs = (let b = rs_buf rs;
       boundary = min_option (find_line L (CHR ''&'') b) (find_line L (CHR ''='') b);
       n = (case boundary of Some idx \<Rightarrow> idx | None \<Rightarrow> length (peek b))
     in case consume n b of (res, b') \<Rightarrow> bindR res (\<lambda>_. Ok b'))"

definition get_field_raw :: "RowSet \<Rightarrow> nat \<Rightarrow> (bytes option, BadReply) outcome" where
  "get_field_raw rs idx =
     (if length (rs_fields rs) \<le> idx then Err (ColumnIndexOutOfBounds idx (length (rs_fields rs)))
      else case rs_fields rs ! idx of
          None \<Rightarrow> Ok None
        | Some (start, len) \<Rightarrow> bindR (range_of (rs_buf rs) start len) (\<lambda>v. Ok (Some v)))"

section \<open>The server's rendering of a row\<close>

datatype cell = Null | Raw bytes | Quoted bytes

fun cell_text :: "cell \<Rightarrow> bytes" where
  "cell_text Null = ''NULL''"
| "cell_text (Raw r) = r"
| "cell_text (Quoted s) = CHR 0x22 # escape s @ [CHR 0x22]"

fun cell_value :: "cell \<Rightarrow> bytes option" where
  "cell_value Null = None"
| "cell_value (Raw r) = Some r"
| "cell_value (Quoted s) = Some s"

text \<open>An unquoted value is not empty, holds no tab, does not start like a quoted value or the end of
  the row, and is not the text of NULL.\<close>

fun cell_ok :: "cell \<Rightarrow> bool" where
  "cell_ok (Raw r) = (r \<noteq> [] \<and> CHR 0x09 \<notin> set r \<and> hd r \<noteq> CHR '']'' \<and> hd r \<noteq> CHR 0x22 \<and> r \<noteq> ''NULL'')"
| "cell_ok _ = True"

definition sep_text :: "bool \<Rightarrow> bytes" where
  "sep_text comma = (if comma then [CHR '','', CHR 0x09] else [CHR 0x09])"

fun cells_text :: "cell list \<Rightarrow> bytes" where
  "cells_text [] = []"
| "cells_text (c # cs) = cell_text c @ sep_text (cs \<noteq> []) @ cells_text cs"

definition row_text :: "cell list \<Rightarrow> bytes" where
  "row_text cells = ''[ '' @ cells_text cells @ [CHR '']'', CHR 0x0a]"

section \<open>Buffers that only grow consumed\<close>

text \<open>\<open>b'\<close> comes after \<open>b\<close>: the position moved on and what lay before it is untouched.\<close>

definition buf_ext :: "ReplyBuf \<Rightarrow> ReplyBuf \<Rightarrow> bool" where
  "buf_ext b b' \<longleftrightarrow> wf_buf b' \<and> buf_pos b \<le> buf_pos b'
     \<and> take (buf_pos b) (buf_data b') = take (buf_pos b) (buf_data b)"

lemma buf_ext_refl: "wf_buf b \<Longrightarrow> buf_ext b b"
  by (simp add: buf_ext_def)

lemma buf_ext_trans:
  assumes "buf_ext b b'" and "buf_ext b' b''"
  shows "buf_ext b b''"
proof -
  have le: "buf_pos b \<le> buf_pos b'" using assms(1) by (simp add: buf_ext_def)
  have "take (buf_pos b) (take (buf_pos b') (buf_data b'')) = take (buf_pos b) (take (buf_pos b') (buf_data b'))"
    using assms(2) by (simp add: buf_ext_def)
  then have "take (buf_pos b) (buf_data b'') = take (buf_pos b) (buf_data b')"
    using le by (simp add: min_absorb1)
  with assms show ?thesis by (simp add: buf_ext_def)
qed

lemma buf_ext_advance: "wf_buf b \<Longrightarrow> n \<le> length (peek b) \<Longrightarrow> buf_ext b (b\<lparr>buf_pos := buf_pos b + n\<rparr>)"
  by (simp add: buf_ext_def wf_buf_advance)

lemma consume_prefix:
  assumes "wf_buf b" and "peek b = p @ r"
  shows "\<exists>b'. consume (length p) b = (Ok p, b') \<and> peek b' = r \<and> buf_ext b b' \<and> buf_data b' = buf_data b
     \<and> buf_pos b' = buf_pos b + length p"
  using consume_ok [of b "length p"] assms peek_advance [of b "length p"] buf_ext_advance [of b "length p"]
  by auto

text \<open>The field \<open>f\<close> of a row denotes \<open>v\<close>, and lies before the position.\<close>

definition field_is :: "ReplyBuf \<Rightarrow> (nat \<times> nat) option \<Rightarrow> bytes option \<Rightarrow> bool" where
  "field_is b f v \<longleftrightarrow> (case f of None \<Rightarrow> v = None
     | Some (start, len) \<Rightarrow> start + len \<le> buf_pos b \<and> v = Some (take len (drop start (buf_data b))))"

lemma field_is_ext:
  assumes "field_is b f v" and "buf_ext b b'"
  shows "field_is b' f v"
proof (cases f)
  case (Some p)
  obtain start len where p: "p = (start, len)" by (cases p)
  have le: "start + len \<le> buf_pos b" using assms(1) Some p by (simp add: field_is_def)
  have "take (start + len) (take (buf_pos b) (buf_data b')) = take (start + len) (take (buf_pos b) (buf_data b))"
    using assms(2) by (simp add: buf_ext_def)
  then have "take (start + len) (buf_data b') = take (start + len) (buf_data b)"
    using le by (simp add: min_absorb1)
  then have "take len (drop start (buf_data b')) = take len (drop start (buf_data b))"
    by (metis add_diff_cancel_left' drop_take)
  with assms Some p le show ?thesis by (auto simp: field_is_def buf_ext_def)
qed (use assms in \<open>simp add: field_is_def\<close>)

lemma field_is_range:
  assumes "wf_buf b" and "field_is b (Some (start, len)) v"
  shows "range_of b start len = Ok (the v) \<and> v \<noteq> None"
  using assms by (auto simp: field_is_def range_of_def wf_buf_def)

section \<open>Separators and fields\<close>

lemma separator_ok:
  assumes "wf_buf b" and "peek b = sep_text comma @ r"
  shows "\<exists>b'. consume_field_separator comma b = (Ok (), b') \<and> peek b' = r \<and> buf_ext b b'"
  using consume_prefix [OF assms] assms(2)
  by (auto simp: consume_field_separator_def sep_text_def Let_def)

lemma unescape_plain:
  "(\<And>c. c \<in> set p \<Longrightarrow> c \<noteq> CHR 0x22 \<and> c \<noteq> CHR 0x5c) \<Longrightarrow>
   unescape (p @ x) = bindR (unescape x) (\<lambda>(t, rest). Ok (p @ t, rest))"
proof (induction p)
  case Nil
  then show ?case by (cases "unescape x") auto
next
  case (Cons c p)
  then show ?case by (cases "unescape x") auto
qed

context byte_search
begin

lemma split_ok:
  assumes "wf_buf b" and "peek b = p @ c # r" and "c \<notin> set p"
  shows "\<exists>b'. split L c b = (Ok p, b') \<and> peek b' = r \<and> buf_ext b b' \<and> buf_data b' = buf_data b
     \<and> buf_pos b' = buf_pos b + length p + 1"
proof -
  have "find L c b = Some (length p)"
    unfolding find_def memchr_first assms(2) using assms(3) by (intro first_index_hit) auto
  moreover have "peek b = (p @ [c]) @ r" using assms(2) by simp
  from consume_prefix [OF assms(1) this] obtain b' where "consume (length p + 1) b = (Ok (p @ [c]), b')"
    "peek b' = r" "buf_ext b b'" "buf_data b' = buf_data b" "buf_pos b' = buf_pos b + length p + 1" by auto
  ultimately show ?thesis by (simp add: split_def)
qed

text \<open>An unquoted value, NULL included.\<close>

lemma parse_field_plain:
  assumes wf: "wf_buf b" and pk: "peek b = v @ sep_text (i + 1 < ncols) @ r"
    and v: "v \<noteq> []" "CHR 0x09 \<notin> set v" "hd v \<noteq> CHR '']''" "hd v \<noteq> CHR 0x22"
  shows "\<exists>f b'. parse_field L ncols i b = (Ok f, b') \<and> peek b' = r \<and> buf_ext b b'
     \<and> field_is b' f (if v = ''NULL'' then None else Some v)"
proof -
  let ?comma = "i + 1 < ncols"
  let ?rough = "if ?comma then v @ '','' else v"
  obtain c cs where pc: "peek b = c # cs" and c: "c \<noteq> CHR '']''" "c \<noteq> CHR 0x22"
    using pk v by (cases v) auto
  have pk': "peek b = ?rough @ CHR 0x09 # r" using pk by (simp add: sep_text_def)
  have "CHR 0x09 \<notin> set ?rough" using v(2) by auto
  from split_ok [OF wf pk' this] obtain b' where sp: "split L (CHR 0x09) b = (Ok ?rough, b')"
    and b': "peek b' = r" "buf_ext b b'" "buf_data b' = buf_data b" "buf_pos b' = buf_pos b + length ?rough + 1"
    by blast
  have "take (length v) (peek b) = v" using pk by simp
  then have val: "take (length v) (drop (buf_pos b) (buf_data b')) = v" by (simp add: peek_def b'(3))
  have "buf_pos b + length v \<le> buf_pos b'" using b'(4) by auto
  with val have fi: "field_is b' (if v = ''NULL'' then None else Some (buf_pos b, length v))
      (if v = ''NULL'' then None else Some v)" by (simp add: field_is_def)
  have "parse_field L ncols i b = (Ok (if v = ''NULL'' then None else Some (buf_pos b, length v)), b')"
    using pc c sp by (auto simp: parse_field_def Let_def strip_suffix_def)
  with b' fi show ?thesis by blast
qed

text \<open>A quoted value, with or without escapes.\<close>

lemma parse_field_quoted:
  assumes wf: "wf_buf b" and pk: "peek b = cell_text (Quoted s) @ sep_text (i + 1 < ncols) @ r"
  shows "\<exists>f b'. parse_field L ncols i b = (Ok f, b') \<and> peek b' = r \<and> buf_ext b b' \<and> field_is b' f (Some s)"
proof -
  let ?comma = "i + 1 < ncols"
  let ?sr = "sep_text ?comma @ r"
  have "peek b = [CHR 0x22] @ (escape s @ CHR 0x22 # ?sr)" using pk by simp
  from consume_prefix [OF wf this] obtain b1 where c1: "consume 1 b = (Ok [CHR 0x22], b1)"
    and p1: "peek b1 = escape s @ CHR 0x22 # ?sr" and e1: "buf_ext b b1" by auto
  have wf1: "wf_buf b1" using e1 by (simp add: buf_ext_def)
  let ?P = "\<lambda>x. x = CHR 0x22 \<or> x = CHR 0x5c"
  obtain k where k: "first_index ?P (peek b1) = Some k"
    using first_index_None [of ?P "peek b1"] by (auto simp: p1)
  note fk = first_index_Some [OF k]
  define p where "p = take k (peek b1)"
  define q where "q = drop (Suc k) (peek b1)"
  define ch where "ch = peek b1 ! k"
  have pq: "peek b1 = p @ ch # q" unfolding p_def q_def ch_def using fk by (simp add: id_take_nth_drop)
  have lp: "length p = k" using fk by (simp add: p_def)
  have plain: "c \<noteq> CHR 0x22 \<and> c \<noteq> CHR 0x5c" if "c \<in> set p" for c
    using that fk by (auto simp: p_def in_set_conv_nth)
  have f2: "find2 L (CHR 0x22) (CHR 0x5c) b1 = Some (k, ch)"
    by (simp add: find2_def memchr2_first k ch_def Let_def)
  have un: "unescape (p @ ch # q) = Ok (s, ?sr)" using unescape_escape p1 pq by metis
  have start: "\<exists>c cs. peek b = c # cs \<and> c = CHR 0x22" using pk by simp
  show ?thesis
  proof (cases "ch = CHR 0x22")
    case True
    then have sp: "s = p" "q = ?sr" using un unescape_plain [of p "ch # q", OF plain] by auto
    have "peek b1 = (p @ [ch]) @ q" using pq by simp
    from consume_prefix [OF wf1 this] obtain b2 where c2: "consume (k + 1) b1 = (Ok (p @ [ch]), b2)"
      and p2: "peek b2 = ?sr" and e2: "buf_ext b1 b2" "buf_data b2 = buf_data b1" "buf_pos b2 = buf_pos b1 + k + 1"
      using sp lp by auto
    have "wf_buf b2" using e2 by (simp add: buf_ext_def)
    from separator_ok [OF this p2] obtain b3 where c3: "consume_field_separator ?comma b2 = (Ok (), b3)"
      and p3: "peek b3 = r" and e3: "buf_ext b2 b3" by blast
    have "take k (drop (buf_pos b1) (buf_data b2)) = p" using e2(2) by (simp add: p_def peek_def)
    then have "field_is b2 (Some (buf_pos b1, k)) (Some s)" using e2(3) sp by (simp add: field_is_def)
    moreover have "parse_field L ncols i b = (Ok (Some (buf_pos b1, k)), b3)"
      using start c1 f2 True c2 c3 by (auto simp: parse_field_def Let_def)
    ultimately show ?thesis using p3 field_is_ext [OF _ e3] buf_ext_trans [OF e1 buf_ext_trans [OF e2(1) e3]] by blast
  next
    case False
    have dk: "drop k (peek b1) = ch # q" using pq lp by (metis append_eq_conv_conj)
    obtain t where t: "unescape (ch # q) = Ok (t, ?sr)" "s = p @ t"
      using un unescape_plain [of p "ch # q", OF plain] by auto
    have "k \<le> length (peek b1)" using fk by simp
    note spec = convert_backslashes_spec [OF wf1 this]
    obtain res b2 where cb: "convert_backslashes k b1 = (res, b2)" by (metis surj_pair)
    from spec [unfolded cb] t obtain bs where rs: "res = Ok bs" and bs: "bs = p @ t" and p2: "peek b2 = ?sr"
      and b2: "buf_pos b1 + length bs < buf_pos b2" "wf_buf b2"
        "take (buf_pos b1) (buf_data b2) = take (buf_pos b1) (buf_data b1)"
        "range_of b2 (buf_pos b1) (length bs) = Ok bs"
      by (cases res) (auto simp: dk p_def)
    have e2: "buf_ext b1 b2" using b2 by (simp add: buf_ext_def)
    from separator_ok [OF b2(2) p2] obtain b3 where c3: "consume_field_separator ?comma b2 = (Ok (), b3)"
      and p3: "peek b3 = r" and e3: "buf_ext b2 b3" by blast
    have "field_is b2 (Some (buf_pos b1, length bs)) (Some s)"
      using b2 bs t(2) by (auto simp: field_is_def range_of_def split: if_splits)
    moreover have "parse_field L ncols i b = (Ok (Some (buf_pos b1, length bs)), b3)"
      using start c1 f2 False cb rs c3 by (auto simp: parse_field_def Let_def)
    ultimately show ?thesis using p3 field_is_ext [OF _ e3] buf_ext_trans [OF e1 buf_ext_trans [OF e2 e3]] by blast
  qed
qed

lemma parse_field_cell:
  assumes "wf_buf b" and "peek b = cell_text c @ sep_text (i + 1 < ncols) @ r" and "cell_ok c"
  shows "\<exists>f b'. parse_field L ncols i b = (Ok f, b') \<and> peek b' = r \<and> buf_ext b b' \<and> field_is b' f (cell_value c)"
proof (cases c)
  case Null
  then show ?thesis using parse_field_plain [OF assms(1), of "''NULL''"] assms(2) by simp
next
  case (Raw v)
  then show ?thesis using parse_field_plain [OF assms(1), of v] assms(2,3) by simp
next
  case (Quoted s)
  then show ?thesis using parse_field_quoted [OF assms(1)] assms(2) by simp
qed

lemma fields_loop_cells:
  assumes "wf_buf b" and "peek b = cells_text cells @ r" and "\<forall>c\<in>set cells. cell_ok c"
    and "i + length cells = ncols"
  shows "\<exists>fs b'. fields_loop L ncols i (length cells) b = (Ok fs, b') \<and> peek b' = r \<and> buf_ext b b'
     \<and> list_all2 (field_is b') fs (map cell_value cells)"
  using assms
proof (induction cells arbitrary: i b)
  case Nil
  then show ?case by (simp add: buf_ext_refl)
next
  case (Cons c cells)
  have comma: "(cells \<noteq> []) = (i + 1 < ncols)" using Cons.prems(4) by (cases cells) auto
  from parse_field_cell [OF Cons.prems(1), of c i ncols "cells_text cells @ r"] Cons.prems(2,3) obtain f b1
    where pf: "parse_field L ncols i b = (Ok f, b1)" "peek b1 = cells_text cells @ r" "buf_ext b b1"
      "field_is b1 f (cell_value c)" by (auto simp: comma)
  have wf1: "wf_buf b1" using pf(3) by (simp add: buf_ext_def)
  have "\<forall>c\<in>set cells. cell_ok c" "i + 1 + length cells = ncols" using Cons.prems(3,4) by auto
  from Cons.IH [OF wf1 pf(2) this] obtain fs b' where fl: "fields_loop L ncols (i + 1) (length cells) b1 = (Ok fs, b')"
    "peek b' = r" "buf_ext b1 b'" "list_all2 (field_is b') fs (map cell_value cells)" by blast
  then show ?case using pf field_is_ext [OF pf(4) fl(3)] buf_ext_trans [OF pf(3) fl(3)] by simp
qed

lemma parse_row_cells:
  assumes "wf_buf b" and "peek b = row_text cells @ r" and "\<forall>c\<in>set cells. cell_ok c"
  shows "\<exists>fs b'. parse_row L (length cells) (length cells) b = (Ok fs, b') \<and> peek b' = r \<and> buf_ext b b'
     \<and> list_all2 (field_is b') fs (map cell_value cells)"
proof -
  have "peek b = ''[ '' @ (cells_text cells @ [CHR '']'', CHR 0x0a] @ r)" using assms(2) by (simp add: row_text_def)
  from consume_prefix [OF assms(1) this] obtain b1 where c1: "consume 2 b = (Ok ''[ '', b1)"
    "peek b1 = cells_text cells @ [CHR '']'', CHR 0x0a] @ r" "buf_ext b b1" by (auto simp: numeral_2_eq_2)
  then have wf1: "wf_buf b1" by (simp add: buf_ext_def)
  from fields_loop_cells [OF wf1 c1(2) assms(3), of 0 "length cells"] obtain fs b2
    where fl: "fields_loop L (length cells) 0 (length cells) b1 = (Ok fs, b2)"
      "peek b2 = [CHR '']'', CHR 0x0a] @ r" "buf_ext b1 b2" "list_all2 (field_is b2) fs (map cell_value cells)" by auto
  then have wf2: "wf_buf b2" by (simp add: buf_ext_def)
  from consume_prefix [OF wf2 fl(2)] obtain b3 where c3: "consume 2 b2 = (Ok [CHR '']'', CHR 0x0a], b3)"
    "peek b3 = r" "buf_ext b2 b3" by (auto simp: numeral_2_eq_2)
  have pr: "parse_row L (length cells) (length cells) b = (Ok fs, b3)"
    using assms(2) c1 fl c3 by (simp add: parse_row_def row_text_def)
  have "list_all2 (field_is b3) fs (map cell_value cells)"
    using fl(4) field_is_ext [OF _ c3(3)] by (auto elim: list_all2_mono)
  with pr c3 show ?thesis using buf_ext_trans [OF c1(3) buf_ext_trans [OF fl(3) c3(3)]] by blast
qed

section \<open>Every input\<close>

text \<open>An operation on the buffer that ends with a value or an error and leaves the buffer well-formed.\<close>

lemma split_safe:
  assumes "wf_buf b"
  shows "case split L c b of
      (Ok v, b') \<Rightarrow> peek b = v @ c # peek b' \<and> buf_ext b b'
    | (Err e, b') \<Rightarrow> b' = b \<and> c \<notin> set (peek b)
    | _ \<Rightarrow> False"
proof (cases "find L c b")
  case None
  then have "c \<notin> set (peek b)" by (auto simp: find_def memchr_first first_index_None)
  with None show ?thesis by (simp add: split_def)
next
  case (Some k)
  then have fk: "k < length (peek b)" "peek b ! k = c" "\<forall>j<k. peek b ! j \<noteq> c"
    using first_index_Some by (auto simp: find_def memchr_first)
  have pk: "peek b = take k (peek b) @ c # drop (Suc k) (peek b)" using fk id_take_nth_drop by metis
  have "c \<notin> set (take k (peek b))" using fk by (auto simp: in_set_conv_nth)
  from split_ok [OF assms pk this] show ?thesis using pk by auto
qed

lemma separator_safe:
  assumes "wf_buf b"
  shows "case consume_field_separator comma b of
      (Ok _, b') \<Rightarrow> buf_ext b b' | (Err e, b') \<Rightarrow> b' = b | _ \<Rightarrow> False"
proof (cases "prefix (sep_text comma) (peek b)")
  case True
  then obtain r where "peek b = sep_text comma @ r" by (auto simp: prefix_def)
  from separator_ok [OF assms this] show ?thesis by auto
qed (auto simp: consume_field_separator_def sep_text_def Let_def)

lemma parse_field_safe:
  assumes wf: "wf_buf b"
  shows "case parse_field L ncols i b of
      (Ok f, b') \<Rightarrow> wf_buf b' | (Err e, b') \<Rightarrow> wf_buf b' | _ \<Rightarrow> False"
proof (cases "peek b")
  case Nil
  then show ?thesis using wf by (simp add: parse_field_def)
next
  case (Cons c cs)
  consider (close) "c = CHR '']''" | (quote) "c = CHR 0x22" | (plain) "c \<noteq> CHR '']''" "c \<noteq> CHR 0x22" by blast
  then show ?thesis
  proof cases
    case close
    then show ?thesis using wf Cons by (simp add: parse_field_def)
  next
    case plain
    then show ?thesis using Cons split_safe [OF wf, of "CHR 0x09"] wf
      by (auto simp: parse_field_def Let_def buf_ext_def split: prod.splits outcome.splits option.splits)
  next
    case quote
    let ?comma = "i + 1 < ncols"
    obtain b1 where c1: "consume 1 b = (Ok [c], b1)" "peek b1 = cs" "buf_ext b b1"
      using consume_prefix [OF wf, of "[c]" cs] Cons by auto
    then have wf1: "wf_buf b1" by (simp add: buf_ext_def)
    show ?thesis
    proof (cases "find2 L (CHR 0x22) (CHR 0x5c) b1")
      case None
      with quote Cons c1 wf1 show ?thesis by (simp add: parse_field_def Let_def)
    next
      case (Some kc)
      obtain k ch where kc: "kc = (k, ch)" by (cases kc)
      have k: "k < length (peek b1)"
        using Some kc first_index_Some by (auto simp: find2_def memchr2_first Let_def)
      show ?thesis
      proof (cases "ch = CHR 0x22")
        case True
        obtain b2 where c2: "consume (k + 1) b1 = (Ok (take (k + 1) (peek b1)), b2)" "buf_ext b1 b2"
          using consume_ok [OF wf1, of "k + 1"] buf_ext_advance [OF wf1, of "k + 1"] k by auto
        then have "wf_buf b2" by (simp add: buf_ext_def)
        from separator_safe [OF this, of ?comma] this show ?thesis
          using quote Cons c1 Some kc True c2
          by (auto simp: parse_field_def Let_def buf_ext_def split: prod.splits outcome.splits)
      next
        case False
        obtain res b2 where cb: "convert_backslashes k b1 = (res, b2)" by (metis surj_pair)
        have kl: "k \<le> length (peek b1)" using k by simp
        note spec = convert_backslashes_spec [OF wf1 kl, unfolded cb]
        show ?thesis
        proof (cases res)
          case (Ok bs)
          then have "wf_buf b2" using spec by auto
          from separator_safe [OF this, of ?comma] this show ?thesis
            using quote Cons c1 Some kc False cb Ok
            by (auto simp: parse_field_def Let_def buf_ext_def split: prod.splits outcome.splits)
        qed (use spec quote Cons c1 Some kc False cb in \<open>auto simp: parse_field_def Let_def\<close>)
      qed
    qed
  qed
qed

lemma fields_loop_safe:
  "wf_buf b \<Longrightarrow> case fields_loop L ncols i k b of
      (Ok fs, b') \<Rightarrow> wf_buf b' \<and> length fs = k | (Err e, b') \<Rightarrow> wf_buf b' | _ \<Rightarrow> False"
proof (induction k arbitrary: i b)
  case (Suc k)
  obtain res b1 where pf: "parse_field L ncols i b = (res, b1)" by (metis surj_pair)
  note safe = parse_field_safe [OF Suc.prems, of ncols i, unfolded pf]
  show ?case
  proof (cases res)
    case (Ok f)
    with safe have "wf_buf b1" by simp
    from Suc.IH [OF this, of "i + 1"] pf Ok show ?thesis by (auto split: prod.splits outcome.splits)
  qed (use safe pf in auto)
qed simp

lemma parse_row_safe:
  assumes wf: "wf_buf b"
  shows "case parse_row L ncols k b of
      (Ok fs, b') \<Rightarrow> wf_buf b' \<and> length fs = k | (Err e, b') \<Rightarrow> wf_buf b' | _ \<Rightarrow> False"
proof (cases "length (peek b) < 2 \<or> \<not> starts_with (peek b) ''[ ''")
  case True
  then show ?thesis using wf by (auto simp: parse_row_def)
next
  case False
  then obtain b1 where c1: "consume 2 b = (Ok (take 2 (peek b)), b1)" "buf_ext b b1"
    using consume_ok [OF wf, of 2] buf_ext_advance [OF wf, of 2] by auto
  then have wf1: "wf_buf b1" by (simp add: buf_ext_def)
  obtain res b2 where fl: "fields_loop L ncols 0 k b1 = (res, b2)" by (metis surj_pair)
  note safe = fields_loop_safe [where ncols = ncols and i = 0 and k = k, OF wf1, unfolded fl]
  show ?thesis
  proof (cases res)
    case (Ok fs)
    then have wf2: "wf_buf b2" and len: "length fs = k" using safe by auto
    show ?thesis
    proof (cases "length (peek b2) < 2 \<or> \<not> starts_with (peek b2) [CHR '']'', CHR 0x0a]")
      case True
      then show ?thesis using False c1 fl Ok wf2 by (auto simp: parse_row_def)
    next
      case F2: False
      then obtain b3 where "consume 2 b2 = (Ok (take 2 (peek b2)), b3)" "buf_ext b2 b3"
        using consume_ok [OF wf2, of 2] buf_ext_advance [OF wf2, of 2] by auto
      then show ?thesis using False F2 c1 fl Ok len by (auto simp: parse_row_def buf_ext_def)
    qed
  qed (use safe False c1 fl in \<open>auto simp: parse_row_def\<close>)
qed

end

text \<open>What holds of a row set between calls. A row set of unsliced lines loses its field only when an
  incomplete line is met, and then no complete line can follow.\<close>

definition wf_rowset :: "RowSet \<Rightarrow> bool" where
  "wf_rowset rs \<longleftrightarrow> wf_buf (rs_buf rs)
     \<and> (rs_noslice rs \<longrightarrow> length (rs_fields rs) = 1 \<or> rs_fields rs = [] \<and> CHR 0x0a \<notin> set (peek (rs_buf rs)))"

lemma wf_rowset_new: "wf_buf b \<Longrightarrow> wf_rowset (RowSet_new b n)" "wf_buf b \<Longrightarrow> wf_rowset (RowSet_new_noslice b)"
  by (simp_all add: wf_rowset_def RowSet_new_def RowSet_new_noslice_def)

context byte_search
begin

lemma advance_noslice_safe:
  assumes wf: "wf_rowset rs" and ns: "rs_noslice rs"
  shows "case advance L rs of (Ok _, rs') \<Rightarrow> wf_rowset rs' | (Err e, rs') \<Rightarrow> wf_rowset rs' | _ \<Rightarrow> False"
proof (cases "starts_with (peek (rs_buf rs)) ''=''")
  case False
  then show ?thesis using wf ns by (auto simp: advance_def do_advance_def wf_rowset_def)
next
  case True
  let ?b = "rs_buf rs"
  have wfb: "wf_buf ?b" using wf by (simp add: wf_rowset_def)
  obtain cs where cs: "peek ?b = [CHR ''=''] @ cs" using True by (auto simp: prefix_def)
  from consume_prefix [OF wfb cs] obtain b1 where c1: "consume 1 ?b = (Ok [CHR ''=''], b1)" "peek b1 = cs" "buf_ext ?b b1"
    by auto
  then have wf1: "wf_buf b1" by (simp add: buf_ext_def)
  obtain res b2 where sp: "split L (CHR 0x0a) b1 = (res, b2)" by (metis surj_pair)
  note safe = split_safe [OF wf1, of "CHR 0x0a", unfolded sp]
  show ?thesis
  proof (cases res)
    case (Ok v)
    then have "CHR 0x0a \<in> set (peek ?b)" and wf2: "wf_buf b2"
      using safe c1 cs by (auto simp: buf_ext_def)
    then have len: "length (rs_fields rs) = 1" using wf ns by (auto simp: wf_rowset_def)
    then have "rs_fields rs \<noteq> []" by auto
    then have "advance L rs = (Ok True, rs\<lparr>rs_buf := b2, rs_fields := (rs_fields rs)[0 := Some (buf_pos b1, length v)]\<rparr>)"
      using ns True c1 sp Ok by (simp add: advance_def do_advance_def Let_def)
    with len wf2 show ?thesis by (simp add: wf_rowset_def)
  next
    case (Err e)
    then have "advance L rs = (Err e, rs\<lparr>rs_buf := b2, rs_fields := []\<rparr>)"
      using ns True c1 sp by (simp add: advance_def do_advance_def Let_def)
    with safe Err wf1 show ?thesis by (simp add: wf_rowset_def)
  qed (use safe in auto)
qed

lemma advance_safe:
  assumes wf: "wf_rowset rs"
  shows "case advance L rs of (Ok _, rs') \<Rightarrow> wf_rowset rs' | (Err e, rs') \<Rightarrow> wf_rowset rs' | _ \<Rightarrow> False"
proof (cases "rs_noslice rs")
  case True
  then show ?thesis by (rule advance_noslice_safe [OF wf])
next
  case False
  have wfb: "wf_buf (rs_buf rs)" using wf by (simp add: wf_rowset_def)
  obtain res b where pr: "parse_row L (rs_ncols rs) (length (rs_fields rs)) (rs_buf rs) = (res, b)" by (metis surj_pair)
  note safe = parse_row_safe [where ncols = "rs_ncols rs" and k = "length (rs_fields rs)", OF wfb, unfolded pr]
  show ?thesis
    using False wf safe pr by (cases res) (auto simp: advance_def do_advance_def wf_rowset_def)
qed

text \<open>A buffer that starts like a row gives a row or an error, never the end of the rows.\<close>

lemma advance_pending:
  assumes "\<not> rs_noslice rs" and "has_pending_row rs"
  shows "advance L rs = (r, rs') \<Longrightarrow> r \<noteq> Ok False"
  using assms by (auto simp: advance_def do_advance_def has_pending_row_def split: prod.splits outcome.splits)

end

section \<open>Properties\<close>

text \<open>A rendered row, field by field.\<close>

lemma advance_row:
  assumes "byte_search L" and "wf_buf (rs_buf rs)" and "\<not> rs_noslice rs"
    and "rs_ncols rs = length cells" and "length (rs_fields rs) = length cells"
    and "peek (rs_buf rs) = row_text cells @ rest" and "\<forall>c\<in>set cells. cell_ok c"
  obtains b fs where "advance L rs = (Ok True, rs\<lparr>rs_buf := b, rs_fields := fs\<rparr>)" "wf_buf b" "peek b = rest" "length fs = length cells"
    "\<And>i. i < length cells \<Longrightarrow> get_field_raw (rs\<lparr>rs_buf := b, rs_fields := fs\<rparr>) i = Ok (cell_value (cells ! i))"
proof -
  from byte_search.parse_row_cells [OF assms(1,2,6,7)] obtain fs b
    where pr: "parse_row L (length cells) (length cells) (rs_buf rs) = (Ok fs, b)" "peek b = rest"
      "buf_ext (rs_buf rs) b" "list_all2 (field_is b) fs (map cell_value cells)" by blast
  have len: "length fs = length cells" using pr(4) by (auto dest: list_all2_lengthD)
  have wf: "wf_buf b" using pr(3) by (simp add: buf_ext_def)
  have "advance L rs = (Ok True, rs\<lparr>rs_buf := b, rs_fields := fs\<rparr>)"
    using pr(1) assms(3-6) by (simp add: advance_def do_advance_def row_text_def)
  moreover have "get_field_raw (rs\<lparr>rs_buf := b, rs_fields := fs\<rparr>) i = Ok (cell_value (cells ! i))" if "i < length cells" for i
  proof -
    have "field_is b (fs ! i) (cell_value (cells ! i))"
      using list_all2_nthD [OF pr(4), of i] that len by simp
    with field_is_range [OF wf] that len show ?thesis
      by (cases "fs ! i") (auto simp: get_field_raw_def field_is_def)
  qed
  ultimately show thesis using that wf pr(2) len by blast
qed

text \<open>C8. Advancing over a row the server rendered returns true, leaves the buffer at what follows the row, and
  makes every field readable with exactly the value of its cell: NULL as none, unquoted text as it
  is, quoted text with its escapes decoded. A column beyond the row is reported as out of bounds.\<close>

theorem advance_reads_row:
  assumes "byte_search L" and "wf_buf (rs_buf rs)" and "\<not> rs_noslice rs"
    and "rs_ncols rs = length cells" and "length (rs_fields rs) = length cells"
    and "peek (rs_buf rs) = row_text cells @ rest" and "\<forall>c\<in>set cells. cell_ok c"
  shows "\<exists>rs'. advance L rs = (Ok True, rs') \<and> peek (rs_buf rs') = rest
     \<and> map (get_field_raw rs') [0..<length cells] = map (Ok \<circ> cell_value) cells
     \<and> get_field_raw rs' (length cells) = Err (ColumnIndexOutOfBounds (length cells) (length cells))"
proof -
  obtain b fs where r: "advance L rs = (Ok True, rs\<lparr>rs_buf := b, rs_fields := fs\<rparr>)" "wf_buf b" "peek b = rest" "length fs = length cells"
      "\<And>i. i < length cells \<Longrightarrow> get_field_raw (rs\<lparr>rs_buf := b, rs_fields := fs\<rparr>) i = Ok (cell_value (cells ! i))"
    by (rule advance_row [OF assms]) (rule that, assumption+)
  then have "map (get_field_raw (rs\<lparr>rs_buf := b, rs_fields := fs\<rparr>)) [0..<length cells] = map (Ok \<circ> cell_value) cells"
    by (intro nth_equalityI) simp_all
  with r show ?thesis by (auto simp: get_field_raw_def)
qed

definition example_rows :: RowSet where
  "example_rows = RowSet_new (ReplyBuf_new (row_text [Raw ''42'', Null, Quoted [CHR ''a'', CHR 0x22, CHR 0xe4]] @ ''&3'')) 3"

theorem advance_reads_row_witness:
  "\<exists>rs'. advance ref_libs example_rows = (Ok True, rs') \<and> peek (rs_buf rs') = ''&3''
     \<and> map (get_field_raw rs') [0..<length [Raw ''42'', Null, Quoted [CHR ''a'', CHR 0x22, CHR 0xe4]]]
         = map (Ok \<circ> cell_value) [Raw ''42'', Null, Quoted [CHR ''a'', CHR 0x22, CHR 0xe4]]
     \<and> get_field_raw rs' (length [Raw ''42'', Null, Quoted [CHR ''a'', CHR 0x22, CHR 0xe4]])
         = Err (ColumnIndexOutOfBounds (length [Raw ''42'', Null, Quoted [CHR ''a'', CHR 0x22, CHR 0xe4]])
             (length [Raw ''42'', Null, Quoted [CHR ''a'', CHR 0x22, CHR 0xe4]]))"
  by (rule advance_reads_row [OF ref_libs.byte_search_axioms])
     (simp_all add: example_rows_def RowSet_new_def ReplyBuf_new_def peek_def wf_buf_def row_text_def escape_def
       escape_byte_def sep_text_def)

text \<open>C17. On every reply, however malformed, advancing ends with a row, the end of the rows or an error: it never
  panics and never reads outside the reply, and the row set it leaves behind can be advanced again.\<close>

theorem advance_never_panics:
  assumes "byte_search L" and "wf_rowset rs"
  shows "returns (fst (advance L rs)) \<and> wf_rowset (snd (advance L rs))"
  using byte_search.advance_safe [OF assms] by (auto split: prod.splits outcome.splits)

theorem advance_never_panics_witness:
  "returns (fst (advance ref_libs (RowSet_new_noslice (ReplyBuf_new ''=abc''))))
     \<and> wf_rowset (snd (advance ref_libs (RowSet_new_noslice (ReplyBuf_new ''=abc''))))"
  by (rule advance_never_panics [OF ref_libs.byte_search_axioms])
     (simp add: wf_rowset_def RowSet_new_noslice_def ReplyBuf_new_def wf_buf_def)

end
