(* ===== verification/Monet_Types.thy ===== *)
theory Monet_Types
  imports Mapi_Prelude
begin

text \<open>
  The SQL types of result columns, \<open>src/monettypes.rs\<close>: their names in the protocol
  (\<open>from_mapi_code\<close>) and in messages (\<open>Display\<close>). The constructor \<open>Int\<close> is \<open>Int32\<close> here.
\<close>

datatype MonetType = Bool | TinyInt | SmallInt | Int32 | BigInt | HugeInt | Oid
  | Decimal nat nat | Varchar nat | Real | Double | MonthInterval | DayInterval | SecInterval
  | Time | TimeTz | Date | Timestamp | TimestampTz | Blob | Url | Inet | Inet4 | Inet6
  | Json | Uuid | Geometry | Xml

fun MonetType_fmt :: "MonetType \<Rightarrow> bytes" where
  "MonetType_fmt Bool = ''BOOL''"
| "MonetType_fmt TinyInt = ''TINYINT''"
| "MonetType_fmt SmallInt = ''SMALLINT''"
| "MonetType_fmt Int32 = ''INT''"
| "MonetType_fmt BigInt = ''BIGINT''"
| "MonetType_fmt HugeInt = ''HUGEINT''"
| "MonetType_fmt Oid = ''OID''"
| "MonetType_fmt (Decimal p s) = ''DECIMAL('' @ show_nat p @ '', '' @ show_nat s @ '')''"
| "MonetType_fmt (Varchar n) = ''VARCHAR('' @ show_nat n @ '')''"
| "MonetType_fmt Real = ''REAL''"
| "MonetType_fmt Double = ''DOUBLE''"
| "MonetType_fmt MonthInterval = ''MONTH_INTERVAL''"
| "MonetType_fmt DayInterval = ''DAY_INTERVAL''"
| "MonetType_fmt SecInterval = ''SEC_INTERVAL''"
| "MonetType_fmt Time = ''TIME''"
| "MonetType_fmt TimeTz = ''TIMETZ''"
| "MonetType_fmt Date = ''DATE''"
| "MonetType_fmt Timestamp = ''TIMESTAMP''"
| "MonetType_fmt TimestampTz = ''TIMESTAMPTZ''"
| "MonetType_fmt Blob = ''BLOB''"
| "MonetType_fmt Url = ''URL''"
| "MonetType_fmt Inet = ''INET''"
| "MonetType_fmt Inet4 = ''INET4''"
| "MonetType_fmt Inet6 = ''INET6''"
| "MonetType_fmt Json = ''JSON''"
| "MonetType_fmt Uuid = ''UUID''"
| "MonetType_fmt Geometry = ''GEOMETRY''"
| "MonetType_fmt Xml = ''XML''"

text \<open>The match of \<open>from_mapi_code\<close>, arm by arm.\<close>

definition mapi_codes :: "(bytes \<times> MonetType) list" where
  "mapi_codes = [(''boolean'', Bool), (''tinyint'', TinyInt), (''smallint'', SmallInt), (''int'', Int32),
     (''bigint'', BigInt), (''hugeint'', HugeInt), (''oid'', Oid),
     (''char'', Varchar 0), (''clob'', Varchar 0), (''str'', Varchar 0), (''varchar'', Varchar 0),
     (''decimal'', Decimal 0 0), (''real'', Real), (''double'', Double),
     (''month_interval'', MonthInterval), (''day_interval'', DayInterval), (''sec_interval'', SecInterval),
     (''time'', Time), (''timetz'', TimeTz), (''date'', Date), (''timestamp'', Timestamp),
     (''timestamptz'', TimestampTz), (''blob'', Blob), (''url'', Url), (''inet'', Inet),
     (''inet4'', Inet4), (''inet6'', Inet6), (''json'', Json), (''uuid'', Uuid),
     (''geometry'', Geometry), (''xml'', Xml)]"

definition from_mapi_code :: "bytes \<Rightarrow> MonetType option" where
  "from_mapi_code code = map_of mapi_codes code"

text \<open>Every type is reachable from some code, with its parameters at the dummy value.\<close>

fun blank_params :: "MonetType \<Rightarrow> MonetType" where
  "blank_params (Decimal p s) = Decimal 0 0"
| "blank_params (Varchar n) = Varchar 0"
| "blank_params t = t"

lemma from_mapi_code_blank: "from_mapi_code c = Some t \<Longrightarrow> blank_params t = t"
  by (auto simp: from_mapi_code_def mapi_codes_def split: if_splits)

lemma from_mapi_code_surj: "\<exists>c. from_mapi_code c = Some (blank_params t)"
proof -
  have "blank_params t \<in> set (map snd mapi_codes)" by (cases t) (simp_all add: mapi_codes_def)
  then obtain c where "(c, blank_params t) \<in> set mapi_codes" by auto
  moreover have "distinct (map fst mapi_codes)" by (simp add: mapi_codes_def)
  ultimately show ?thesis by (auto simp: from_mapi_code_def intro!: exI [of _ c])
qed

end
