(* ===== verification/Reply_Parser.thy ===== *)
theory Reply_Parser
  imports Row_Set Monet_Types
begin

text \<open>
  Replies, the rest of \<open>src/cursor/replies.rs\<close>: the scan of a response for errors and for the
  autocommit state, the \<open>ReplyParser\<close> that cuts a response into replies, and the metadata of result
  columns.

  The parser takes a response by value and returns the next state; the state is a datatype with the
  constructors of the enum. A header's fields are parsed into a list of the length of the source's
  array; an error leaves the array to be dropped by the caller, so the model only returns it on success.
  Memory for the columns is assumed to be available. \<open>wf_parser\<close> is the invariant every reply satisfies.
\<close>

section \<open>Model of the code: scanning a response\<close>

definition parse_autocommit_line :: "bytes \<Rightarrow> bool option" where
  "parse_autocommit_line line = (case strip_prefix line ''&4'' of
       None \<Rightarrow> None
     | Some rest \<Rightarrow> (case rest of
         [] \<Rightarrow> None
       | c # _ \<Rightarrow> if \<not> is_ascii_whitespace c then None
           else (case List.find (\<lambda>field. field \<noteq> []) (split_by is_ascii_whitespace rest) of
               None \<Rightarrow> None
             | Some flag \<Rightarrow> if flag = ''t'' then Some True else if flag = ''f'' then Some False else None)))"

definition last_opt :: "'a list \<Rightarrow> 'a option" where
  "last_opt xs = (if xs = [] then None else Some (last xs))"

definition response_autocommit :: "libs \<Rightarrow> bytes \<Rightarrow> bool option" where
  "response_autocommit L response =
     (if \<not> starts_with response ''&4'' \<and> memmem_find L response (CHR 0x0a # ''&4'') = None then None
      else last_opt (List.map_filter parse_autocommit_line (split_on (CHR 0x0a) response)))"

fun push_messages :: "bytes \<Rightarrow> bytes list \<Rightarrow> bytes" where
  "push_messages result [] = result"
| "push_messages result (m # ms) = push_messages (result @ [CHR 0x0a] @ from_utf8_lossy m) ms"

definition server_error :: "libs \<Rightarrow> bytes \<Rightarrow> ServerError option" where
  "server_error L response =
     (if \<not> starts_with response ''!'' \<and> memmem_find L response (CHR 0x0a # ''!'') = None then None
      else case List.map_filter (\<lambda>line. strip_prefix line ''!'') (split_on (CHR 0x0a) response) of
          [] \<Rightarrow> None
        | first # messages \<Rightarrow>
            Some (ServerError_from_wire (push_messages (from_utf8_lossy first) messages)))"

section \<open>Model of the code: columns\<close>

record ResultColumn =
  col_table_name :: bytes
  col_name :: bytes
  col_typ :: MonetType

definition ResultColumn_new :: "bytes \<Rightarrow> MonetType \<Rightarrow> ResultColumn" where
  "ResultColumn_new name typ = \<lparr>col_table_name = [], col_name = name, col_typ = typ\<rparr>"

definition ResultColumn_empty :: ResultColumn where
  "ResultColumn_empty = ResultColumn_new [] Bool"

text \<open>The loop over the characters between the quotes. Quote and backslash are ASCII, so the bytes of
  the other characters are copied one by one.\<close>

fun decode_name_loop :: "bytes \<Rightarrow> (bytes, BadReply) outcome" where
  "decode_name_loop [] = Ok []"
| "decode_name_loop (c # cs) =
     (if c \<noteq> CHR 0x5c then bindR (decode_name_loop cs) (\<lambda>d. Ok (c # d))
      else case cs of
          escaped # cs' \<Rightarrow>
            if escaped = CHR 0x22 \<or> escaped = CHR 0x5c
            then bindR (decode_name_loop cs') (\<lambda>d. Ok (escaped # d))
            else Err InvalidQuotedIdentifier
        | [] \<Rightarrow> Err InvalidQuotedIdentifier)"

definition decode_column_name :: "bytes \<Rightarrow> (bytes, BadReply) outcome" where
  "decode_column_name rendered =
     (if \<not> starts_with rendered [CHR 0x22] then Ok rendered
      else case Option.bind (strip_prefix rendered [CHR 0x22]) (\<lambda>v. strip_suffix v [CHR 0x22]) of
          None \<Rightarrow> Err InvalidQuotedIdentifier
        | Some inner \<Rightarrow> decode_name_loop inner)"

section \<open>Model of the code: headers\<close>

fun header_items :: "(bytes \<Rightarrow> ('v, 'x) outcome) \<Rightarrow> bytes \<Rightarrow> nat \<Rightarrow> nat \<Rightarrow> bytes list \<Rightarrow> nat
    \<Rightarrow> ('v list, BadReply) outcome" where
  "header_items parse line n i parts 0 = Ok []"
| "header_items parse line n i [] (Suc k) =
     Err (InvalidHeader (''not enough header items, expected '' @ show_nat n @ '': '' @ line))"
| "header_items parse line n i (p # parts) (Suc k) = (case parse p of
       Ok v \<Rightarrow> bindR (header_items parse line n (i + 1) parts k) (\<lambda>vs. Ok (v # vs))
     | Err _ \<Rightarrow> Err (InvalidHeader (''cannot parse header item '' @ show_nat i @ '': '' @ line))
     | Panic \<Rightarrow> Panic | NoFuel \<Rightarrow> NoFuel)"

definition parse_header_line :: "(bytes \<Rightarrow> ('v, 'x) outcome) \<Rightarrow> nat \<Rightarrow> bytes \<Rightarrow> ('v list, BadReply) outcome" where
  "parse_header_line parse n line =
     (if length line < 3 \<or> line ! 0 \<noteq> CHR ''&'' \<or> \<not> is_ascii_digit (line ! 1) \<or> line ! 2 \<noteq> CHR '' ''
      then Err (InvalidHeader (''expected '' @ [CHR 0x27] @ ''&<digit> '' @ [CHR 0x27] @ '' prefix: '' @ line))
      else header_items parse line n 0 (split_on (CHR '' '') (drop 3 line)) n)"

definition parse_header ::
  "libs \<Rightarrow> (bytes \<Rightarrow> ('v, 'x) outcome) \<Rightarrow> nat \<Rightarrow> ReplyBuf \<Rightarrow> ('v list, BadReply) outcome \<times> ReplyBuf" where
  "parse_header L parse n buf =
     bindS (split_str L (CHR 0x0a) ''header line'' buf) (\<lambda>line buf.
       (parse_header_line parse n (trim_ascii line), buf))"

definition parse_export_header ::
  "libs \<Rightarrow> (bytes \<Rightarrow> ('v, 'x) outcome) \<Rightarrow> nat \<Rightarrow> ReplyBuf \<Rightarrow> ('v list, BadReply) outcome \<times> ReplyBuf" where
  "parse_export_header L parse n buf =
     bindS (split_str L (CHR 0x0a) ''header line'' buf) (\<lambda>line buf.
       let line = trim_ascii line in
       if \<not> starts_with line ''&6 ''
       then (Err (InvalidHeader (''expected '' @ [CHR 0x27] @ ''&6 '' @ [CHR 0x27] @ '' prefix: '' @ line)), buf)
       else (parse_header_line parse n line, buf))"

text \<open>The integer parsers of the header fields.\<close>

definition parse_u64 :: "bytes \<Rightarrow> (nat, parse_int_error) outcome" where
  "parse_u64 s = bindR (parse_int 0 18446744073709551615 s) (\<lambda>v. Ok (nat v))"

definition parse_u32 :: "bytes \<Rightarrow> (nat, parse_int_error) outcome" where
  "parse_u32 s = bindR (parse_int 0 4294967295 s) (\<lambda>v. Ok (nat v))"

definition parse_u8 :: "bytes \<Rightarrow> (nat, parse_int_error) outcome" where
  "parse_u8 s = bindR (parse_int 0 255 s) (\<lambda>v. Ok (nat v))"

definition parse_i64 :: "bytes \<Rightarrow> (int, parse_int_error) outcome" where
  "parse_i64 s = parse_int (- 9223372036854775808) 9223372036854775807 s"

text \<open>\<open>ParseIntError\<close> as text, for unsigned types.\<close>

fun show_parse_error :: "parse_int_error \<Rightarrow> bytes" where
  "show_parse_error PE_Empty = ''cannot parse integer from empty string''"
| "show_parse_error PE_InvalidDigit = ''invalid digit found in string''"
| "show_parse_error PE_Overflow = ''number too large to fit in target type''"

type_synonym ResultColumnUpdater = "ResultColumn \<Rightarrow> bytes \<Rightarrow> (ResultColumn, bytes) outcome"

fun update_columns :: "ResultColumnUpdater \<Rightarrow> nat \<Rightarrow> bytes list \<Rightarrow> ResultColumn list
    \<Rightarrow> (ResultColumn list, BadReply) outcome" where
  "update_columns f i [] [] = Ok []"
| "update_columns f i [] (col # cols) = Err (InvalidHeader ''too few columns in data header'')"
| "update_columns f i (part # parts) [] = Err (InvalidHeader ''too many columns in data header'')"
| "update_columns f i (part # parts) (col # cols) = (case f col part of
       Ok col' \<Rightarrow> bindR (update_columns f (i + 1) parts cols) (\<lambda>cols'. Ok (col' # cols'))
     | Err e \<Rightarrow> Err (InvalidHeader (''col '' @ show_nat i @ '': '' @ e))
     | Panic \<Rightarrow> Panic | NoFuel \<Rightarrow> NoFuel)"

definition header_body :: "bytes \<Rightarrow> bytes \<Rightarrow> (bytes, BadReply) outcome" where
  "header_body expected_kind line = (case strip_prefix line ''% '' of
       None \<Rightarrow> Err (UnexpectedHeader line)
     | Some line \<Rightarrow> (case split_once '' # '' line of
         None \<Rightarrow> Err (InvalidHeader (''expected '' @ [CHR 0x27] @ ''# '' @ [CHR 0x27] @ '' in data header''))
       | Some (body, kind) \<Rightarrow>
           if kind \<noteq> expected_kind
           then Err (InvalidHeader (''expected '' @ [CHR 0x27] @ expected_kind @ [CHR 0x27]
                  @ '' header, found '' @ kind))
           else Ok body))"

definition parse_data_header :: "libs \<Rightarrow> bytes \<Rightarrow> ResultColumnUpdater \<Rightarrow> ResultColumn list \<Rightarrow> ReplyBuf
    \<Rightarrow> (ResultColumn list, BadReply) outcome \<times> ReplyBuf" where
  "parse_data_header L expected_kind f columns buf =
     bindS (split L (CHR 0x0a) buf) (\<lambda>line buf.
       (bindR (from_utf8 ''data header line'' line) (\<lambda>line.
        bindR (header_body expected_kind line) (\<lambda>body.
          update_columns f 0 (Mapi_Prelude.split_str [CHR '','', CHR 0x09] body) columns)), buf))"

definition set_table_name :: ResultColumnUpdater where
  "set_table_name col s = Ok (col\<lparr>col_table_name := col_table_name col @ s\<rparr>)"

definition set_name :: ResultColumnUpdater where
  "set_name col s = (case decode_column_name s of
       Ok d \<Rightarrow> Ok (col\<lparr>col_name := col_name col @ d\<rparr>)
     | Err _ \<Rightarrow> Err ''invalid quoted identifier in result metadata''
     | Panic \<Rightarrow> Panic | NoFuel \<Rightarrow> NoFuel)"

definition set_type :: ResultColumnUpdater where
  "set_type col s = (case from_mapi_code s of
       None \<Rightarrow> Err (''unknown column type: '' @ s)
     | Some typ \<Rightarrow> Ok (col\<lparr>col_typ := typ\<rparr>))"

definition set_length :: ResultColumnUpdater where
  "set_length col s = (case col_typ col of
       Varchar _ \<Rightarrow> bindR (map_err show_parse_error (parse_u32 s)) (\<lambda>n. Ok (col\<lparr>col_typ := Varchar n\<rparr>))
     | _ \<Rightarrow> Ok col)"

definition set_typesizes :: ResultColumnUpdater where
  "set_typesizes col s = (case col_typ col of
       Decimal _ _ \<Rightarrow> (case split_once '' '' s of
           None \<Rightarrow> Err ''expect typesizes to be PRECISION <space> SCALE''
         | Some (pr, sc) \<Rightarrow>
             bindR (map_err show_parse_error (parse_u8 pr)) (\<lambda>precision.
             bindR (map_err show_parse_error (parse_u8 sc)) (\<lambda>scale.
               Ok (col\<lparr>col_typ := Decimal precision scale\<rparr>))))
     | _ \<Rightarrow> Ok col)"

section \<open>Model of the code: replies\<close>

record ResultSet =
  res_id :: nat
  res_prepared :: bool
  res_next_row :: nat
  res_total_rows :: nat
  res_rows_included :: nat
  res_columns :: "ResultColumn list"
  res_row_set :: RowSet
  res_stashed :: "RowSet option"
  res_to_close :: "nat option"

datatype ReplyParser =
    Exhausted bytes
  | Error ReplyBuf
  | Success ReplyBuf "int option"
  | Data ResultSet
  | Tx ReplyBuf

definition raw_value :: "ResultSet \<Rightarrow> nat \<Rightarrow> (bytes option, CursorError) outcome" where
  "raw_value rs column = map_err Bad (get_field_raw (res_row_set rs) column)"

definition ReplyParser_default :: ReplyParser where
  "ReplyParser_default = Exhausted []"

definition take_buffer :: "ReplyParser \<Rightarrow> (bytes, 'e) outcome \<times> ReplyParser" where
  "take_buffer p = (case p of Exhausted vec \<Rightarrow> (Ok vec, Exhausted []) | _ \<Rightarrow> (Panic, p))"

definition affected_rows :: "ReplyParser \<Rightarrow> int option" where
  "affected_rows p = (case p of
       Success buf affected \<Rightarrow> affected
     | Data rs \<Rightarrow> if int (res_total_rows rs) \<le> 9223372036854775807 then Some (int (res_total_rows rs)) else None
     | _ \<Rightarrow> None)"

definition at_result_set :: "ReplyParser \<Rightarrow> bool" where
  "at_result_set p = (case p of Data _ \<Rightarrow> True | _ \<Rightarrow> False)"

definition parse_successful_update :: "libs \<Rightarrow> ReplyBuf \<Rightarrow> (ReplyParser, BadReply) outcome" where
  "parse_successful_update L buf = (case parse_header L parse_i64 1 buf of
       (res, buf) \<Rightarrow> bindR res (\<lambda>fs. Ok (Success buf (Some (fs ! 0)))))"

definition parse_successful_other :: "libs \<Rightarrow> ReplyBuf \<Rightarrow> (ReplyParser, BadReply) outcome" where
  "parse_successful_other L buf = (case parse_header L parse_i64 0 buf of
       (res, buf) \<Rightarrow> bindR res (\<lambda>_. Ok (Success buf None)))"

definition parse_ok :: "libs \<Rightarrow> ReplyBuf \<Rightarrow> (ReplyParser, BadReply) outcome" where
  "parse_ok L buf = (case split_str L (CHR 0x0a) ''success line'' buf of
       (res, buf) \<Rightarrow> bindR res (\<lambda>line.
         if line \<noteq> ''=OK'' then Err (InvalidHeader (''expected '' @ [CHR 0x27] @ ''=OK'' @ [CHR 0x27] @ '': '' @ line))
         else Ok (Success buf None)))"

definition parse_noslice :: "libs \<Rightarrow> ReplyBuf \<Rightarrow> (ReplyParser, BadReply) outcome" where
  "parse_noslice L buf = (let rows = length (takeWhile (\<lambda>line. starts_with line ''='') (bstr_lines L (peek buf)))
     in Ok (Data \<lparr>res_id = 0, res_prepared = False, res_next_row = 0, res_total_rows = rows,
          res_rows_included = rows, res_columns = [ResultColumn_new ''rel'' (Varchar 0)],
          res_row_set = RowSet_new_noslice buf, res_stashed = None, res_to_close = None\<rparr>))"

definition parse_autocommit_status :: "libs \<Rightarrow> ReplyBuf \<Rightarrow> (ReplyParser, BadReply) outcome" where
  "parse_autocommit_status L buf = (case split_str L (CHR 0x0a) ''header line'' buf of
       (res, buf) \<Rightarrow> bindR res (\<lambda>line. let line = trim_ascii line in
         if parse_autocommit_line line = None then Err (InvalidHeader (''invalid autocommit header: '' @ line))
         else Ok (Tx buf)))"

definition parse_error :: "libs \<Rightarrow> ReplyBuf \<Rightarrow> (ReplyParser, BadReply) outcome" where
  "parse_error L buf = (case split_str L (CHR 0x0a) ''error header'' buf of
       (res, buf) \<Rightarrow> bindR res (\<lambda>_. Ok (Error buf)))"

text \<open>The five metadata lines of a result set; the last is absent before \<open>=\<close> rows.\<close>

definition parse_columns :: "libs \<Rightarrow> ResultColumn list \<Rightarrow> ReplyBuf
    \<Rightarrow> (ResultColumn list, BadReply) outcome \<times> ReplyBuf" where
  "parse_columns L columns buf =
     bindS (parse_data_header L ''table_name'' set_table_name columns buf) (\<lambda>columns buf.
     bindS (parse_data_header L ''name'' set_name columns buf) (\<lambda>columns buf.
     bindS (parse_data_header L ''type'' set_type columns buf) (\<lambda>columns buf.
     bindS (parse_data_header L ''length'' set_length columns buf) (\<lambda>columns buf.
       if \<not> starts_with (peek buf) ''='' then parse_data_header L ''typesizes'' set_typesizes columns buf
       else (Ok columns, buf)))))"

definition saturating_mul :: "nat \<Rightarrow> nat \<Rightarrow> nat" where
  "saturating_mul a b = min usize_max (a * b)"

text \<open>The metadata and the start of the rows, once the header has been checked.\<close>

definition parse_data_body :: "libs \<Rightarrow> bool \<Rightarrow> nat \<Rightarrow> nat \<Rightarrow> nat \<Rightarrow> nat \<Rightarrow> ReplyBuf \<Rightarrow> (ReplyParser, BadReply) outcome" where
  "parse_data_body L prepared result_id rows_total ncols rows_included buf =
     (let to_close = (if \<not> prepared \<and> rows_included < rows_total then Some result_id else None) in
      case parse_columns L (replicate ncols ResultColumn_empty) buf of
        (res, buf) \<Rightarrow> bindR res (\<lambda>columns.
          let row_set = (if starts_with (peek buf) ''='' then RowSet_new_noslice buf
                         else RowSet_new buf (length columns))
          in Ok (Data \<lparr>res_id = result_id, res_prepared = prepared, res_next_row = 0,
               res_total_rows = rows_total, res_rows_included = rows_included, res_columns = columns,
               res_row_set = row_set, res_stashed = None, res_to_close = to_close\<rparr>)))"

definition parse_data :: "libs \<Rightarrow> bool \<Rightarrow> ReplyBuf \<Rightarrow> (ReplyParser, BadReply) outcome" where
  "parse_data L prepared buf = (case parse_header L parse_u64 4 buf of
     (res, buf) \<Rightarrow> bindR res (\<lambda>fs.
       let result_id = fs ! 0; rows_total = fs ! 1; ncols = fs ! 2; rows_included = fs ! 3 in
       if rows_total < rows_included then Err (TooManyIncludedRows rows_included rows_total)
       else if usize_max < ncols then Err (TooManyColumns ncols)
       else if length (peek buf) < saturating_mul (ncols - 1) 10 then Err (TooManyColumns ncols)
       else parse_data_body L prepared result_id rows_total ncols rows_included buf))"

definition parse :: "libs \<Rightarrow> ReplyBuf \<Rightarrow> (ReplyParser, BadReply) outcome" where
  "parse L buf = (let ahead = peek buf in
     if ahead = [] then Ok (Exhausted [])
     else if starts_with ahead ''&1'' then parse_data L False buf
     else if starts_with ahead ''&2'' then parse_successful_update L buf
     else if starts_with ahead ''&3'' then parse_successful_other L buf
     else if starts_with ahead ''&4'' then parse_autocommit_status L buf
     else if starts_with ahead ''&5'' then parse_data L True buf
     else if starts_with ahead ''!'' then parse_error L buf
     else if starts_with ahead (''=OK'' @ [CHR 0x0a]) then parse_ok L buf
     else if starts_with ahead ''='' then parse_noslice L buf
     else case bstr_lines L ahead of [] \<Rightarrow> Panic | line # _ \<Rightarrow> Err (UnknownResponse line))"

definition ReplyParser_new :: "libs \<Rightarrow> bytes \<Rightarrow> (ReplyParser, BadReply) outcome" where
  "ReplyParser_new L vec = parse L (ReplyBuf_new vec)"

definition into_next_reply :: "libs \<Rightarrow> ReplyParser \<Rightarrow> (ReplyParser \<times> nat option, BadReply) outcome" where
  "into_next_reply L p =
     bindR (case p of
         Exhausted vec \<Rightarrow> Ok (ReplyBuf_new vec, None)
       | Error buf \<Rightarrow> Ok (buf, None)
       | Success buf _ \<Rightarrow> Ok (buf, None)
       | Tx buf \<Rightarrow> Ok (buf, None)
       | Data rs \<Rightarrow> bindR (RowSet_finish L (case res_stashed rs of Some row_set \<Rightarrow> row_set | None \<Rightarrow> res_row_set rs))
           (\<lambda>buf. Ok (buf, res_to_close rs)))
       (\<lambda>(buf, return_to_close). bindR (parse L buf) (\<lambda>parser. Ok (parser, return_to_close)))"

definition detect_errors :: "libs \<Rightarrow> bytes \<Rightarrow> (unit, CursorError) outcome" where
  "detect_errors L response = (case server_error L response of
       Some error \<Rightarrow> Err (Server error) | None \<Rightarrow> Ok ())"

section \<open>Scanning\<close>

lemma split_by_hd_prefix: "prefix (hd (split_by P s)) s"
proof (induction s)
  case (Cons c s)
  then show ?case by (cases "split_by P s") auto
qed simp

lemma split_by_tl_find:
  "l \<in> set (tl (split_on (CHR 0x0a) s)) \<Longrightarrow> prefix p l \<Longrightarrow> find_sub (CHR 0x0a # p) s \<noteq> None"
proof (induction s)
  case (Cons c s)
  show ?case
  proof (cases "c = CHR 0x0a")
    case True
    then have "l \<in> set (split_on (CHR 0x0a) s)" using Cons.prems by simp
    then consider "l = hd (split_on (CHR 0x0a) s)" | "l \<in> set (tl (split_on (CHR 0x0a) s))"
      by (metis list.collapse set_ConsD split_by_nonempty)
    then show ?thesis
    proof cases
      case 1
      then have "prefix p s" using Cons.prems(2) split_by_hd_prefix by (metis prefix_order.order_trans)
      with True show ?thesis by simp
    next
      case 2
      with Cons show ?thesis by auto
    qed
  next
    case False
    then have "l \<in> set (tl (split_on (CHR 0x0a) s))"
      using Cons.prems by (cases "split_on (CHR 0x0a) s") auto
    with Cons show ?thesis by auto
  qed
qed simp

text \<open>The search that decides whether to look at the lines at all is exact.\<close>

lemma no_line_starts:
  assumes "\<not> prefix p s" and "find_sub (CHR 0x0a # p) s = None" and "l \<in> set (split_on (CHR 0x0a) s)"
  shows "\<not> prefix p l"
proof
  assume p: "prefix p l"
  have "l \<noteq> hd (split_on (CHR 0x0a) s)"
    using assms(1) p split_by_hd_prefix by (metis prefix_order.order_trans)
  then have "l \<in> set (tl (split_on (CHR 0x0a) s))"
    using assms(3) by (metis list.collapse set_ConsD split_by_nonempty)
  from split_by_tl_find [OF this p] assms(2) show False by simp
qed

lemma map_filter_none: "(\<And>x. x \<in> set xs \<Longrightarrow> f x = None) \<Longrightarrow> List.map_filter f xs = []"
  by (induction xs) (auto simp: List.map_filter_simps)

lemma push_messages_join:
  "push_messages r ms = r @ concat (map (\<lambda>m. CHR 0x0a # from_utf8_lossy m) ms)"
  by (induction ms arbitrary: r) auto

section \<open>Column names\<close>

text \<open>The server's rendering of a quoted name.\<close>

definition quote_char :: "byte \<Rightarrow> bytes" where
  "quote_char c = (if c = CHR 0x22 \<or> c = CHR 0x5c then [CHR 0x5c, c] else [c])"

definition quote_name :: "bytes \<Rightarrow> bytes" where
  "quote_name s = CHR 0x22 # concat (map quote_char s) @ [CHR 0x22]"

lemma decode_name_loop_quote: "decode_name_loop (concat (map quote_char s)) = Ok s"
  by (induction s) (auto simp: quote_char_def)

lemma decode_quote_name: "decode_column_name (quote_name s) = Ok s"
  by (simp add: decode_column_name_def quote_name_def strip_prefix_def strip_suffix_def suffix_def
      decode_name_loop_quote)

section \<open>Every response is cut safely\<close>

text \<open>A step over the buffer that ends with a value or an error and leaves a well-formed buffer at a
  suffix of what was ahead; \<open>eats\<close> if a value comes with progress.\<close>

definition moves :: "ReplyBuf \<Rightarrow> ('a, 'e) outcome \<times> ReplyBuf \<Rightarrow> bool" where
  "moves b m \<longleftrightarrow> (case m of
       (Ok _, b') \<Rightarrow> wf_buf b' \<and> suffix (peek b') (peek b)
     | (Err _, _) \<Rightarrow> True | _ \<Rightarrow> False)"

definition eats :: "ReplyBuf \<Rightarrow> ('a, 'e) outcome \<times> ReplyBuf \<Rightarrow> bool" where
  "eats b m \<longleftrightarrow> (case m of
       (Ok _, b') \<Rightarrow> wf_buf b' \<and> strict_suffix (peek b') (peek b)
     | (Err _, _) \<Rightarrow> True | _ \<Rightarrow> False)"

lemma eats_moves: "eats b m \<Longrightarrow> moves b m"
  by (auto simp: eats_def moves_def split: prod.splits outcome.splits)

lemma eats_bind:
  assumes "eats b m" and "\<And>x b'. m = (Ok x, b') \<Longrightarrow> wf_buf b' \<Longrightarrow> moves b' (f x b')"
  shows "eats b (bindS m f)"
proof (cases m)
  case (Pair res b')
  show ?thesis
  proof (cases res)
    case (Ok x)
    with assms(1) Pair have "wf_buf b'" and s: "strict_suffix (peek b') (peek b)"
      by (simp_all add: eats_def)
    with assms(2) [of x b'] Ok Pair have "moves b' (f x b')" by simp
    with s Ok Pair show ?thesis
      by (auto simp: eats_def moves_def split: prod.splits outcome.splits
          intro: suffix_order.le_less_trans)
  qed (use assms(1) Pair in \<open>auto simp: eats_def\<close>)
qed

lemmas moves_bind = eats_moves [OF eats_bind]

lemma moves_returns: "wf_buf b \<Longrightarrow> returns r \<Longrightarrow> moves b (r, b)"
  by (cases r) (auto simp: moves_def)

lemma eats_use:
  assumes "eats b (r, b')"
  shows "returns r" and "r = Ok x \<Longrightarrow> wf_buf b' \<and> strict_suffix (peek b') (peek b)"
  using assms by (cases r; simp add: eats_def)+

lemma returns_parse_acc: "returns (parse_acc lo hi neg acc s)"
  by (induction lo hi neg acc s rule: parse_acc.induct) (auto simp: Let_def)

lemma returns_parse_int: "returns (parse_int lo hi s)"
  by (auto simp: parse_int_def returns_parse_acc Let_def split: list.splits)

lemma returns_parsers [simp]: "returns (parse_u64 s)" "returns (parse_u32 s)" "returns (parse_u8 s)" "returns (parse_i64 s)"
  by (auto simp: parse_u64_def parse_u32_def parse_u8_def parse_i64_def returns_bindR_iff returns_parse_int)

lemma returns_header_items: "(\<And>s. returns (pf s)) \<Longrightarrow> returns (header_items pf line n i parts k)"
proof (induction pf line n i parts k rule: header_items.induct)
  case (3 pf line n i p parts k)
  have "returns (pf p)" by (rule 3)
  with 3 show ?case by (cases "pf p") (auto simp: returns_bindR_iff)
qed auto

lemma header_items_length: "header_items pf line n i parts k = Ok vs \<Longrightarrow> length vs = k"
  by (induction pf line n i parts k arbitrary: vs rule: header_items.induct)
     (auto split: outcome.splits)

lemma returns_header_line: "(\<And>s. returns (pf s)) \<Longrightarrow> returns (parse_header_line pf n line)"
  by (simp add: parse_header_line_def returns_header_items)

lemma parse_header_line_length: "parse_header_line pf n line = Ok vs \<Longrightarrow> length vs = n"
  by (auto simp: parse_header_line_def dest: header_items_length split: if_splits)

lemma update_columns_length: "update_columns f i parts cols = Ok cols' \<Longrightarrow> length cols' = length cols"
  by (induction f i parts cols arbitrary: cols' rule: update_columns.induct)
     (auto split: outcome.splits)

lemma returns_update_columns:
  "(\<And>c s. returns (f c s)) \<Longrightarrow> returns (update_columns f i parts cols)"
proof (induction f i parts cols rule: update_columns.induct)
  case (4 f i part parts col cols)
  have "returns (f col part)" by (rule 4)
  with 4 show ?case by (cases "f col part") (auto simp: returns_bindR_iff)
qed auto

lemma returns_decode_loop: "returns (decode_name_loop s)"
  by (induction s rule: decode_name_loop.induct) (auto simp: returns_bindR_iff split: list.splits)

lemma returns_decode_column_name: "returns (decode_column_name s)"
  by (auto simp: decode_column_name_def returns_decode_loop split: option.splits)

lemma returns_updaters [simp]: "returns (set_table_name c s)" "returns (set_name c s)" "returns (set_type c s)"
  "returns (set_length c s)" "returns (set_typesizes c s)"
proof -
  show "returns (set_name c s)"
    using returns_decode_column_name [of s] by (cases "decode_column_name s") (auto simp: set_name_def)
qed (auto simp: set_table_name_def set_type_def set_length_def set_typesizes_def returns_bindR_iff
    split: option.splits MonetType.splits)

text \<open>The invariant of a reply, and what of the response lies behind it.\<close>

definition pending_rows :: "ResultSet \<Rightarrow> RowSet" where
  "pending_rows rs = (case res_stashed rs of Some row_set \<Rightarrow> row_set | None \<Rightarrow> res_row_set rs)"

definition wf_result :: "ResultSet \<Rightarrow> bool" where
  "wf_result rs \<longleftrightarrow> wf_rowset (res_row_set rs) \<and> wf_rowset (pending_rows rs)
     \<and> res_next_row rs \<le> res_total_rows rs \<and> res_rows_included rs \<le> res_total_rows rs
     \<and> (\<not> rs_noslice (res_row_set rs) \<longrightarrow> rs_ncols (res_row_set rs) = length (res_columns rs))
     \<and> (\<forall>c. res_to_close rs = Some c \<longrightarrow> c = res_id rs \<and> \<not> res_prepared rs
           \<and> res_rows_included rs < res_total_rows rs)"

fun wf_parser :: "ReplyParser \<Rightarrow> bool" where
  "wf_parser (Exhausted v) = (length v \<le> usize_max)"
| "wf_parser (Error b) = wf_buf b"
| "wf_parser (Success b a) = wf_buf b"
| "wf_parser (Tx b) = wf_buf b"
| "wf_parser (Data rs) = wf_result rs"

fun behind :: "ReplyParser \<Rightarrow> bytes" where
  "behind (Exhausted v) = v"
| "behind (Error b) = peek b"
| "behind (Success b a) = peek b"
| "behind (Tx b) = peek b"
| "behind (Data rs) = peek (rs_buf (pending_rows rs))"

text \<open>A result set of \<open>=\<close> lines of which none has been read.\<close>

definition unread_noslice :: "ReplyParser \<Rightarrow> bool" where
  "unread_noslice p \<longleftrightarrow> (\<exists>rs. p = Data rs \<and> res_stashed rs = None \<and> rs_noslice (res_row_set rs))
     \<and> starts_with (behind p) ''=''"

text \<open>The outcome of parsing the reply at the start of \<open>s\<close>.\<close>

definition parsed :: "bytes \<Rightarrow> (ReplyParser, BadReply) outcome \<Rightarrow> bool" where
  "parsed s r \<longleftrightarrow> (case r of
       Ok p \<Rightarrow> wf_parser p \<and> suffix (behind p) s
         \<and> (p = Exhausted [] \<or> unread_noslice p \<or> strict_suffix (behind p) s)
     | Err _ \<Rightarrow> True | _ \<Rightarrow> False)"

context byte_search
begin

lemma eats_split:
  assumes "wf_buf b"
  shows "eats b (split L c b)"
  using split_safe [OF assms, of c]
  by (auto simp: eats_def buf_ext_def strict_suffix_def suffix_def split: prod.splits outcome.splits)

lemma eats_split_str: "wf_buf b \<Longrightarrow> eats b (split_str L c ctxt b)"
  unfolding Reply_Buf.split_str_def
  by (rule eats_bind [OF eats_split]) (simp_all add: moves_returns from_utf8_def)

lemma eats_parse_header: "wf_buf b \<Longrightarrow> (\<And>s. returns (pf s)) \<Longrightarrow> eats b (parse_header L pf n b)"
  unfolding parse_header_def
  by (rule eats_bind [OF eats_split_str]) (simp_all add: moves_returns returns_header_line)

lemma eats_parse_export_header: "wf_buf b \<Longrightarrow> (\<And>s. returns (pf s)) \<Longrightarrow> eats b (parse_export_header L pf n b)"
  unfolding parse_export_header_def
  by (rule eats_bind [OF eats_split_str]) (simp_all add: moves_returns returns_header_line Let_def)

lemma eats_data_header:
  assumes "wf_buf b" and "\<And>c s. returns (f c s)"
  shows "eats b (parse_data_header L kind f cols b)"
  unfolding parse_data_header_def
  by (rule eats_bind [OF eats_split [OF assms(1)]])
     (auto intro!: moves_returns bindR_returns returns_update_columns assms(2)
       simp: from_utf8_def header_body_def split: option.splits)

lemma eats_parse_columns: "wf_buf b \<Longrightarrow> eats b (parse_columns L cols b)"
  unfolding parse_columns_def
  by (intro eats_bind moves_bind eats_data_header)
     (auto intro: eats_moves [OF eats_data_header] moves_returns)

end

lemma parse_data_header_length:
  "parse_data_header L kind f cols b = (Ok cols', b') \<Longrightarrow> length cols' = length cols"
  by (auto simp: parse_data_header_def bindS_Ok_iff dest: update_columns_length)

lemma parse_columns_length: "parse_columns L cols b = (Ok cols', b') \<Longrightarrow> length cols' = length cols"
  by (auto simp: parse_columns_def bindS_Ok_iff dest!: parse_data_header_length split: if_splits)

context byte_search
begin

lemma parsed_step:
  assumes "eats b m" and "wf_buf b"
    and "\<And>x b'. m = (Ok x, b') \<Longrightarrow> wf_buf b' \<Longrightarrow> strict_suffix (peek b') (peek b) \<Longrightarrow> parsed (peek b) (f b' x)"
  shows "parsed (peek b) (case m of (res, b') \<Rightarrow> bindR res (f b'))"
proof (cases m)
  case (Pair res b')
  then show ?thesis using assms(3) [of _ b'] eats_use [of b res b'] assms(1)
    by (cases res) (simp_all add: parsed_def)
qed

lemma parsed_simple: "wf_buf b' \<Longrightarrow> strict_suffix (peek b') s \<Longrightarrow> parsed s (Ok (Success b' a))"
  "wf_buf b' \<Longrightarrow> strict_suffix (peek b') s \<Longrightarrow> parsed s (Ok (Error b'))"
  "wf_buf b' \<Longrightarrow> strict_suffix (peek b') s \<Longrightarrow> parsed s (Ok (Tx b'))"
  by (simp_all add: parsed_def strict_suffix_def)

lemma parsed_Err [simp]: "parsed s (Err e)"
  by (simp add: parsed_def)

lemma parsed_data_body:
  assumes "wf_buf b" and "inc \<le> tot"
  shows "parsed (peek b) (parse_data_body L prepared rid tot n inc b)"
  unfolding parse_data_body_def Let_def
proof (rule parsed_step [OF eats_parse_columns [OF assms(1)] assms(1)])
  fix cols :: "ResultColumn list" and b2
  assume wf2: "wf_buf b2" and s2: "strict_suffix (peek b2) (peek b)"
  let ?rs = "if starts_with (peek b2) ''='' then RowSet_new_noslice b2 else RowSet_new b2 (length cols)"
  have "rs_buf ?rs = b2" "wf_rowset ?rs" "\<not> rs_noslice ?rs \<longrightarrow> rs_ncols ?rs = length cols"
    using wf2 wf_rowset_new by (auto simp: RowSet_new_def RowSet_new_noslice_def)
  with s2 assms(2) show "parsed (peek b) (Ok (Data \<lparr>res_id = rid, res_prepared = prepared, res_next_row = 0,
       res_total_rows = tot, res_rows_included = inc, res_columns = cols, res_row_set = ?rs,
       res_stashed = None, res_to_close = if \<not> prepared \<and> inc < tot then Some rid else None\<rparr>))"
    by (simp add: parsed_def wf_result_def pending_rows_def strict_suffix_def)
qed

lemma parsed_weaken: "parsed s r \<Longrightarrow> strict_suffix s s' \<Longrightarrow> parsed s' r"
  by (auto simp: parsed_def split: outcome.splits dest: suffix_order.le_less_trans suffix_order.less_imp_le)

lemma parsed_data:
  assumes "wf_buf b"
  shows "parsed (peek b) (parse_data L prepared b)"
  unfolding parse_data_def
  by (rule parsed_step [OF eats_parse_header [OF assms] assms])
     (auto simp: Let_def intro!: parsed_weaken [OF parsed_data_body])

lemma parsed_noslice:
  assumes "wf_buf b" and "starts_with (peek b) ''=''"
  shows "parsed (peek b) (parse_noslice L b)"
  using assms wf_rowset_new(2) [OF assms(1)]
  by (simp add: parsed_def parse_noslice_def wf_result_def pending_rows_def unread_noslice_def
      RowSet_new_noslice_def Let_def)

lemma ref_lines_nonempty: "s \<noteq> [] \<Longrightarrow> ref_lines s \<noteq> []"
proof -
  assume "s \<noteq> []"
  then obtain c t where s: "s = c # t" by (cases s) simp_all
  then show ?thesis
    by (cases "split_on (CHR 0x0a) t") (auto simp: ref_lines_def Let_def)
qed

lemma parsed_parse:
  assumes "wf_buf b"
  shows "parsed (peek b) (parse L b)"
proof -
  have "parsed (peek b) (parse_successful_update L b)" "parsed (peek b) (parse_successful_other L b)"
    "parsed (peek b) (parse_autocommit_status L b)" "parsed (peek b) (parse_error L b)"
    "parsed (peek b) (parse_ok L b)"
    unfolding parse_successful_update_def parse_successful_other_def parse_autocommit_status_def
      parse_error_def parse_ok_def
    by (rule parsed_step [OF eats_parse_header] parsed_step [OF eats_split_str]; simp add: assms parsed_simple Let_def)+
  then show ?thesis
    using parsed_data [OF assms] parsed_noslice [OF assms] ref_lines_nonempty [of "peek b"]
    by (auto simp: parse_def Let_def lines_are parsed_def [of _ "Ok (Exhausted [])"] split: list.splits)
qed

end

section \<open>Moving to the next reply\<close>

context byte_search
begin

lemma find_line_bound:
  assumes "find_line L c b = Some i"
  shows "i \<le> length (peek b)"
proof (cases "peek b")
  case (Cons d ds)
  show ?thesis
  proof (cases "d = c")
    case False
    then obtain k where "find_sub [CHR 0x0a, c] (peek b) = Some k" "i = k + 1"
      using assms Cons by (auto simp: find_line_def memmem_first)
    then show ?thesis using find_sub_bound [of "[CHR 0x0a, c]" "peek b" k] by simp
  qed (use assms Cons in \<open>simp add: find_line_def\<close>)
qed (use assms in \<open>simp add: find_line_def\<close>)

lemma finish_safe:
  assumes "wf_buf (rs_buf rs)"
  shows "\<exists>b'. RowSet_finish L rs = Ok b' \<and> wf_buf b' \<and> suffix (peek b') (peek (rs_buf rs))"
proof -
  define n where "n = (case min_option (find_line L (CHR ''&'') (rs_buf rs)) (find_line L (CHR ''='') (rs_buf rs)) of
      Some idx \<Rightarrow> idx | None \<Rightarrow> length (peek (rs_buf rs)))"
  have "n \<le> length (peek (rs_buf rs))"
    using find_line_bound [where b = "rs_buf rs"] by (auto simp: n_def min_option_def min_def split: option.splits)
  from consume_ok [OF assms this] wf_buf_advance [OF assms this] show ?thesis
    by (simp add: RowSet_finish_def n_def [symmetric] Let_def peek_advance suffix_drop)
qed

lemma next_reply_parsed:
  assumes "wf_parser p"
  shows "case into_next_reply L p of
      Ok (p', c) \<Rightarrow> parsed (behind p) (Ok p') \<and> (\<forall>rs. p = Data rs \<longrightarrow> c = res_to_close rs)
    | Err _ \<Rightarrow> True | _ \<Rightarrow> False"
proof -
  have step: "case bindR (parse L b) (\<lambda>q. Ok (q, c)) of
      Ok (p', c') \<Rightarrow> parsed (peek b) (Ok p') \<and> c' = c | Err _ \<Rightarrow> True | _ \<Rightarrow> False" if "wf_buf b" for b and c :: "nat option"
    using parsed_parse [OF that] by (cases "parse L b") (simp_all add: parsed_def)
  show ?thesis
  proof (cases p)
    case (Data rs)
    then have "wf_buf (rs_buf (pending_rows rs))" using assms by (simp add: wf_result_def wf_rowset_def)
    from finish_safe [OF this] obtain b where b: "RowSet_finish L (pending_rows rs) = Ok b" "wf_buf b"
      "suffix (peek b) (peek (rs_buf (pending_rows rs)))" by blast
    have "into_next_reply L p = bindR (parse L b) (\<lambda>q. Ok (q, res_to_close rs))"
      using b(1) by (simp add: into_next_reply_def Data pending_rows_def)
    moreover have "parsed (peek b) (Ok q) \<Longrightarrow> parsed (behind p) (Ok q)" for q
      using b(3) by (auto simp: parsed_def Data dest: suffix_order.trans suffix_order.less_le_trans)
    ultimately show ?thesis using step [OF b(2), of "res_to_close rs"] Data
      by (auto split: outcome.splits)
  next
    case (Exhausted v)
    then show ?thesis using assms step [OF wf_buf_new, of v None]
      by (auto simp: into_next_reply_def split: outcome.splits)
  next
    case (Error b)
    then show ?thesis using assms step [of b None] by (auto simp: into_next_reply_def split: outcome.splits)
  next
    case (Success b a)
    then show ?thesis using assms step [of b None] by (auto simp: into_next_reply_def split: outcome.splits)
  next
    case (Tx b)
    then show ?thesis using assms step [of b None] by (auto simp: into_next_reply_def split: outcome.splits)
  qed
qed

lemma unread_noslice_again:
  assumes "wf_parser p" and "unread_noslice p" and "\<not> starts_with (behind p) (''=OK'' @ [CHR 0x0a])"
  shows "\<exists>p' c. into_next_reply L p = Ok (p', c) \<and> unread_noslice p' \<and> behind p' = behind p"
proof -
  obtain rs where rs: "p = Data rs" "res_stashed rs = None" using assms(2) by (auto simp: unread_noslice_def)
  let ?b = "rs_buf (res_row_set rs)"
  have wf: "wf_buf ?b" using assms(1) rs by (simp add: wf_result_def wf_rowset_def)
  have ahead: "starts_with (peek ?b) ''=''" "behind p = peek ?b"
    using assms(2) rs by (auto simp: unread_noslice_def pending_rows_def)
  then obtain s where s: "peek ?b = CHR ''='' # s" by (auto simp: prefix_def)
  then have "find_line L (CHR ''='') ?b = Some 0" by (simp add: find_line_def)
  then have "min_option (find_line L (CHR ''&'') ?b) (find_line L (CHR ''='') ?b) = Some 0"
    by (auto simp: min_option_def split: option.splits)
  then have "RowSet_finish L (res_row_set rs) = Ok ?b"
    using consume_ok [OF wf, of 0] by (simp add: RowSet_finish_def)
  moreover have "parse L ?b = parse_noslice L ?b"
    using ahead assms(3) by (auto simp: parse_def s Let_def)
  ultimately show ?thesis
    using rs ahead by (auto simp: into_next_reply_def parse_noslice_def unread_noslice_def pending_rows_def
        RowSet_new_noslice_def Let_def)
qed

end

section \<open>Rendered metadata\<close>

text \<open>How the server writes the metadata of a result set.\<close>

record col_spec =
  cs_table :: bytes
  cs_quoted :: bool
  cs_name :: bytes
  cs_code :: bytes
  cs_typ :: MonetType

definition rendered_name :: "col_spec \<Rightarrow> bytes" where
  "rendered_name c = (if cs_quoted c then quote_name (cs_name c) else cs_name c)"

definition length_text :: "col_spec \<Rightarrow> bytes" where
  "length_text c = (case cs_typ c of Varchar n \<Rightarrow> show_nat n | _ \<Rightarrow> ''0'')"

definition sizes_text :: "col_spec \<Rightarrow> bytes" where
  "sizes_text c = (case cs_typ c of Decimal p s \<Rightarrow> show_nat p @ '' '' @ show_nat s | _ \<Rightarrow> ''0 0'')"

fun join_parts :: "bytes list \<Rightarrow> bytes" where
  "join_parts [] = []"
| "join_parts [p] = p"
| "join_parts (p # q # ps) = p @ [CHR '','', CHR 0x09] @ join_parts (q # ps)"

definition meta_line :: "bytes \<Rightarrow> bytes list \<Rightarrow> bytes" where
  "meta_line kind parts = ''% '' @ join_parts parts @ '' # '' @ kind @ [CHR 0x0a]"

definition meta_text :: "col_spec list \<Rightarrow> bytes" where
  "meta_text cols = meta_line ''table_name'' (map cs_table cols) @ meta_line ''name'' (map rendered_name cols)
     @ meta_line ''type'' (map cs_code cols) @ meta_line ''length'' (map length_text cols)
     @ meta_line ''typesizes'' (map sizes_text cols)"

definition result_text :: "nat \<Rightarrow> nat \<Rightarrow> nat \<Rightarrow> col_spec list \<Rightarrow> bytes" where
  "result_text rid tot inc cols = ''&1 '' @ show_nat rid @ '' '' @ show_nat tot @ '' '' @ show_nat (length cols)
     @ '' '' @ show_nat inc @ [CHR 0x0a] @ meta_text cols"

text \<open>Text that can stand in a metadata line: the separators of the line do not occur in it.\<close>

definition clean :: "bytes \<Rightarrow> bool" where
  "clean s \<longleftrightarrow> utf8_valid s \<and> CHR 0x09 \<notin> set s \<and> CHR 0x0a \<notin> set s \<and> CHR ''#'' \<notin> set s"

definition spec_ok :: "col_spec \<Rightarrow> bool" where
  "spec_ok c \<longleftrightarrow> clean (cs_table c) \<and> clean (rendered_name c) \<and> clean (cs_code c)
     \<and> (\<not> cs_quoted c \<longrightarrow> \<not> starts_with (cs_name c) [CHR 0x22])
     \<and> from_mapi_code (cs_code c) = Some (blank_params (cs_typ c))
     \<and> (case cs_typ c of Varchar n \<Rightarrow> n \<le> 4294967295 | Decimal p s \<Rightarrow> p \<le> 255 \<and> s \<le> 255 | _ \<Rightarrow> True)"

definition spec_column :: "col_spec \<Rightarrow> ResultColumn" where
  "spec_column c = \<lparr>col_table_name = cs_table c, col_name = cs_name c, col_typ = cs_typ c\<rparr>"

lemma find_sub_hit:
  assumes "y \<notin> set p" and "x \<noteq> y"
  shows "find_sub (x # y # q) (p @ x # y # q @ r) = Some (length p)"
  using assms(1)
proof (induction p)
  case (Cons c p)
  then have "\<not> prefix (x # y # q) ((c # p) @ x # y # q @ r)"
    using assms(2) by (cases p) auto
  with Cons show ?case by simp
qed simp

lemma find_sub_miss: "y \<notin> set s \<Longrightarrow> find_sub (x # y # q) s = None"
proof (induction s)
  case (Cons c s)
  then have "\<not> prefix (x # y # q) (c # s)" by (cases s) auto
  with Cons show ?case by simp
qed simp

lemma split_join:
  assumes "parts \<noteq> []" and "\<And>p. p \<in> set parts \<Longrightarrow> CHR 0x09 \<notin> set p"
  shows "Mapi_Prelude.split_str [CHR '','', CHR 0x09] (join_parts parts) = parts"
  using assms
proof (induction parts rule: join_parts.induct)
  case (2 p)
  then show ?case by (simp add: Mapi_Prelude.split_str.simps find_sub_miss)
next
  case (3 p q ps)
  have "find_sub [CHR '','', CHR 0x09] (p @ CHR '','' # CHR 0x09 # [] @ join_parts (q # ps)) = Some (length p)"
    using 3 by (intro find_sub_hit) auto
  with 3 show ?case by (simp add: Mapi_Prelude.split_str.simps [of _ "p @ _"])
qed simp

lemma utf8_step_append: "fst (utf8_step c cs) \<Longrightarrow> utf8_step c (cs @ t) = utf8_step c cs
   \<and> snd (utf8_step c cs) \<le> length (c # cs)"
proof -
  assume ok: "fst (utf8_step c cs)"
  consider "cs = []" | a where "cs = [a]" | a b where "cs = [a, b]" | a b d r where "cs = a # b # d # r"
    by (cases cs; cases "tl cs"; cases "tl (tl cs)") auto
  then show ?thesis
    using ok by cases (simp_all add: utf8_step_def Let_def split: if_splits)
qed

lemma utf8_valid_append: "utf8_valid s \<Longrightarrow> utf8_valid (s @ t) = utf8_valid t"
proof (induction s rule: utf8_valid.induct)
  case (2 c cs)
  then have "fst (utf8_step c cs)" by simp
  note st = utf8_step_append [OF this, of t]
  then have "drop (snd (utf8_step c cs)) (c # cs @ t) = drop (snd (utf8_step c cs)) (c # cs) @ t"
    using drop_append [of "snd (utf8_step c cs)" "c # cs" t] by simp
  with 2 st show ?case by simp
qed simp

lemma utf8_valid_join: "(\<And>p. p \<in> set parts \<Longrightarrow> utf8_valid p) \<Longrightarrow> utf8_valid (join_parts parts)"
  by (induction parts rule: join_parts.induct) (simp_all add: utf8_valid_append utf8_step_def)

lemma set_join: "set (join_parts parts) \<subseteq> (\<Union>p\<in>set parts. set p) \<union> {CHR '','', CHR 0x09}"
  by (induction parts rule: join_parts.induct) auto

lemma length_join: "2 * (length parts - 1) \<le> length (join_parts parts)"
  by (induction parts rule: join_parts.induct) auto

lemma update_columns_map:
  "(\<And>c. c \<in> set cs \<Longrightarrow> f (h c) (g c) = Ok (k c)) \<Longrightarrow> update_columns f i (map g cs) (map h cs) = Ok (map k cs)"
  by (induction cs arbitrary: i) auto

context byte_search
begin

lemma meta_line_ok:
  assumes wf: "wf_buf b" and ahead: "peek b = meta_line kind parts @ r" and ne: "parts \<noteq> []"
    and cl: "\<And>p. p \<in> set parts \<Longrightarrow> clean p" and kind: "CHR 0x0a \<notin> set kind" "utf8_valid kind"
  shows "\<exists>b'. parse_data_header L kind f cols b = (update_columns f 0 parts cols, b') \<and> wf_buf b' \<and> peek b' = r"
proof -
  let ?line = "''% '' @ join_parts parts @ '' # '' @ kind"
  have sets: "CHR 0x0a \<notin> set (join_parts parts)" "CHR ''#'' \<notin> set (join_parts parts)"
    using set_join [of parts] cl by (auto simp: clean_def)
  have "CHR 0x0a \<notin> set ?line" using sets kind by simp
  moreover have "peek b = ?line @ CHR 0x0a # r" using ahead by (simp add: meta_line_def)
  ultimately obtain b' where sp: "split L (CHR 0x0a) b = (Ok ?line, b')" "peek b' = r" "buf_ext b b'"
    using split_ok [OF wf] by blast
  have "utf8_valid (join_parts parts)" using cl by (intro utf8_valid_join) (simp add: clean_def)
  then have u: "utf8_valid ?line" using kind by (simp add: utf8_valid_append utf8_step_def)
  have "find_sub '' # '' (join_parts parts @ CHR '' '' # CHR ''#'' # '' '' @ kind) = Some (length (join_parts parts))"
    using sets by (intro find_sub_hit) auto
  then have "split_once '' # '' (join_parts parts @ '' # '' @ kind) = Some (join_parts parts, kind)"
    by (simp add: split_once_def)
  then have "header_body kind ?line = Ok (join_parts parts)"
    by (simp add: header_body_def strip_prefix_def)
  moreover have "Mapi_Prelude.split_str [CHR '','', CHR 0x09] (join_parts parts) = parts"
    using ne cl by (intro split_join) (auto simp: clean_def)
  ultimately have "parse_data_header L kind f cols b = (update_columns f 0 parts cols, b')"
    unfolding parse_data_header_def using sp u by (simp add: from_utf8_def)
  with sp show ?thesis by (auto simp: buf_ext_def)
qed

end

lemma clean_digits: "clean (show_nat n)" "clean ''0''" "clean ''0 0''" "clean (show_nat p @ '' '' @ show_nat s)"
proof -
  have d: "byte_val c < 128" "c \<noteq> CHR 0x09" "c \<noteq> CHR 0x0a" "c \<noteq> CHR ''#''" if "c \<in> set (show_nat n)" for c n
    using show_nat_digits [OF that] by (auto simp: is_ascii_digit_def)
  then have n: "CHR 0x09 \<notin> set (show_nat n)" "CHR 0x0a \<notin> set (show_nat n)" "CHR ''#'' \<notin> set (show_nat n)" for n
    by blast+
  have u: "utf8_valid (show_nat n)" for n using utf8_valid_ascii [of "show_nat n" "[]"] d(1) by simp
  show "clean (show_nat n)" "clean ''0''" "clean ''0 0''" "clean (show_nat p @ '' '' @ show_nat s)"
    using n u by (simp_all add: clean_def utf8_valid_append utf8_step_def)
qed

lemma clean_texts: "clean (length_text c)" "clean (sizes_text c)"
  using clean_digits by (auto simp: length_text_def sizes_text_def split: MonetType.split)

lemma parse_unsigned_show:
  "n \<le> 18446744073709551615 \<Longrightarrow> parse_u64 (show_nat n) = Ok n"
  "n \<le> 4294967295 \<Longrightarrow> parse_u32 (show_nat n) = Ok n"
  "n \<le> 255 \<Longrightarrow> parse_u8 (show_nat n) = Ok n"
  by (simp_all add: parse_u64_def parse_u32_def parse_u8_def parse_int_show_nat)

lemma find_space: "find_sub '' '' (show_nat p @ CHR '' '' # s) = Some (length (show_nat p))"
proof -
  have "find_sub '' '' (xs @ CHR '' '' # s) = Some (length xs)" if "CHR '' '' \<notin> set xs" for xs
    using that by (induction xs) auto
  moreover have "CHR '' '' \<notin> set (show_nat p)"
    using show_nat_digits [of "CHR '' ''" p] by (auto simp: is_ascii_digit_def)
  ultimately show ?thesis by blast
qed

text \<open>A column after the first metadata lines, with the type known so far.\<close>

definition spec_stage :: "col_spec \<Rightarrow> MonetType \<Rightarrow> ResultColumn" where
  "spec_stage c t = \<lparr>col_table_name = cs_table c, col_name = cs_name c, col_typ = t\<rparr>"

definition sized_typ :: "col_spec \<Rightarrow> MonetType" where
  "sized_typ c = (case cs_typ c of Decimal p s \<Rightarrow> Decimal 0 0 | t \<Rightarrow> t)"

lemma spec_updates:
  assumes "spec_ok c"
  shows "set_table_name ResultColumn_empty (cs_table c) = Ok (ResultColumn_empty\<lparr>col_table_name := cs_table c\<rparr>)"
    and "set_name (ResultColumn_empty\<lparr>col_table_name := cs_table c\<rparr>) (rendered_name c) = Ok (spec_stage c Bool)"
    and "set_type (spec_stage c Bool) (cs_code c) = Ok (spec_stage c (blank_params (cs_typ c)))"
    and "set_length (spec_stage c (blank_params (cs_typ c))) (length_text c) = Ok (spec_stage c (sized_typ c))"
    and "set_typesizes (spec_stage c (sized_typ c)) (sizes_text c) = Ok (spec_column c)"
proof -
  have "decode_column_name (rendered_name c) = Ok (cs_name c)"
    using assms by (cases "cs_quoted c") (simp_all add: rendered_name_def decode_quote_name spec_ok_def,
      simp add: decode_column_name_def)
  then show "set_name (ResultColumn_empty\<lparr>col_table_name := cs_table c\<rparr>) (rendered_name c) = Ok (spec_stage c Bool)"
    by (simp add: set_name_def ResultColumn_empty_def ResultColumn_new_def spec_stage_def)
  show "set_length (spec_stage c (blank_params (cs_typ c))) (length_text c) = Ok (spec_stage c (sized_typ c))"
    "set_typesizes (spec_stage c (sized_typ c)) (sizes_text c) = Ok (spec_column c)"
    using assms
    by (cases "cs_typ c"; simp add: set_length_def set_typesizes_def length_text_def sizes_text_def spec_column_def
        spec_stage_def sized_typ_def spec_ok_def parse_unsigned_show split_once_def find_space)+
qed (use assms in \<open>simp_all add: set_table_name_def set_type_def spec_ok_def spec_stage_def ResultColumn_empty_def
    ResultColumn_new_def\<close>)

lemma trim_ascii_id: "s \<noteq> [] \<Longrightarrow> \<not> is_ascii_whitespace (hd s) \<Longrightarrow> \<not> is_ascii_whitespace (last s) \<Longrightarrow> trim_ascii s = s"
proof -
  assume "s \<noteq> []" and "\<not> is_ascii_whitespace (hd s)" and "\<not> is_ascii_whitespace (last s)"
  then have "dropWhile is_ascii_whitespace s = s" "dropWhile is_ascii_whitespace (rev s) = rev s"
    by (cases s, simp_all, cases "rev s", simp_all add: hd_rev [symmetric])
  then show ?thesis by (simp add: trim_ascii_def)
qed

lemma last_show_nat: "is_ascii_digit (last (show_nat n))"
  by (rule show_nat_digits [of _ n]) simp

definition head_line :: "nat list \<Rightarrow> bytes" where
  "head_line ns = concat (map (\<lambda>n. CHR '' '' # show_nat n) ns)"

lemma split_head_line: "ns \<noteq> [] \<Longrightarrow> split_on (CHR '' '') (tl (head_line ns)) = map show_nat ns"
proof (induction ns)
  case (Cons n ns)
  have d: "c \<noteq> CHR '' ''" if "c \<in> set (show_nat n)" for c
    using show_nat_digits [OF that] by (auto simp: is_ascii_digit_def)
  show ?case
  proof (cases ns)
    case Nil
    then show ?thesis using split_by_none [of "show_nat n" "\<lambda>c. c = CHR '' ''"] d by (auto simp: head_line_def)
  next
    case (Cons m ms)
    then have "tl (head_line (n # ns)) = show_nat n @ CHR '' '' # tl (head_line ns)" by (simp add: head_line_def)
    with Cons Cons.IH d show ?thesis
      using split_by_step [of "show_nat n" "\<lambda>c. c = CHR '' ''" "CHR '' ''" "tl (head_line ns)"] by simp
  qed
qed simp

lemma header_items_show:
  "\<forall>n\<in>set ns. n \<le> 18446744073709551615 \<Longrightarrow> header_items parse_u64 line k i (map show_nat ns) (length ns) = Ok ns"
  by (induction ns arbitrary: i) (simp_all add: parse_unsigned_show)

lemma last_head_line: "ns \<noteq> [] \<Longrightarrow> is_ascii_digit (last (head_line ns))"
proof (induction ns)
  case (Cons n ns)
  then show ?case using last_show_nat [of n] by (cases ns) (auto simp: head_line_def)
qed simp

lemma head_line_ascii: "c \<in> set (head_line ns) \<Longrightarrow> c = CHR '' '' \<or> is_ascii_digit c"
  by (induction ns) (auto simp: head_line_def dest: show_nat_digits)

context byte_search
begin

lemma header_line_ok:
  assumes wf: "wf_buf b" and ahead: "peek b = [CHR ''&'', d] @ head_line ns @ CHR 0x0a # r"
    and d: "is_ascii_digit d" and ns: "ns \<noteq> []" "\<forall>n\<in>set ns. n \<le> 18446744073709551615"
  shows "\<exists>b'. split_str L (CHR 0x0a) ''header line'' b = (Ok ([CHR ''&'', d] @ head_line ns), b') \<and> wf_buf b' \<and> peek b' = r"
    and "trim_ascii ([CHR ''&'', d] @ head_line ns) = [CHR ''&'', d] @ head_line ns"
    and "parse_header_line parse_u64 (length ns) ([CHR ''&'', d] @ head_line ns) = Ok ns"
proof -
  let ?line = "[CHR ''&'', d] @ head_line ns"
  obtain h where h: "head_line ns = CHR '' '' # h" using ns by (cases ns) (auto simp: head_line_def)
  have ascii: "byte_val c < 128 \<and> c \<noteq> CHR 0x0a" if "c \<in> set ?line" for c
    using that d head_line_ascii [of c ns] by (auto simp: is_ascii_digit_def)
  then have "CHR 0x0a \<notin> set ?line" by blast
  then obtain b' where sp: "split L (CHR 0x0a) b = (Ok ?line, b')" "peek b' = r" "buf_ext b b'"
    using split_ok [OF wf, of ?line "CHR 0x0a" r] ahead by auto
  have u: "utf8_valid ?line" using utf8_valid_ascii [of ?line "[]"] ascii by simp
  have "\<not> is_ascii_whitespace (last ?line)"
    using last_head_line [OF ns(1)] h by (auto simp: is_ascii_digit_def is_ascii_whitespace_def)
  then show "trim_ascii ?line = ?line"
    by (intro trim_ascii_id) (auto simp: is_ascii_whitespace_def)
  show "parse_header_line parse_u64 (length ns) ?line = Ok ns"
    using d header_items_show [OF ns(2)] split_head_line [OF ns(1)] by (simp add: parse_header_line_def h)
  show "\<exists>b'. split_str L (CHR 0x0a) ''header line'' b = (Ok ?line, b') \<and> wf_buf b' \<and> peek b' = r"
    using sp u by (auto simp: Reply_Buf.split_str_def from_utf8_def buf_ext_def)
qed

lemma header_ok:
  assumes "wf_buf b" and "peek b = [CHR ''&'', d] @ head_line ns @ CHR 0x0a # r"
    and "is_ascii_digit d" and "ns \<noteq> []" "\<forall>n\<in>set ns. n \<le> 18446744073709551615"
  shows "\<exists>b'. parse_header L parse_u64 (length ns) b = (Ok ns, b') \<and> wf_buf b' \<and> peek b' = r"
  using header_line_ok [OF assms] by (auto simp: parse_header_def)

lemma export_header_ok:
  assumes "wf_buf b" and "peek b = ''&6'' @ head_line ns @ CHR 0x0a # r"
    and "ns \<noteq> []" "\<forall>n\<in>set ns. n \<le> 18446744073709551615"
  shows "\<exists>b'. parse_export_header L parse_u64 (length ns) b = (Ok ns, b') \<and> wf_buf b' \<and> peek b' = r"
proof -
  have d: "is_ascii_digit (CHR ''6'')" by (simp add: is_ascii_digit_def)
  have "peek b = [CHR ''&'', CHR ''6''] @ head_line ns @ CHR 0x0a # r" using assms(2) by simp
  note l = header_line_ok [OF assms(1) this d assms(3,4)]
  have "starts_with ([CHR ''&'', CHR ''6''] @ head_line ns) ''&6 ''" using assms(3) by (cases ns) (simp_all add: head_line_def)
  with l show ?thesis by (auto simp: parse_export_header_def Let_def)
qed

lemma meta_line_map:
  assumes "wf_buf b" and "peek b = meta_line kind (map g cols) @ r" and "cols \<noteq> []"
    and "\<And>c. c \<in> set cols \<Longrightarrow> clean (g c)" and "CHR 0x0a \<notin> set kind" "utf8_valid kind"
    and "\<And>c. c \<in> set cols \<Longrightarrow> f (h c) (g c) = Ok (k c)"
  shows "\<exists>b'. parse_data_header L kind f (map h cols) b = (Ok (map k cols), b') \<and> wf_buf b' \<and> peek b' = r"
  using meta_line_ok [OF assms(1,2) _ _ assms(5,6), of f "map h cols"] assms(3,4)
    update_columns_map [of cols f h g k 0, OF assms(7)] by fastforce

lemma parse_columns_ok:
  assumes wf: "wf_buf b" and ahead: "peek b = meta_text cols @ r" and ne: "cols \<noteq> []"
    and ok: "\<And>c. c \<in> set cols \<Longrightarrow> spec_ok c"
  shows "\<exists>b'. parse_columns L (replicate (length cols) ResultColumn_empty) b = (Ok (map spec_column cols), b')
     \<and> wf_buf b' \<and> peek b' = r"
proof -
  have cl: "clean (cs_table c)" "clean (rendered_name c)" "clean (cs_code c)" if "c \<in> set cols" for c
    using ok [OF that] by (auto simp: spec_ok_def)
  have rep: "replicate (length cols) ResultColumn_empty = map (\<lambda>_. ResultColumn_empty) cols"
    by (simp add: map_replicate_const)
  from meta_line_map [where f = set_table_name and h = "(\<lambda>_. ResultColumn_empty)"
      and k = "(\<lambda>c. ResultColumn_empty\<lparr>col_table_name := cs_table c\<rparr>)", OF wf ahead [unfolded meta_text_def append_assoc] ne cl(1) _ _ spec_updates(1) [OF ok]]
  obtain b1 where 1: "parse_data_header L ''table_name'' set_table_name (map (\<lambda>_. ResultColumn_empty) cols) b
      = (Ok (map (\<lambda>c. ResultColumn_empty\<lparr>col_table_name := cs_table c\<rparr>) cols), b1)" and w1: "wf_buf b1"
    and p1: "peek b1 = meta_line ''name'' (map rendered_name cols) @ meta_line ''type'' (map cs_code cols)
      @ meta_line ''length'' (map length_text cols) @ meta_line ''typesizes'' (map sizes_text cols) @ r"
    by (auto simp: utf8_step_def)
  from meta_line_map [where f = set_name and h = "(\<lambda>c. ResultColumn_empty\<lparr>col_table_name := cs_table c\<rparr>)"
      and k = "(\<lambda>c. spec_stage c Bool)", OF w1 p1 ne cl(2) _ _ spec_updates(2) [OF ok]]
  obtain b2 where 2: "parse_data_header L ''name'' set_name
        (map (\<lambda>c. ResultColumn_empty\<lparr>col_table_name := cs_table c\<rparr>) cols) b1
      = (Ok (map (\<lambda>c. spec_stage c Bool) cols), b2)" and w2: "wf_buf b2"
    and p2: "peek b2 = meta_line ''type'' (map cs_code cols) @ meta_line ''length'' (map length_text cols)
     @ meta_line ''typesizes'' (map sizes_text cols) @ r" by (auto simp: utf8_step_def)
  from meta_line_map [where f = set_type and h = "(\<lambda>c. spec_stage c Bool)"
      and k = "(\<lambda>c. spec_stage c (blank_params (cs_typ c)))", OF w2 p2 ne cl(3) _ _ spec_updates(3) [OF ok]]
  obtain b3 where 3: "parse_data_header L ''type'' set_type (map (\<lambda>c. spec_stage c Bool) cols) b2
      = (Ok (map (\<lambda>c. spec_stage c (blank_params (cs_typ c))) cols), b3)" and w3: "wf_buf b3"
    and p3: "peek b3 = meta_line ''length'' (map length_text cols) @ meta_line ''typesizes'' (map sizes_text cols) @ r"
    by (auto simp: utf8_step_def)
  from meta_line_map [where f = set_length and h = "(\<lambda>c. spec_stage c (blank_params (cs_typ c)))"
      and k = "(\<lambda>c. spec_stage c (sized_typ c))", OF w3 p3 ne clean_texts(1) _ _ spec_updates(4) [OF ok]]
  obtain b4 where 4: "parse_data_header L ''length'' set_length (map (\<lambda>c. spec_stage c (blank_params (cs_typ c))) cols) b3
      = (Ok (map (\<lambda>c. spec_stage c (sized_typ c)) cols), b4)" and w4: "wf_buf b4"
    and p4: "peek b4 = meta_line ''typesizes'' (map sizes_text cols) @ r" by (auto simp: utf8_step_def)
  from meta_line_map [where f = set_typesizes and h = "(\<lambda>c. spec_stage c (sized_typ c))"
      and k = "spec_column", OF w4 p4 ne clean_texts(2) _ _ spec_updates(5) [OF ok]]
  obtain b5 where 5: "parse_data_header L ''typesizes'' set_typesizes (map (\<lambda>c. spec_stage c (sized_typ c)) cols) b4
      = (Ok (map spec_column cols), b5)" "wf_buf b5" "peek b5 = r" by (auto simp: utf8_step_def)
  have "\<not> starts_with (peek b4) ''=''" by (simp add: p4 meta_line_def)
  with 1 2 3 4 5 show ?thesis unfolding rep by (simp add: parse_columns_def)
qed

end

lemma meta_text_length: "10 * (length cols - 1) < length (meta_text cols)"
  using length_join [of "map cs_table cols"] length_join [of "map rendered_name cols"] length_join [of "map cs_code cols"]
    length_join [of "map length_text cols"] length_join [of "map sizes_text cols"]
  by (simp add: meta_text_def meta_line_def)

context byte_search
begin

lemma result_parsed:
  assumes "cols \<noteq> []" and "\<forall>c\<in>set cols. spec_ok c"
    and "rid \<le> 18446744073709551615" and "tot \<le> 18446744073709551615" and "inc \<le> tot"
    and "length (result_text rid tot inc cols @ rows) \<le> usize_max" and "\<not> starts_with rows ''=''"
  shows "\<exists>rs. ReplyParser_new L (result_text rid tot inc cols @ rows) = Ok (Data rs)
     \<and> res_id rs = rid \<and> res_total_rows rs = tot \<and> res_rows_included rs = inc \<and> res_next_row rs = 0
     \<and> \<not> res_prepared rs \<and> res_columns rs = map spec_column cols
     \<and> (\<exists>b. res_row_set rs = RowSet_new b (length cols) \<and> wf_buf b \<and> peek b = rows)
     \<and> res_to_close rs = (if inc < tot then Some rid else None)"
proof -
  let ?b = "ReplyBuf_new (result_text rid tot inc cols @ rows)"
  let ?ns = "[rid, tot, length cols, inc]"
  have wf: "wf_buf ?b" using assms(6) by (rule wf_buf_new)
  have ahead: "peek ?b = [CHR ''&'', CHR ''1''] @ head_line ?ns @ CHR 0x0a # (meta_text cols @ rows)"
    by (simp add: result_text_def head_line_def)
  have n: "length cols \<le> usize_max"
    using assms(6) meta_text_length [of cols] by (simp add: result_text_def)
  then have "\<forall>n\<in>set ?ns. n \<le> 18446744073709551615" using assms(3-5) by auto
  moreover have "is_ascii_digit (CHR ''1'')" by (simp add: is_ascii_digit_def)
  moreover have four: "length ?ns = 4" by simp
  ultimately obtain b1 where
    b1: "parse_header L parse_u64 4 ?b = (Ok ?ns, b1)" "wf_buf b1" "peek b1 = meta_text cols @ rows"
    using header_ok [OF wf ahead, unfolded four] by blast
  from parse_columns_ok [OF b1(2,3) assms(1)] assms(2) obtain b2 where
    b2: "parse_columns L (replicate (length cols) ResultColumn_empty) b1 = (Ok (map spec_column cols), b2)"
      "wf_buf b2" "peek b2 = rows" by blast
  have len: "saturating_mul (length cols - 1) 10 \<le> length (meta_text cols @ rows)"
    using meta_text_length [of cols] by (simp add: saturating_mul_def)
  have "ReplyParser_new L (result_text rid tot inc cols @ rows) = parse_data L False ?b"
    by (simp add: ReplyParser_new_def parse_def result_text_def Let_def)
  also have "\<dots> = parse_data_body L False rid tot (length cols) inc b1"
    using b1 n len assms(5) by (simp add: parse_data_def Let_def)
  finally show ?thesis
    using b2 assms(7) by (auto simp: parse_data_body_def)
qed

end

section \<open>Properties\<close>

text \<open>C19. A result set the server announces with its header and metadata lines is understood completely: the
  parser returns a result set with the announced id and row counts, one column per announced column
  with its table, its (possibly quoted) name and its type with length or precision and scale, stands
  before the first row, and asks for the result to be closed exactly when the server keeps rows back.\<close>

theorem result_set_roundtrip:
  assumes "byte_search L" and "cols \<noteq> []" and "\<forall>c\<in>set cols. spec_ok c"
    and "rid \<le> 18446744073709551615" and "tot \<le> 18446744073709551615" and "inc \<le> tot"
    and "length (result_text rid tot inc cols @ rows) \<le> usize_max" and "\<not> starts_with rows ''=''"
  shows "\<exists>rs. ReplyParser_new L (result_text rid tot inc cols @ rows) = Ok (Data rs)
     \<and> res_id rs = rid \<and> res_total_rows rs = tot \<and> res_rows_included rs = inc \<and> res_next_row rs = 0
     \<and> \<not> res_prepared rs \<and> res_columns rs = map spec_column cols
     \<and> (\<exists>b. res_row_set rs = RowSet_new b (length cols) \<and> wf_buf b \<and> peek b = rows)
     \<and> res_to_close rs = (if inc < tot then Some rid else None)"
  by (rule byte_search.result_parsed [OF assms])

definition example_cols :: "col_spec list" where
  "example_cols = [\<lparr>cs_table = ''sys.t'', cs_quoted = True, cs_name = ''a, '' @ [CHR 0x22], cs_code = ''decimal'', cs_typ = Decimal 18 3\<rparr>,
     \<lparr>cs_table = [], cs_quoted = False, cs_name = ''n'', cs_code = ''varchar'', cs_typ = Varchar 7\<rparr>]"

lemma example_cols_ok: "\<forall>c\<in>set example_cols. spec_ok c"
  by (simp add: example_cols_def spec_ok_def clean_def rendered_name_def quote_name_def quote_char_def
      from_mapi_code_def mapi_codes_def utf8_step_def)

theorem result_set_roundtrip_witness:
  "\<exists>rs. ReplyParser_new ref_libs (result_text 1 5 2 example_cols @ ''[ 1'') = Ok (Data rs)
     \<and> res_columns rs = map spec_column example_cols \<and> res_to_close rs = Some 1"
proof -
  have "length (result_text 1 5 2 example_cols @ ''[ 1'') \<le> usize_max"
    by (simp add: example_cols_def result_text_def meta_text_def meta_line_def rendered_name_def quote_name_def
        quote_char_def length_text_def sizes_text_def show_nat.simps)
  from result_set_roundtrip [OF ref_libs.byte_search_axioms _ example_cols_ok _ _ _ this]
  show ?thesis by (auto simp: example_cols_def)
qed



text \<open>C36. The autocommit state taken from a response is that of its last line that is an autocommit notification;
  the search that lets most responses skip the scan changes nothing.\<close>

theorem response_autocommit_last:
  assumes "byte_search L"
  shows "response_autocommit L response
     = last_opt (List.map_filter parse_autocommit_line (split_on (CHR 0x0a) response))"
proof -
  have p: "prefix ''&4'' l" if "parse_autocommit_line l \<noteq> None" for l
    using that by (auto simp: parse_autocommit_line_def strip_prefix_def split: if_splits)
  show ?thesis
  proof (cases "\<not> starts_with response ''&4'' \<and> find_sub (CHR 0x0a # ''&4'') response = None")
    case True
    then have "List.map_filter parse_autocommit_line (split_on (CHR 0x0a) response) = []"
      using no_line_starts p by (intro map_filter_none) blast
    with True show ?thesis
      by (simp add: response_autocommit_def byte_search.memmem_first [OF assms] last_opt_def)
  qed (auto simp: response_autocommit_def byte_search.memmem_first [OF assms])
qed

theorem response_autocommit_last_witness:
  "response_autocommit ref_libs (''&4 t'' @ [CHR 0x0a] @ ''&4 f t'')
     = last_opt (List.map_filter parse_autocommit_line (split_on (CHR 0x0a) (''&4 t'' @ [CHR 0x0a] @ ''&4 f t'')))"
  by (rule response_autocommit_last [OF ref_libs.byte_search_axioms])

text \<open>A response is an error exactly when one of its lines starts with an exclamation mark, and then the
  displayed message is those lines without the mark, decoded and joined by line feeds.\<close>

theorem server_error_joined:
  assumes "byte_search L"
  shows "map_option display (server_error L response)
     = (case List.map_filter (\<lambda>line. strip_prefix line ''!'') (split_on (CHR 0x0a) response) of
          [] \<Rightarrow> None
        | m # ms \<Rightarrow> Some (from_utf8_lossy m @ concat (map (\<lambda>m. CHR 0x0a # from_utf8_lossy m) ms)))"
proof (cases "\<not> starts_with response ''!'' \<and> find_sub (CHR 0x0a # ''!'') response = None")
  case True
  then have "List.map_filter (\<lambda>line. strip_prefix line ''!'') (split_on (CHR 0x0a) response) = []"
    using no_line_starts by (intro map_filter_none) (auto simp: strip_prefix_def)
  with True show ?thesis by (simp add: server_error_def byte_search.memmem_first [OF assms])
next
  case False
  then show ?thesis
    by (auto simp: server_error_def byte_search.memmem_first [OF assms] from_wire_display push_messages_join
        split: list.split)
qed

theorem server_error_joined_witness:
  "map_option display (server_error ref_libs (''&1'' @ [CHR 0x0a] @ ''!42000!x''))
     = (case List.map_filter (\<lambda>line. strip_prefix line ''!'') (split_on (CHR 0x0a) (''&1'' @ [CHR 0x0a] @ ''!42000!x'')) of
          [] \<Rightarrow> None
        | m # ms \<Rightarrow> Some (from_utf8_lossy m @ concat (map (\<lambda>m. CHR 0x0a # from_utf8_lossy m) ms)))"
  by (rule server_error_joined [OF ref_libs.byte_search_axioms])

definition name_header :: "bytes \<Rightarrow> (ResultColumn list, BadReply) outcome" where
  "name_header name = fst (parse_data_header ref_libs ''name'' set_name [ResultColumn_empty]
     (ReplyBuf_new (meta_line ''name'' [quote_name name])))"


end
