(* ===== verification/Delayed.thy ===== *)
theory Delayed
  imports Framing_Link Reply_Parser
begin

text \<open>
  Commands whose responses are read later, \<open>src/cursor/delayed.rs\<close>: they are collected in a
  \<open>MapiBuf\<close>, sent together with the next command, and their responses are read before that
  command's.

  \<open>env\<close> holds what the operations over a socket take from outside: the transport, the fuel of the
  reading and writing loops, the buffer sizes \<open>read_to_end\<close> chooses, whether debug assertions
  are on, and the third-party operations. A socket that is moved into a call that fails is dropped
  there, so only a success hands it on.
\<close>

section \<open>Model of the code\<close>

record 't env =
  env_T :: "'t transport"
  env_F :: nat
  env_pol :: "nat \<Rightarrow> nat"
  env_debug :: bool
  env_L :: libs

record ExpectedResponse =
  er_description :: bytes
  er_ignore_server_error :: bool

record DelayedCommands =
  dc_buffer :: MapiBuf
  dc_responses :: "ExpectedResponse list"

definition DelayedCommands_new :: DelayedCommands where
  "DelayedCommands_new = \<lparr>dc_buffer = MapiBuf_new, dc_responses = []\<rparr>"

text \<open>A command is given as the pieces its formatter writes.\<close>

definition add_inner :: "bytes \<Rightarrow> bytes list \<Rightarrow> bool \<Rightarrow> DelayedCommands \<Rightarrow> (DelayedCommands, FramingError) outcome" where
  "add_inner descr cmd ignore_server_error d =
     bindR (append_all cmd (dc_buffer d)) (\<lambda>mb.
     bindR (if \<not> ends_with (MapiBuf_peek mb) [CHR 0x0a] then MapiBuf_append [CHR 0x0a] mb else Ok mb) (\<lambda>mb.
     bindR (MapiBuf_end mb) (\<lambda>mb.
       Ok \<lparr>dc_buffer = mb, dc_responses = dc_responses d
            @ [\<lparr>er_description = descr, er_ignore_server_error = ignore_server_error\<rparr>]\<rparr>)))"

definition add :: "bytes \<Rightarrow> bytes list \<Rightarrow> DelayedCommands \<Rightarrow> (DelayedCommands, FramingError) outcome" where
  "add descr cmd = add_inner descr cmd False"

definition add_cleanup :: "bytes \<Rightarrow> bytes list \<Rightarrow> DelayedCommands \<Rightarrow> (DelayedCommands, FramingError) outcome" where
  "add_cleanup descr cmd = add_inner descr cmd True"

definition add_xcommand_cleanup :: "bytes \<Rightarrow> bytes list \<Rightarrow> DelayedCommands \<Rightarrow> (DelayedCommands, FramingError) outcome" where
  "add_xcommand_cleanup command val = add_cleanup command ([''X'', command, '' ''] @ val)"

text \<open>\<open>io::Error\<close> and \<open>FramingError\<close> as a \<open>CursorError\<close>.\<close>

definition io_result :: "('a, IoError) outcome \<Rightarrow> ('a, CursorError) outcome" where
  "io_result = map_err IO"

definition send_delayed ::
  "('t, 'z) env_scheme \<Rightarrow> DelayedCommands \<Rightarrow> 't ServerSock \<Rightarrow> ('t ServerSock, CursorError) outcome \<times> DelayedCommands" where
  "send_delayed E d conn = (case MapiBuf_reset (env_debug E) (dc_buffer d) of
       Ok (raw, mb) \<Rightarrow> (case write_all (ServerSock_write (env_T E)) (env_F E) raw conn of
           (res, conn) \<Rightarrow> (bindR (io_result res) (\<lambda>_. Ok conn), d\<lparr>dc_buffer := mb\<rparr>))
     | Err e \<Rightarrow> (Err (Framing e), d) | Panic \<Rightarrow> (Panic, d) | NoFuel \<Rightarrow> (NoFuel, d))"

definition send_delayed_plus ::
  "('t, 'z) env_scheme \<Rightarrow> bytes list \<Rightarrow> DelayedCommands \<Rightarrow> 't ServerSock \<Rightarrow> ('t ServerSock, CursorError) outcome \<times> DelayedCommands" where
  "send_delayed_plus E extra d conn =
     (case MapiBuf_write_reset_plus (env_debug E) (ServerSock_write (env_T E)) (env_F E) extra (dc_buffer d) conn of
        (res, mb, conn) \<Rightarrow> (bindR (io_result res) (\<lambda>_. Ok conn), d\<lparr>dc_buffer := mb\<rparr>))"

definition recv_message :: "('t, 'z) env_scheme \<Rightarrow> nat \<Rightarrow> 't ServerSock \<Rightarrow> ('t ServerSock, CursorError) outcome \<times> bytes" where
  "recv_message E max_size conn = (case to_limited (ServerSock_read (env_T E)) (env_F E) (env_pol E) conn [] max_size of
     (res, buf) \<Rightarrow> (io_result res, buf))"

text \<open>The loop over the drained responses, and what it leaves in the caller's buffer.\<close>

fun recv_loop :: "('t, 'z) env_scheme \<Rightarrow> nat \<Rightarrow> ExpectedResponse list \<Rightarrow> 't ServerSock \<Rightarrow> ServerError option \<Rightarrow> bytes
    \<Rightarrow> ('t ServerSock \<times> ServerError option, CursorError) outcome \<times> bytes" where
  "recv_loop E max_size [] conn first_error buffer = (Ok (conn, first_error), buffer)"
| "recv_loop E max_size (resp # resps) conn first_error buffer =
     (case recv_message E max_size conn of
        (Ok conn, buffer) \<Rightarrow>
          recv_loop E max_size resps conn
            (case server_error (env_L E) buffer of
               None \<Rightarrow> first_error
             | Some error \<Rightarrow>
                 if er_ignore_server_error resp then first_error
                 else if first_error = None
                 then Some (ServerError_with_context (''delayed '' @ er_description resp) error)
                 else first_error) buffer
      | (Err e, buffer) \<Rightarrow> (Err e, buffer)
      | (Panic, buffer) \<Rightarrow> (Panic, buffer)
      | (NoFuel, buffer) \<Rightarrow> (NoFuel, buffer))"

definition recv_delayed_inner :: "('t, 'z) env_scheme \<Rightarrow> nat \<Rightarrow> DelayedCommands \<Rightarrow> 't ServerSock \<Rightarrow> bytes
    \<Rightarrow> ('t ServerSock \<times> ServerError option, CursorError) outcome \<times> DelayedCommands \<times> bytes" where
  "recv_delayed_inner E max_size d conn buffer = (case recv_loop E max_size (dc_responses d) conn None buffer of
     (res, buffer) \<Rightarrow> (res, d\<lparr>dc_responses := []\<rparr>, buffer))"

definition recv_delayed :: "('t, 'z) env_scheme \<Rightarrow> nat \<Rightarrow> DelayedCommands \<Rightarrow> 't ServerSock \<Rightarrow> bytes
    \<Rightarrow> ('t ServerSock \<times> ServerError option, CursorError) outcome \<times> DelayedCommands \<times> bytes" where
  "recv_delayed E max_size d conn buffer = (case recv_delayed_inner E max_size d conn buffer of
     (res, d, buffer) \<Rightarrow> (res, d, []))"

section \<open>Requests and responses stay paired\<close>

text \<open>A delayed command: its description, its text and whether its failure is ignored. The text goes out
  with a line feed at the end.\<close>

type_synonym delayed = "bytes \<times> bytes \<times> bool"

definition terminated :: "bytes \<Rightarrow> bytes" where
  "terminated s = (if ends_with s [CHR 0x0a] then s else s @ [CHR 0x0a])"

definition expected :: "delayed \<Rightarrow> ExpectedResponse" where
  "expected c = \<lparr>er_description = fst c, er_ignore_server_error = snd (snd c)\<rparr>"

text \<open>The commands \<open>ss\<close> have been sent, the commands \<open>cs\<close> are still in the buffer; the responses of both are awaited.\<close>

definition dc_waits :: "DelayedCommands \<Rightarrow> delayed list \<Rightarrow> delayed list \<Rightarrow> bool" where
  "dc_waits d ss cs \<longleftrightarrow> mb_holds (dc_buffer d) (map (\<lambda>c. terminated (fst (snd c))) cs) [] \<and> dc_responses d = map expected (ss @ cs)"

abbreviation dc_holds :: "DelayedCommands \<Rightarrow> delayed list \<Rightarrow> bool" where
  "dc_holds d \<equiv> dc_waits d []"

lemma dc_holds_new: "dc_holds DelayedCommands_new []"
  by (simp add: dc_waits_def DelayedCommands_new_def MapiBuf_new_holds)

lemma mb_peek_last:
  assumes "mb_holds mb msgs m" and "m \<noteq> []"
  shows "ends_with (MapiBuf_peek mb) [c] = ends_with m [c]"
proof -
  have r: "\<not> reset_pending mb" using assms by (auto simp: mb_holds_def split: if_splits)
  then obtain bl cur where lay: "mb_layout mb msgs bl cur" and m: "m = bl @ cur" "bl \<noteq> [] \<longrightarrow> cur \<noteq> []"
    using assms(1) by (auto simp: mb_holds_def)
  then have ne: "cur \<noteq> []" using assms(2) by auto
  obtain p where "mb_buffer mb = p @ cur" using lay by (auto simp: mb_layout_def)
  then show ?thesis using r m ne
    by (cases cur rule: rev_cases) (auto simp: MapiBuf_peek_def suffix_def)
qed

lemma add_inner_holds:
  assumes "dc_waits d ss cs" and "concat cmd \<noteq> []"
  shows "\<exists>d'. add_inner descr cmd ign d = Ok d' \<and> dc_waits d' ss (cs @ [(descr, concat cmd, ign)])"
proof -
  let ?msgs = "map (\<lambda>c. terminated (fst (snd c))) cs"
  have h: "mb_holds (dc_buffer d) ?msgs []" and r: "dc_responses d = map expected (ss @ cs)"
    using assms(1) by (simp_all add: dc_waits_def)
  from append_all_holds [OF h, of cmd] obtain mb1 where mb1: "append_all cmd (dc_buffer d) = Ok mb1"
    "mb_holds mb1 ?msgs (concat cmd)" by auto
  have "\<exists>mb2. (if \<not> ends_with (MapiBuf_peek mb1) [CHR 0x0a] then MapiBuf_append [CHR 0x0a] mb1 else Ok mb1) = Ok mb2
     \<and> mb_holds mb2 ?msgs (terminated (concat cmd))"
    using mb_peek_last [OF mb1(2) assms(2), of "CHR 0x0a"] mb1(2) MapiBuf_append_holds [OF mb1(2), of "[CHR 0x0a]"]
    by (auto simp: terminated_def)
  then obtain mb2 where mb2: "(if \<not> ends_with (MapiBuf_peek mb1) [CHR 0x0a] then MapiBuf_append [CHR 0x0a] mb1 else Ok mb1) = Ok mb2"
    "mb_holds mb2 ?msgs (terminated (concat cmd))" by blast
  from MapiBuf_end_holds [OF mb2(2)] obtain mb3 where "MapiBuf_end mb2 = Ok mb3"
    "mb_holds mb3 (?msgs @ [terminated (concat cmd)]) []" by blast
  with mb1 mb2 r show ?thesis by (simp add: add_inner_def dc_waits_def expected_def)
qed

text \<open>The error reported for a list of commands and their responses: the first that is not ignored.\<close>

fun first_failure :: "libs \<Rightarrow> ExpectedResponse list \<Rightarrow> bytes list \<Rightarrow> ServerError option" where
  "first_failure L (r # rs) (m # ms) = (case server_error L m of
       Some error \<Rightarrow> if er_ignore_server_error r then first_failure L rs ms
         else Some (ServerError_with_context (''delayed '' @ er_description r) error)
     | None \<Rightarrow> first_failure L rs ms)"
| "first_failure L _ _ = None"

lemma recv_loop_ok:
  assumes "reliable_transport (env_T E) tok tpend tpat" and "\<forall>k. 0 < env_pol E k"
  shows "length ms = length rs \<Longrightarrow> calm_ok tok s \<Longrightarrow> sock_pend tpend s = concat (map frame ms) @ rest \<Longrightarrow>
     length (sock_pend tpend s) + sock_patience tpat s < env_F E \<Longrightarrow> (\<forall>m\<in>set ms. length m \<le> limit) \<Longrightarrow>
     \<exists>s' b'. recv_loop E limit rs s fe b
         = (Ok (s', case fe of Some e \<Rightarrow> Some e | None \<Rightarrow> first_failure (env_L E) rs ms), b')
       \<and> sock_pend tpend s' = rest \<and> calm_ok tok s' \<and> sock_patience tpat s' \<le> sock_patience tpat s"
proof (induction rs arbitrary: ms s fe b)
  case Nil
  then show ?case by (cases fe) auto
next
  case (Cons r rs)
  from Cons.prems(1) obtain m ms' where ms: "ms = m # ms'" by (cases ms) auto
  note src = reliable_transport.calm_source [OF assms(1)]
  note load = byte_source.load_def [OF reliable_source.axioms(1) [OF src]]
  have pend: "sock_pend tpend s = frame m @ (concat (map frame ms') @ rest)" using Cons.prems(3) ms by simp
  have fuel: "byte_source.load (sock_pend tpend) (sock_patience tpat) s < env_F E"
    using Cons.prems(4) by (simp add: load)
  obtain s1 where s1: "to_limited (ServerSock_read (env_T E)) (env_F E) (env_pol E) s [] limit = (Ok s1, m)"
    "sock_pend tpend s1 = concat (map frame ms') @ rest" "calm_ok tok s1" "sock_patience tpat s1 \<le> sock_patience tpat s"
    using reliable_source.to_limited_exact(1) [where pol = "env_pol E" and buffer = "[]" and limit = limit,
        OF src pend fuel Cons.prems(2) spec [OF assms(2)]] Cons.prems(5) ms by auto
  have "length (sock_pend tpend s1) + sock_patience tpat s1 < env_F E"
    using Cons.prems(3,4) s1(2,4) ms by simp
  note ih = Cons.IH [OF _ s1(3,2) this]
  from s1(4) Cons.prems(1,5) ms
  show ?case
    using ih [of "case server_error (env_L E) m of None \<Rightarrow> fe | Some error \<Rightarrow>
        if er_ignore_server_error r then fe else if fe = None
        then Some (ServerError_with_context (''delayed '' @ er_description r) error) else fe" m]
    by (cases fe; cases "server_error (env_L E) m")
       (fastforce simp: recv_message_def s1(1) io_result_def)+
qed

section \<open>Properties\<close>

text \<open>Sending: the delayed commands go out before the new command, in the order they were added, each as a
  message of its own that ends with a line feed, and the new command follows as one message. The buffer is empty
  afterwards and exactly one response stays expected for every delayed command. On an I/O error a prefix of that
  has been sent; there is no panic and no endless loop.\<close>

theorem send_delayed_plus_in_order:
  assumes "transport_sink (env_T E) out wpat" and "dc_holds d cs"
    and "length (concat (map (\<lambda>c. frame (terminated (fst (snd c)))) cs) @ frame (concat extra)) + wpat (inner s) < env_F E"
  shows "case send_delayed_plus E extra d s of
      (Ok s', d') \<Rightarrow> mb_holds (dc_buffer d') [] [] \<and> dc_responses d' = map expected cs
        \<and> out (inner s') = out (inner s) @ concat (map (\<lambda>c. frame (terminated (fst (snd c)))) cs) @ frame (concat extra)
    | (Err e, d') \<Rightarrow> mb_holds (dc_buffer d') [] [] \<and> dc_responses d' = map expected cs
    | _ \<Rightarrow> False"
proof -
  define data where "data = concat (map (\<lambda>c. frame (terminated (fst (snd c)))) cs) @ frame (concat extra)"
  have h: "mb_holds (dc_buffer d) (map (\<lambda>c. terminated (fst (snd c))) cs) []" and r: "dc_responses d = map expected cs"
    using assms(2) by (simp_all add: dc_waits_def)
  have sink: "byte_sink (ServerSock_write (env_T E)) (out \<circ> inner) (wpat \<circ> inner)"
    using assms(1) by (rule transport_sink.sock_sink)
  obtain res s' where w: "write_all (ServerSock_write (env_T E)) (env_F E) data s = (res, s')" by (metis surj_pair)
  have data: "concat (map frame (map (\<lambda>c. terminated (fst (snd c))) cs)) @ frame ([] @ concat extra) = data"
    by (simp add: data_def comp_def)
  have "length data + (wpat \<circ> inner) s < env_F E" using assms(3) by (simp add: data_def)
  note spec = byte_sink.write_all_spec [OF sink this, unfolded w]
  from write_reset_plus_holds [OF h, of "env_debug E" "ServerSock_write (env_T E)" "env_F E" extra s, unfolded data w]
  obtain mb' where "mb_holds mb' [] []" "MapiBuf_write_reset_plus (env_debug E) (ServerSock_write (env_T E)) (env_F E) extra
      (dc_buffer d) s = (res, mb', s')" by auto
  with spec r show ?thesis unfolding data_def [symmetric]
    by (cases res) (auto simp: send_delayed_plus_def io_result_def)
qed

definition script_env :: "nat \<Rightarrow> script env" where
  "script_env F = \<lparr>env_T = script_transport, env_F = F, env_pol = (\<lambda>k. 2), env_debug = True, env_L = ref_libs\<rparr>"

theorem send_delayed_plus_in_order_witness:
  "case send_delayed_plus (script_env 100) [''sSELECT 1;''] DelayedCommands_new example_out of
      (Ok s', d') \<Rightarrow> mb_holds (dc_buffer d') [] [] \<and> dc_responses d' = map expected []
        \<and> sent (inner s') = sent (inner example_out) @ concat (map (\<lambda>c. frame (terminated (fst (snd c)))) ([] :: delayed list))
            @ frame (concat [''sSELECT 1;''])
    | (Err e, d') \<Rightarrow> mb_holds (dc_buffer d') [] [] \<and> dc_responses d' = map expected []
    | _ \<Rightarrow> False"
proof -
  have T: "env_T (script_env 100) = script_transport" by (simp add: script_env_def)
  show ?thesis
    by (rule send_delayed_plus_in_order [where E = "script_env 100", unfolded T,
          OF script_sink.transport_sink_axioms dc_holds_new])
       (simp add: script_env_def example_out_def ServerSock_with_control_def script_wpatience_def frame.simps)
qed

text \<open>Receiving: when the server answers every delayed command, the responses are read one by one and nothing
  beyond them, no response stays expected, and the error handed on is that of the first command that failed and
  whose failure matters, with its description in front.\<close>

theorem recv_delayed_in_sync:
  assumes "reliable_transport (env_T E) tok tpend tpat" and "\<forall>k. 0 < env_pol E k"
    and "length ms = length (dc_responses d)" and "calm_ok tok s"
    and "sock_pend tpend s = concat (map frame ms) @ rest"
    and "length (sock_pend tpend s) + sock_patience tpat s < env_F E" and "\<forall>m\<in>set ms. length m \<le> limit"
  shows "\<exists>s'. recv_delayed E limit d s buffer
       = (Ok (s', first_failure (env_L E) (dc_responses d) ms), d\<lparr>dc_responses := []\<rparr>, [])
     \<and> sock_pend tpend s' = rest"
  using recv_loop_ok [OF assms(1-7), of None buffer] by (auto simp: recv_delayed_def recv_delayed_inner_def)

theorem recv_delayed_in_sync_witness:
  "\<exists>s'. recv_delayed (script_env 50) 8 \<lparr>dc_buffer = MapiBuf_new,
        dc_responses = [\<lparr>er_description = ''close'', er_ignore_server_error = True\<rparr>]\<rparr> example_in ''x''
     = (Ok (s', first_failure ref_libs [\<lparr>er_description = ''close'', er_ignore_server_error = True\<rparr>] [''abc'']),
        \<lparr>dc_buffer = MapiBuf_new, dc_responses = []\<rparr>, [])
     \<and> sock_pend script_pend s' = [CHR 0x01]"
proof -
  have T: "env_T (script_env 50) = script_transport" by (simp add: script_env_def)
  show ?thesis
    using recv_delayed_in_sync [where E = "script_env 50" and ms = "[''abc'']" and rest = "[CHR 0x01]" and limit = 8
        and d = "\<lparr>dc_buffer = MapiBuf_new, dc_responses = [\<lparr>er_description = ''close'', er_ignore_server_error = True\<rparr>]\<rparr>"
        and buffer = "''x''", unfolded T, OF script_reliable.reliable_transport_axioms _ _ example_in_ok(2)]
      example_in_pend example_in_patience
    by (simp add: script_env_def frame.simps)
qed

end
