(* ===== verification/Conn.thy ===== *)
theory Conn
  imports Delayed
begin

text \<open>
  The connection shared by its cursors, \<open>Conn\<close> of \<open>src/conn.rs\<close>: the lock around the socket, the
  watchdog for operation deadlines, cancellation, and the close requests queued by cursors.

  An operation runs in three parts: \<open>begin_operation\<close> takes the lock and the socket, the operation
  itself works on the socket, and \<open>finish_operation\<close> puts the socket back or closes the connection.
  What other threads do to the shared state in the meantime is the argument \<open>env_others\<close> of
  \<open>run_locked_with_timeouts\<close>, and the step relation \<open>conn_step\<close> has every atomic step of every thread as
  a rule: the steps are what the code does between two points where it takes a lock or uses an atomic.
  A mutex is its contents with a flag for being held and one for being poisoned. The handle for shutting the
  socket down, which the connection shares with the socket, is \<open>cn_control\<close>.
\<close>

section \<open>Model of the code: state\<close>

datatype Endian = Big | Lit

record InnerServerMetadata =
  md_environment :: "bytes \<rightharpoonup> bytes"
  md_version :: "nat \<times> nat \<times> nat"
  md_prehash_algo :: bytes

record ServerState =
  st_autocommit :: bool
  st_reply_size :: nat
  st_time_zone_seconds :: int
  st_sql_metadata :: "InnerServerMetadata option"
  st_prehash_algo :: bytes
  st_server_endian :: Endian
  st_binary_level :: nat
  st_max_response_size :: nat

definition ServerState_new :: "bytes \<Rightarrow> Endian \<Rightarrow> nat \<Rightarrow> nat \<Rightarrow> ServerState" where
  "ServerState_new prehash_algo server_endian binary_level max_response_size =
     \<lparr>st_autocommit = True, st_reply_size = 100, st_time_zone_seconds = 0, st_sql_metadata = None,
      st_prehash_algo = prehash_algo, st_server_endian = server_endian, st_binary_level = binary_level,
      st_max_response_size = max_response_size\<rparr>"

abbreviation (input) OPERATION_IDLE :: nat where "OPERATION_IDLE \<equiv> 0"
abbreviation (input) OPERATION_ACTIVE :: nat where "OPERATION_ACTIVE \<equiv> 1"
abbreviation (input) OPERATION_CANCELLED :: nat where "OPERATION_CANCELLED \<equiv> 2"

section \<open>Model of the code: the watchdog\<close>

record WatchdogState =
  wd_active :: "(nat \<times> nat) option"
  wd_fired_token :: nat
  wd_next_token :: nat
  wd_stopped :: bool
  wd_worker :: bool

definition OperationWatchdog_new :: WatchdogState where
  "OperationWatchdog_new = \<lparr>wd_active = None, wd_fired_token = 0, wd_next_token = 0, wd_stopped = False, wd_worker = False\<rparr>"

definition ensure_worker :: "WatchdogState \<Rightarrow> WatchdogState" where
  "ensure_worker w = (if \<not> wd_worker w then w\<lparr>wd_worker := True\<rparr> else w)"

text \<open>One turn of the worker's loop at time \<open>now\<close>: it ends, waits for a change, waits for a change or a
  deadline, or shuts the socket down.\<close>

datatype watchdog_action = Return | Wait | WaitUntil nat | Fire

definition watchdog_turn :: "nat \<Rightarrow> WatchdogState \<Rightarrow> watchdog_action \<times> WatchdogState" where
  "watchdog_turn now w =
     (if wd_stopped w then (Return, w)
      else case wd_active w of
          None \<Rightarrow> (Wait, w)
        | Some (token, deadline) \<Rightarrow>
            if now < deadline then (WaitUntil deadline, w)
            else (Fire, w\<lparr>wd_active := None, wd_fired_token := token\<rparr>))"

definition arm :: "nat \<Rightarrow> nat option \<Rightarrow> WatchdogState \<Rightarrow> (nat option, IoError) outcome \<times> WatchdogState" where
  "arm now timeout w = (case timeout of
       None \<Rightarrow> (Ok None, w)
     | Some timeout \<Rightarrow>
         let w = ensure_worker w;
             next = (wd_next_token w + 1) mod 2 ^ 64;
             token = (if next = 0 then 1 else next);
             w = w\<lparr>wd_next_token := token\<rparr>
         in if instant_max \<le> now + timeout then (Panic, w)
            else (Ok (Some token), w\<lparr>wd_active := Some (token, now + timeout), wd_fired_token := 0\<rparr>))"

definition disarm :: "nat option \<Rightarrow> WatchdogState \<Rightarrow> bool \<times> WatchdogState" where
  "disarm token w = (case token of
       None \<Rightarrow> (False, w)
     | Some token \<Rightarrow>
         if (case wd_active w of Some (active, _) \<Rightarrow> active = token | None \<Rightarrow> False)
         then (False, w\<lparr>wd_active := None\<rparr>)
         else (wd_fired_token w = token, w))"

definition OperationWatchdog_drop :: "WatchdogState \<Rightarrow> WatchdogState" where
  "OperationWatchdog_drop w = w\<lparr>wd_stopped := True, wd_worker := False\<rparr>"

section \<open>Model of the code: the connection\<close>

record 't Conn =
  cn_reply_size :: nat
  cn_max_prefetch :: "nat option"
  cn_max_response_size :: nat
  cn_state :: ServerState
  cn_sock :: "'t ServerSock option"
  cn_delayed :: DelayedCommands
  cn_held :: bool
  cn_poisoned :: bool
  cn_pending_closes :: "nat list"
  cn_pending_deallocates :: "nat list"
  cn_closing :: bool
  cn_operation_state :: nat
  cn_control :: SocketControl
  cn_watchdog :: WatchdogState
  cn_timeouts :: Timeouts

record 't cenv = "'t env" +
  env_others :: "'t Conn \<Rightarrow> 't Conn"

definition Conn_new :: "nat option \<Rightarrow> 't ServerSock \<Rightarrow> ServerState \<Rightarrow> DelayedCommands \<Rightarrow> Timeouts \<Rightarrow> 't Conn" where
  "Conn_new max_prefetch sock state delayed timeouts =
     \<lparr>cn_reply_size = st_reply_size state, cn_max_prefetch = max_prefetch,
      cn_max_response_size = st_max_response_size state, cn_state = state, cn_sock = Some sock,
      cn_delayed = delayed, cn_held = False, cn_poisoned = False, cn_pending_closes = [],
      cn_pending_deallocates = [], cn_closing = False, cn_operation_state = OPERATION_IDLE,
      cn_control = control sock, cn_watchdog = OperationWatchdog_new, cn_timeouts = timeouts\<rparr>"

text \<open>\<open>let _ = self.control.shutdown()\<close>\<close>

definition shut :: "'t Conn \<Rightarrow> 't Conn" where
  "shut c = c\<lparr>cn_control := snd (SocketControl_shutdown (\<lambda>_. Ok ()) (cn_control c))\<rparr>"

fun add_cleanups :: "bytes \<Rightarrow> nat list \<Rightarrow> DelayedCommands \<Rightarrow> (DelayedCommands, FramingError) outcome" where
  "add_cleanups command [] d = Ok d"
| "add_cleanups command (i # ids) d = bindR (add_xcommand_cleanup command [show_nat i] d) (add_cleanups command ids)"

text \<open>A panic while the lock is held poisons it and drops the socket.\<close>

definition unwind :: "'t Conn \<Rightarrow> 't Conn" where
  "unwind c = c\<lparr>cn_poisoned := True, cn_held := False\<rparr>"

definition begin_operation ::
  "('t, 'z) env_scheme \<Rightarrow> Timeouts \<Rightarrow> 't Conn \<Rightarrow> ('t ServerSock \<times> nat option, CursorError) outcome \<times> 't Conn" where
  "begin_operation E timeouts c = (let timeouts = Timeouts_bounded timeouts in
     if cn_poisoned c then (Err Poisoned, shut (c\<lparr>cn_closing := True\<rparr>))
     else if cn_closing c then (Err Closed, shut (c\<lparr>cn_sock := None\<rparr>))
     else case cn_sock c of
         None \<Rightarrow> (Err Closed, c)
       | Some sock \<Rightarrow>
           let c = c\<lparr>cn_sock := None\<rparr> in
           if cn_operation_state c \<noteq> OPERATION_IDLE then (Err Poisoned, shut (c\<lparr>cn_closing := True\<rparr>))
           else
             let c = c\<lparr>cn_operation_state := OPERATION_ACTIVE, cn_held := True\<rparr>;
                 now = tr_now (env_T E) (inner sock) in
             case ServerSock_start_operation now timeouts sock of
               Ok sock \<Rightarrow>
                 (case arm now (t_operation timeouts) (cn_watchdog c) of
                    (Ok token, w) \<Rightarrow>
                      let closes = cn_pending_closes c;
                          deallocates = cn_pending_deallocates c;
                          c = c\<lparr>cn_watchdog := w, cn_pending_closes := [], cn_pending_deallocates := []\<rparr> in
                      (case bindR (add_cleanups ''close'' closes (cn_delayed c)) (add_cleanups ''release'' deallocates) of
                         Ok d \<Rightarrow> (Ok (sock, token), c\<lparr>cn_delayed := d\<rparr>)
                       | _ \<Rightarrow> (Panic, unwind c))
                  | (_, w) \<Rightarrow> (Panic, unwind (c\<lparr>cn_watchdog := w\<rparr>)))
             | _ \<Rightarrow> (Panic, unwind c))"

definition finish_operation ::
  "nat option \<Rightarrow> ('t ServerSock, CursorError) outcome \<Rightarrow> 't Conn \<Rightarrow> (unit, CursorError) outcome \<times> 't Conn" where
  "finish_operation token result c =
     (if result = Panic then (Panic, unwind c) else if result = NoFuel then (NoFuel, c)
      else case disarm token (cn_watchdog c) of (operation_timed_out, w) \<Rightarrow>
        let operation_state = cn_operation_state c;
            c = c\<lparr>cn_watchdog := w, cn_operation_state := OPERATION_IDLE, cn_held := False\<rparr> in
        if operation_state = OPERATION_CANCELLED then (Err Cancelled, c\<lparr>cn_closing := True\<rparr>)
        else if operation_timed_out then (Err Timeout, shut (c\<lparr>cn_closing := True\<rparr>))
        else case result of
            Ok sock \<Rightarrow> if cn_closing c then (Err Closed, c) else (Ok (), c\<lparr>cn_sock := Some sock\<rparr>)
          | Err (IO error) \<Rightarrow> if io_kind error = TimedOut then (Err Timeout, shut (c\<lparr>cn_closing := True\<rparr>))
              else (Err (IO error), shut (c\<lparr>cn_closing := True\<rparr>))
          | Err error \<Rightarrow> (Err error, shut (c\<lparr>cn_closing := True\<rparr>)))"

text \<open>An operation takes the state, the delayed commands, the socket and the variables its closure captures.\<close>

type_synonym ('t, 'r) operation =
  "'r \<Rightarrow> ServerState \<Rightarrow> DelayedCommands \<Rightarrow> 't ServerSock
     \<Rightarrow> ('t ServerSock, CursorError) outcome \<times> ServerState \<times> DelayedCommands \<times> 'r"

definition run_locked_with_timeouts ::
  "'t cenv \<Rightarrow> Timeouts \<Rightarrow> ('t, 'r) operation \<Rightarrow> 'r \<Rightarrow> 't Conn \<Rightarrow> (unit, CursorError) outcome \<times> 'r \<times> 't Conn" where
  "run_locked_with_timeouts E timeouts f r c = (case begin_operation E timeouts c of
       (Ok (sock, token), c) \<Rightarrow>
         (case f r (cn_state c) (cn_delayed c) sock of (result, st, d, r) \<Rightarrow>
            (case finish_operation token result (env_others E (c\<lparr>cn_state := st, cn_delayed := d\<rparr>)) of
               (res, c) \<Rightarrow> (res, r, c)))
     | (Err e, c) \<Rightarrow> (Err e, r, c)
     | (Panic, c) \<Rightarrow> (Panic, r, c)
     | (NoFuel, c) \<Rightarrow> (NoFuel, r, c))"

definition run_locked ::
  "'t cenv \<Rightarrow> ('t, 'r) operation \<Rightarrow> 'r \<Rightarrow> 't Conn \<Rightarrow> (unit, CursorError) outcome \<times> 'r \<times> 't Conn" where
  "run_locked E f r c = run_locked_with_timeouts E (cn_timeouts c) f r c"

definition cancel :: "'t Conn \<Rightarrow> (unit, CursorError) outcome \<times> 't Conn" where
  "cancel c = (if cn_operation_state c = OPERATION_ACTIVE
       then (Ok (), shut (c\<lparr>cn_operation_state := OPERATION_CANCELLED\<rparr>))
     else if cn_operation_state c = OPERATION_IDLE \<or> cn_operation_state c = OPERATION_CANCELLED then (Ok (), c)
     else (Err Poisoned, c))"

definition close_connection :: "'t Conn \<Rightarrow> 't Conn" where
  "close_connection c = (let c = shut (c\<lparr>cn_closing := True\<rparr>) in
     if cn_held c then c else c\<lparr>cn_sock := None\<rparr>)"

definition try_queue_closes :: "nat list \<Rightarrow> 't Conn \<Rightarrow> ('t Conn, FramingError) outcome" where
  "try_queue_closes result_ids c =
     (if cn_held c then Ok (c\<lparr>cn_pending_closes := cn_pending_closes c @ result_ids\<rparr>)
      else bindR (add_cleanups ''close'' result_ids (cn_delayed c)) (\<lambda>d. Ok (c\<lparr>cn_delayed := d\<rparr>)))"

definition try_queue_deallocate :: "nat \<Rightarrow> 't Conn \<Rightarrow> (bool \<times> 't Conn, FramingError) outcome" where
  "try_queue_deallocate statement_id c =
     (if cn_held c then Ok (True, c\<lparr>cn_pending_deallocates := cn_pending_deallocates c @ [statement_id]\<rparr>)
      else if cn_sock c = None then Ok (False, c)
      else bindR (add_xcommand_cleanup ''release'' [show_nat statement_id] (cn_delayed c))
        (\<lambda>d. Ok (True, c\<lparr>cn_delayed := d\<rparr>)))"

text \<open>The worker's turn, with the shutdown it may end with.\<close>

definition watchdog_run :: "nat \<Rightarrow> 't Conn \<Rightarrow> 't Conn" where
  "watchdog_run now c = (case watchdog_turn now (cn_watchdog c) of
       (Fire, w) \<Rightarrow> shut (c\<lparr>cn_watchdog := w\<rparr>)
     | (_, w) \<Rightarrow> c\<lparr>cn_watchdog := w\<rparr>)"

section \<open>Model of the code: operations of \<open>Connection\<close>\<close>

record ServerInfo =
  si_endian :: Endian
  si_binary_level :: nat
  si_autocommit :: bool
  si_reply_size :: nat
  si_time_zone_seconds :: int

definition server_info :: "'t cenv \<Rightarrow> 't Conn \<Rightarrow> (ServerInfo, CursorError) outcome \<times> 't Conn" where
  "server_info E c = (case run_locked E (\<lambda>_ state delayed sock. (Ok sock, state, delayed,
       Some \<lparr>si_endian = st_server_endian state, si_binary_level = st_binary_level state,
         si_autocommit = st_autocommit state, si_reply_size = st_reply_size state,
         si_time_zone_seconds = st_time_zone_seconds state\<rparr>)) None c of
     (res, info, c) \<Rightarrow> (bindR res (\<lambda>_. ok_or Closed info), c))"

definition autocommit_confirmed :: "bytes \<Rightarrow> bool \<Rightarrow> bool" where
  "autocommit_confirmed response enabled = (let line = trim_ascii response in
     CHR 0x0a \<notin> set line \<and> parse_autocommit_line line = Some enabled)"

definition autocommit_operation ::
  "'t cenv \<Rightarrow> nat \<Rightarrow> bool \<Rightarrow> ('t, CursorError option) operation" where
  "autocommit_operation E max_size enabled response_error state delayed sock =
     (if st_autocommit state = enabled then (Ok sock, state, delayed, response_error)
      else case send_delayed_plus E [''Xauto_commit '' @ show_nat (of_bool enabled)] delayed sock of
          (Ok sock, delayed) \<Rightarrow>
            (case recv_delayed E max_size delayed sock [] of
               (Ok (sock, delayed_error), delayed, _) \<Rightarrow>
                 let response_error = (case delayed_error of Some e \<Rightarrow> Some (Server e) | None \<Rightarrow> response_error) in
                 (case recv_message E max_size sock of
                    (Ok sock, response) \<Rightarrow>
                      if response \<noteq> [] \<and> \<not> autocommit_confirmed response enabled then
                        (case server_error (env_L E) response of
                           Some error \<Rightarrow>
                             (Ok sock, state\<lparr>st_autocommit :=
                                (case response_autocommit (env_L E) response of Some b \<Rightarrow> b | None \<Rightarrow> enabled)\<rparr>,
                              delayed, Some (Server error))
                         | None \<Rightarrow> (Ok sock, state, delayed, Some (Bad (UnexpectedHeader response))))
                      else (Ok sock, state\<lparr>st_autocommit := enabled\<rparr>, delayed, response_error)
                  | (Err e, _) \<Rightarrow> (Err e, state, delayed, response_error)
                  | (Panic, _) \<Rightarrow> (Panic, state, delayed, response_error)
                  | (NoFuel, _) \<Rightarrow> (NoFuel, state, delayed, response_error))
             | (Err e, delayed, _) \<Rightarrow> (Err e, state, delayed, response_error)
             | (Panic, delayed, _) \<Rightarrow> (Panic, state, delayed, response_error)
             | (NoFuel, delayed, _) \<Rightarrow> (NoFuel, state, delayed, response_error))
        | (Err e, delayed) \<Rightarrow> (Err e, state, delayed, response_error)
        | (Panic, delayed) \<Rightarrow> (Panic, state, delayed, response_error)
        | (NoFuel, delayed) \<Rightarrow> (NoFuel, state, delayed, response_error))"

definition set_autocommit_with_timeouts ::
  "'t cenv \<Rightarrow> bool \<Rightarrow> Timeouts \<Rightarrow> 't Conn \<Rightarrow> (unit, CursorError) outcome \<times> 't Conn" where
  "set_autocommit_with_timeouts E enabled timeouts c =
     (case run_locked_with_timeouts E timeouts (autocommit_operation E (cn_max_response_size c) enabled) None c of
        (res, response_error, c) \<Rightarrow>
          (bindR res (\<lambda>_. case response_error of Some error \<Rightarrow> Err error | None \<Rightarrow> Ok ()), c))"

definition set_autocommit :: "'t cenv \<Rightarrow> bool \<Rightarrow> 't Conn \<Rightarrow> (unit, CursorError) outcome \<times> 't Conn" where
  "set_autocommit E enabled c = set_autocommit_with_timeouts E enabled (cn_timeouts c) c"

definition try_deallocate :: "nat \<Rightarrow> 't Conn \<Rightarrow> (bool \<times> 't Conn, FramingError) outcome" where
  "try_deallocate statement_id c = try_queue_deallocate statement_id c"

section \<open>Steps\<close>

text \<open>What another thread can do while an operation may be running.\<close>

inductive other_step :: "'t Conn \<Rightarrow> 't Conn \<Rightarrow> bool" where
  Cancel: "other_step c (snd (cancel c))"
| Close: "other_step c (close_connection c)"
| Queue_closes: "try_queue_closes ids c = Ok c' \<Longrightarrow> other_step c c'"
| Queue_deallocate: "try_queue_deallocate i c = Ok (b, c') \<Longrightarrow> other_step c c'"
| Tick: "other_step c (watchdog_run now c)"

text \<open>A connection with the token of the operation that runs on it, if one does.\<close>

type_synonym 't system = "'t Conn \<times> nat option option"

inductive conn_step :: "('t, 'z) env_scheme \<Rightarrow> 't system \<Rightarrow> 't system \<Rightarrow> bool" for E where
  Begin: "begin_operation E ts c = (Ok (sock, token), c') \<Longrightarrow> conn_step E (c, None) (c', Some token)"
| Refuse: "begin_operation E ts c = (Err e, c') \<Longrightarrow> conn_step E (c, None) (c', None)"
| Begin_panic: "begin_operation E ts c = (Panic, c') \<Longrightarrow> conn_step E (c, None) (c', None)"
| Work: "conn_step E (c, Some token) (c\<lparr>cn_state := st, cn_delayed := d\<rparr>, Some token)"
| Finish: "finish_operation token result c = (res, c') \<Longrightarrow> result \<noteq> NoFuel \<Longrightarrow> conn_step E (c, Some token) (c', None)"
| Other: "other_step c c' \<Longrightarrow> conn_step E (c, r) (c', r)"

inductive reachable :: "('t, 'z) env_scheme \<Rightarrow> 't system \<Rightarrow> bool" for E where
  Initial: "sc_raw (control sock) \<noteq> None \<Longrightarrow> reachable E (Conn_new mp sock st d ts, None)"
| Step: "reachable E s \<Longrightarrow> conn_step E s s' \<Longrightarrow> reachable E s'"

section \<open>The invariant\<close>

abbreviation is_shut :: "'t Conn \<Rightarrow> bool" where
  "is_shut c \<equiv> sc_raw (cn_control c) = None"

text \<open>The watchdog is armed for the running operation, or has fired for it.\<close>

definition wd_ok :: "nat option option \<Rightarrow> WatchdogState \<Rightarrow> bool" where
  "wd_ok r w \<longleftrightarrow> (case r of
       Some (Some t) \<Rightarrow> (\<exists>dl. wd_active w = Some (t, dl)) \<or> wd_active w = None \<and> wd_fired_token w = t
     | _ \<Rightarrow> wd_active w = None)"

definition wd_fired :: "nat option option \<Rightarrow> WatchdogState \<Rightarrow> bool" where
  "wd_fired r w \<longleftrightarrow> (\<exists>t. r = Some (Some t) \<and> wd_active w = None \<and> wd_fired_token w = t)"

definition conn_inv :: "'t system \<Rightarrow> bool" where
  "conn_inv s \<longleftrightarrow> (case s of (c, r) \<Rightarrow>
     (cn_held c \<longleftrightarrow> r \<noteq> None) \<and> (r \<noteq> None \<or> cn_poisoned c \<longrightarrow> cn_sock c = None) \<and> (r \<noteq> None \<longrightarrow> \<not> cn_poisoned c)
     \<and> (\<not> cn_poisoned c \<longrightarrow> cn_operation_state c \<le> OPERATION_CANCELLED \<and> (cn_operation_state c = OPERATION_IDLE \<longleftrightarrow> r = None)
         \<and> wd_ok r (cn_watchdog c)
         \<and> (is_shut c \<longrightarrow> cn_closing c \<or> cn_operation_state c = OPERATION_CANCELLED \<or> wd_fired r (cn_watchdog c))))"

lemma shut_simps [simp]: "cn_held (shut c) = cn_held c" "cn_sock (shut c) = cn_sock c" "cn_poisoned (shut c) = cn_poisoned c"
  "cn_operation_state (shut c) = cn_operation_state c" "cn_watchdog (shut c) = cn_watchdog c"
  "cn_closing (shut c) = cn_closing c" "is_shut (shut c)" "cn_state (shut c) = cn_state c" "cn_delayed (shut c) = cn_delayed c"
  by (auto simp: shut_def SocketControl_shutdown_def split: option.splits RawSocket.splits)

lemma inv_cancel: "conn_inv (c, r) \<Longrightarrow> conn_inv (snd (cancel c), r)"
  by (cases "cn_poisoned c") (auto simp: conn_inv_def cancel_def)

lemma inv_close: "conn_inv (c, r) \<Longrightarrow> conn_inv (close_connection c, r)"
  by (auto simp: conn_inv_def close_connection_def Let_def)

lemma inv_tick: "conn_inv (c, r) \<Longrightarrow> conn_inv (watchdog_run now c, r)"
proof -
  assume inv: "conn_inv (c, r)"
  show ?thesis
  proof (cases "fst (watchdog_turn now (cn_watchdog c)) = Fire")
    case True
    then obtain t dl where a: "wd_active (cn_watchdog c) = Some (t, dl)"
      and w: "watchdog_run now c = shut (c\<lparr>cn_watchdog := (cn_watchdog c)\<lparr>wd_active := None, wd_fired_token := t\<rparr>\<rparr>)"
      by (auto simp: watchdog_turn_def watchdog_run_def split: option.splits if_splits)
    have "r = Some (Some t)" if "\<not> cn_poisoned c"
      using inv that a by (auto simp: conn_inv_def wd_ok_def split: option.splits)
    with inv show ?thesis by (auto simp: conn_inv_def w wd_ok_def wd_fired_def)
  next
    case False
    then have "watchdog_run now c = c"
      by (auto simp: watchdog_turn_def watchdog_run_def split: option.splits if_splits)
    with inv show ?thesis by simp
  qed
qed

lemma inv_other: "other_step c c' \<Longrightarrow> conn_inv (c, r) \<Longrightarrow> conn_inv (c', r)"
proof (induction rule: other_step.induct)
  case (Queue_closes ids c c')
  then show ?case by (auto simp: try_queue_closes_def conn_inv_def split: if_splits)
next
  case (Queue_deallocate i c b c')
  then show ?case by (auto simp: try_queue_deallocate_def conn_inv_def split: if_splits)
qed (simp_all add: inv_cancel inv_close inv_tick)

lemma arm_Ok:
  assumes "arm now timeout w = (Ok token, w')"
  shows "wd_active w = None \<Longrightarrow> wd_ok (Some token) w'" and "token = None \<Longrightarrow> w' = w"
  using assms by (auto simp: arm_def wd_ok_def Let_def split: option.splits if_splits)

text \<open>What a successful start of an operation does.\<close>

lemma begin_Ok:
  assumes "begin_operation E ts c = (Ok (sock, token), c')"
  shows "\<not> cn_poisoned c \<and> \<not> cn_closing c \<and> cn_operation_state c = OPERATION_IDLE \<and> cn_sock c \<noteq> None"
    and "\<exists>w d. arm (tr_now (env_T E) (inner (the (cn_sock c)))) (t_operation (Timeouts_bounded ts)) (cn_watchdog c) = (Ok token, w)
      \<and> bindR (add_cleanups ''close'' (cn_pending_closes c) (cn_delayed c)) (add_cleanups ''release'' (cn_pending_deallocates c)) = Ok d
      \<and> c' = c\<lparr>cn_sock := None, cn_operation_state := OPERATION_ACTIVE, cn_held := True, cn_watchdog := w,
           cn_pending_closes := [], cn_pending_deallocates := [], cn_delayed := d\<rparr>"
  using assms by (auto simp: begin_operation_def Let_def split: if_splits option.splits outcome.splits prod.splits)

lemma begin_not_Ok:
  assumes "begin_operation E ts c = (r, c')" and "\<And>x. r \<noteq> Ok x" and "r \<noteq> NoFuel"
  shows "cn_poisoned c' \<or> cn_closing c' \<or> cn_sock c' = None" and "conn_inv (c, None) \<Longrightarrow> conn_inv (c', None)"
  using assms
  by (auto simp: begin_operation_def conn_inv_def unwind_def Let_def split: if_splits option.splits outcome.splits prod.splits)

lemma inv_begin:
  assumes "begin_operation E ts c = (Ok (sock, token), c')" and "conn_inv (c, None)"
  shows "conn_inv (c', Some token)"
proof -
  note b = begin_Ok [OF assms(1)]
  from b(2) obtain w d where a: "arm (tr_now (env_T E) (inner (the (cn_sock c)))) (t_operation (Timeouts_bounded ts))
      (cn_watchdog c) = (Ok token, w)"
    and c': "c' = c\<lparr>cn_sock := None, cn_operation_state := OPERATION_ACTIVE, cn_held := True, cn_watchdog := w,
           cn_pending_closes := [], cn_pending_deallocates := [], cn_delayed := d\<rparr>" by blast
  have "wd_active (cn_watchdog c) = None" "\<not> is_shut c"
    using assms(2) b(1) by (auto simp: conn_inv_def wd_ok_def wd_fired_def)
  with arm_Ok(1) [OF a] b(1) show ?thesis by (auto simp: conn_inv_def c')
qed

lemma disarm_ok:
  assumes "disarm token w = (fired, w')" and "wd_ok (Some token) w"
  shows "fired \<longleftrightarrow> wd_fired (Some token) w" and "wd_ok None w'"
  using assms by (auto simp: disarm_def wd_ok_def wd_fired_def split: option.splits if_splits prod.splits)

text \<open>An operation that ends puts its socket back only on success and when nobody closed the connection.\<close>

lemma finish_closes:
  assumes "finish_operation token result c = (res, c')" and "cn_sock c = None" and "result \<noteq> NoFuel"
  shows "res \<noteq> Ok () \<Longrightarrow> cn_poisoned c' \<or> cn_closing c' \<and> cn_sock c' = None"
    and "res = Ok () \<Longrightarrow> \<exists>sock w. result = Ok sock \<and> \<not> cn_closing c \<and> cn_operation_state c \<noteq> OPERATION_CANCELLED
       \<and> disarm token (cn_watchdog c) = (False, w)
       \<and> c' = c\<lparr>cn_watchdog := w, cn_operation_state := OPERATION_IDLE, cn_held := False, cn_sock := Some sock\<rparr>"
  using assms
  by (auto simp: finish_operation_def unwind_def Let_def split: if_splits prod.splits outcome.splits CursorError.splits)

lemma inv_finish:
  assumes "finish_operation token result c = (res, c')" and "result \<noteq> NoFuel" and "conn_inv (c, Some token)"
  shows "conn_inv (c', None)"
proof -
  have c: "cn_held c" "cn_sock c = None" "\<not> cn_poisoned c" "wd_ok (Some token) (cn_watchdog c)"
    "is_shut c \<longrightarrow> cn_closing c \<or> cn_operation_state c = OPERATION_CANCELLED \<or> wd_fired (Some token) (cn_watchdog c)"
    using assms(3) by (auto simp: conn_inv_def)
  obtain fired w where d: "disarm token (cn_watchdog c) = (fired, w)" by (metis surj_pair)
  note dis = disarm_ok [OF d c(4)]
  show ?thesis
  proof (cases "result = Panic")
    case True
    then show ?thesis using assms(1) c by (auto simp: finish_operation_def conn_inv_def unwind_def)
  next
    case False
    then show ?thesis using assms(1,2) c dis d
      by (auto simp: finish_operation_def conn_inv_def Let_def split: if_splits outcome.splits CursorError.splits)
  qed
qed

lemma conn_step_inv: "conn_step E s s' \<Longrightarrow> conn_inv s \<Longrightarrow> conn_inv s'"
proof (induction rule: conn_step.induct)
  case (Refuse ts c e c')
  then show ?case using begin_not_Ok(2) [OF Refuse.hyps] by simp
next
  case (Begin_panic ts c c')
  then show ?case using begin_not_Ok(2) [OF Begin_panic.hyps] by simp
next
  case (Work c token st d)
  then show ?case by (simp add: conn_inv_def)
qed (auto intro: inv_begin inv_finish inv_other)

lemma reachable_inv: "reachable E s \<Longrightarrow> conn_inv s"
proof (induction rule: reachable.induct)
  case (Initial sock mp st d ts)
  then show ?case
    by (auto simp: conn_inv_def Conn_new_def wd_ok_def OperationWatchdog_new_def)
qed (rule conn_step_inv)

text \<open>Other threads never give a busy connection its socket back.\<close>

lemma other_keeps:
  assumes "other_step\<^sup>*\<^sup>* c c'" and "cn_held c"
  shows "cn_held c' \<and> cn_state c' = cn_state c \<and> cn_poisoned c' = cn_poisoned c
     \<and> (cn_sock c = None \<longrightarrow> cn_sock c' = None) \<and> (cn_closing c \<longrightarrow> cn_closing c')
     \<and> (cn_operation_state c = OPERATION_CANCELLED \<longrightarrow> cn_operation_state c' = OPERATION_CANCELLED)
     \<and> cn_delayed c' = cn_delayed c"
  using assms(1)
proof (induction rule: rtranclp_induct)
  case (step c1 c2)
  from step.hyps(2) step.IH assms(2) show ?case
    by (cases rule: other_step.cases)
       (auto simp: cancel_def close_connection_def try_queue_closes_def try_queue_deallocate_def watchdog_run_def Let_def
         watchdog_turn_def split: if_splits prod.splits option.splits)
qed (use assms(2) in simp)

text \<open>A connection no operation can be started on any more.\<close>

definition dead :: "'t Conn \<Rightarrow> bool" where
  "dead c \<longleftrightarrow> cn_poisoned c \<or> cn_closing c \<or> cn_sock c = None"

lemma dead_run:
  assumes "dead c"
  shows "\<exists>e c'. run_locked_with_timeouts E ts f r c = (Err e, r, c') \<and> (e = Closed \<or> e = Poisoned) \<and> dead c'"
  using assms by (auto simp: dead_def run_locked_with_timeouts_def begin_operation_def Let_def split: option.splits)

lemma run_locked_cases:
  assumes "begin_operation E ts c = (Ok (sock, token), c1)" and "f r (cn_state c1) (cn_delayed c1) sock = (result, st, d, r')"
  shows "run_locked_with_timeouts E ts f r c = (case finish_operation token result
      (env_others E (c1\<lparr>cn_state := st, cn_delayed := d\<rparr>)) of (res, c) \<Rightarrow> (res, r', c))"
  using assms by (simp add: run_locked_with_timeouts_def)

lemma begin_held:
  assumes "begin_operation E ts c = (Ok (sock, token), c1)"
  shows "cn_held c1" "cn_sock c1 = None" "cn_state c1 = cn_state c" "\<not> cn_poisoned c1"
  using begin_Ok [OF assms] by auto

text \<open>An operation that fails leaves a dead connection.\<close>

lemma run_failed:
  assumes "\<And>c. other_step\<^sup>*\<^sup>* c (env_others E c)" and "run_locked_with_timeouts E ts f r c = (res, r', c')"
    and "res \<noteq> Ok ()" and "res \<noteq> NoFuel"
  shows "dead c'"
proof (cases "begin_operation E ts c")
  case (Pair b c1)
  show ?thesis
  proof (cases b)
    case (Ok p)
    then obtain sock token where b: "begin_operation E ts c = (Ok (sock, token), c1)" using Pair by (cases p) auto
    obtain result st d r1 where f: "f r (cn_state c1) (cn_delayed c1) sock = (result, st, d, r1)" by (metis surj_pair)
    let ?c = "c1\<lparr>cn_state := st, cn_delayed := d\<rparr>"
    have "cn_sock (env_others E ?c) = None"
      using other_keeps [OF assms(1), of ?c] begin_held [OF b] by simp
    moreover obtain res1 c2 where fin: "finish_operation token result (env_others E ?c) = (res1, c2)" by (metis surj_pair)
    moreover have "res1 = res" "c2 = c'" using run_locked_cases [where f = f, OF b f] fin assms(2) by auto
    moreover have "result \<noteq> NoFuel" using fin \<open>res1 = res\<close> assms(4) by (auto simp: finish_operation_def)
    ultimately show ?thesis using finish_closes(1) [of token result "env_others E ?c" res c'] assms(3) by (auto simp: dead_def)
  qed (use Pair assms begin_not_Ok(1) [of E ts c] in \<open>auto simp: run_locked_with_timeouts_def dead_def\<close>)
qed

text \<open>An operation that succeeds has run on the state of the connection, and what it left is the new state.\<close>

lemma run_locked_Ok:
  assumes "\<And>c. other_step\<^sup>*\<^sup>* c (env_others E c)" and run: "run_locked_with_timeouts E ts f r c = (Ok u, r', c')"
  obtains sock token c1 sock' st d where "begin_operation E ts c = (Ok (sock, token), c1)" and "cn_state c1 = cn_state c"
     and "f r (cn_state c1) (cn_delayed c1) sock = (Ok sock', st, d, r')"
     and "cn_state c' = st" and "cn_delayed c' = d" and "cn_sock c' = Some sock'"
     and "\<not> cn_poisoned c'" and "\<not> cn_closing c'" and "\<not> cn_held c'"
proof -
  obtain sock token c1 where b: "begin_operation E ts c = (Ok (sock, token), c1)"
    using run by (auto simp: run_locked_with_timeouts_def split: prod.splits outcome.splits)
  obtain result st d r1 where f: "f r (cn_state c1) (cn_delayed c1) sock = (result, st, d, r1)" by (metis surj_pair)
  let ?c = "c1\<lparr>cn_state := st, cn_delayed := d\<rparr>"
  have o: "cn_sock (env_others E ?c) = None" "cn_state (env_others E ?c) = st" "\<not> cn_poisoned (env_others E ?c)"
    "cn_delayed (env_others E ?c) = d"
    using other_keeps [OF assms(1), of ?c] begin_held [OF b] by simp_all
  have fin: "finish_operation token result (env_others E ?c) = (Ok (), c')" and r1: "r1 = r'"
    using run run_locked_cases [where f = f, OF b f] by (auto split: prod.splits)
  then have "result \<noteq> NoFuel" by (auto simp: finish_operation_def)
  with finish_closes(2) [OF fin o(1)] obtain sock' w where "result = Ok sock'" "\<not> cn_closing (env_others E ?c)"
    "c' = (env_others E ?c)\<lparr>cn_watchdog := w, cn_operation_state := OPERATION_IDLE, cn_held := False, cn_sock := Some sock'\<rparr>" by auto
  with f r1 o b begin_held [OF b] show thesis by (intro that [of sock token c1 sock' st d]) auto
qed

lemma add_cleanups_holds:
  assumes "dc_waits d ss cs"
  shows "\<exists>d'. add_cleanups command ids d = Ok d'
     \<and> dc_waits d' ss (cs @ map (\<lambda>i. (command, ''X'' @ command @ '' '' @ show_nat i, True)) ids)"
  using assms
proof (induction ids arbitrary: d cs)
  case (Cons i ids)
  from add_inner_holds [OF Cons.prems, of "[''X'', command, '' '', show_nat i]" command True] obtain d1
    where "add_xcommand_cleanup command [show_nat i] d = Ok d1"
      "dc_waits d1 ss (cs @ [(command, ''X'' @ command @ '' '' @ show_nat i, True)])"
    by (auto simp: add_xcommand_cleanup_def add_cleanup_def)
  with Cons.IH [OF this(2)] show ?case by auto
qed auto

definition close_command :: "nat \<Rightarrow> delayed" where
  "close_command i = (''close'', ''Xclose '' @ show_nat i, True)"

definition release_command :: "nat \<Rightarrow> delayed" where
  "release_command i = (''release'', ''Xrelease '' @ show_nat i, True)"

lemma cleanup_commands:
  assumes "dc_waits d ss cs"
  shows "\<exists>d'. add_cleanups ''close'' ids d = Ok d' \<and> dc_waits d' ss (cs @ map close_command ids)"
    and "\<exists>d'. add_cleanups ''release'' ids d = Ok d' \<and> dc_waits d' ss (cs @ map release_command ids)"
  using add_cleanups_holds [OF assms, of "''close''" ids] add_cleanups_holds [OF assms, of "''release''" ids]
  by (simp_all add: close_command_def [abs_def] release_command_def [abs_def])

lemma autocommit_operation_ok:
  assumes "autocommit_operation E n enabled None state delayed sock = (Ok sock', state', delayed', None)"
  shows "st_autocommit state' = enabled"
  using assms by (auto simp: autocommit_operation_def Let_def split: if_splits prod.splits outcome.splits option.splits)

section \<open>Properties\<close>


definition example_conn :: "script Conn" where
  "example_conn = Conn_new None example_in (ServerState_new ''SHA512'' Lit 1 1000) DelayedCommands_new
     \<lparr>t_read = None, t_write = None, t_operation = Some 5\<rparr>"

definition quiet_env :: "nat \<Rightarrow> script cenv" where
  "quiet_env F = \<lparr>env_T = script_transport, env_F = F, env_pol = (\<lambda>k. 2), env_debug = True, env_L = ref_libs,
     env_others = (\<lambda>c. c)\<rparr>"

lemma quiet_others: "other_step\<^sup>*\<^sup>* c (env_others (quiet_env F) c)"
  by (simp add: quiet_env_def)

lemma example_begin:
  "\<exists>sock token c1. begin_operation ((quiet_env 9)\<lparr>env_others := g\<rparr>) (cn_timeouts example_conn) example_conn = (Ok (sock, token), c1)"
  by (simp add: begin_operation_def example_conn_def Conn_new_def quiet_env_def script_transport_def example_in_def
      ServerSock_with_control_def ServerSock_start_operation_def SocketControl_start_operation_def ActiveTimeouts_new_def
      Timeouts_bounded_def MAX_TIMEOUT_def MAX_TIMEOUT_SECONDS_def instant_max_def arm_def OperationWatchdog_new_def
      ensure_worker_def Let_def)


text \<open>C26. A connection on which an operation failed is never used again: whatever the failure and whatever other
  threads did meanwhile, every later operation on it is refused without being run and the connection stays dead.\<close>

theorem failed_operation_closes:
  assumes "\<And>c. other_step\<^sup>*\<^sup>* c (env_others E c)" and "run_locked_with_timeouts E ts f r c = (Err e, r', c')"
  shows "\<exists>e' c''. run_locked_with_timeouts E ts' g q c' = (Err e', q, c'') \<and> (e' = Closed \<or> e' = Poisoned) \<and> dead c''"
  by (rule dead_run, rule run_failed [OF assms]) simp_all

theorem failed_operation_closes_witness:
  "\<exists>e' c''. run_locked_with_timeouts (quiet_env 9) \<lparr>t_read = None, t_write = None, t_operation = None\<rparr>
      (\<lambda>n st d s. (Ok s, st, d, Suc n)) 7 (close_connection example_conn) = (Err e', 7, c'')
      \<and> (e' = Closed \<or> e' = Poisoned) \<and> dead c''"
proof -
  have "run_locked_with_timeouts (quiet_env 9) \<lparr>t_read = None, t_write = None, t_operation = None\<rparr>
      (\<lambda>u st d s. (Ok s, st, d, u)) () (close_connection example_conn) = (Err Closed, (), close_connection example_conn)"
    by (simp add: run_locked_with_timeouts_def begin_operation_def close_connection_def example_conn_def Conn_new_def
        shut_def SocketControl_shutdown_def example_in_def ServerSock_with_control_def SocketControl_new_def Let_def)
  from failed_operation_closes [OF quiet_others this] show ?thesis .
qed

text \<open>C27. Cancelling wins: when another thread cancels a running operation, the operation reports the cancellation
  whatever it returned, the socket has been shut down and the connection is closing.\<close>

theorem cancelled_operation_reports:
  assumes "begin_operation E ts c = (Ok (sock, token), c1)"
    and "f r (cn_state c1) (cn_delayed c1) sock = (result, st, d, r')" and "result \<noteq> Panic" and "result \<noteq> NoFuel"
    and "other_step\<^sup>*\<^sup>* (snd (cancel (c1\<lparr>cn_state := st, cn_delayed := d\<rparr>))) (env_others E (c1\<lparr>cn_state := st, cn_delayed := d\<rparr>))"
  shows "\<exists>c'. run_locked_with_timeouts E ts f r c = (Err Cancelled, r', c') \<and> cn_closing c' \<and> cn_sock c' = None"
proof -
  let ?c = "c1\<lparr>cn_state := st, cn_delayed := d\<rparr>"
  have "cn_operation_state ?c = OPERATION_ACTIVE" using begin_Ok(2) [OF assms(1)] by auto
  then have k: "cn_operation_state (snd (cancel ?c)) = OPERATION_CANCELLED" "cn_sock (snd (cancel ?c)) = None"
      "cn_held (snd (cancel ?c))"
    using begin_held [OF assms(1)] by (simp_all add: cancel_def)
  with other_keeps [OF assms(5)] have "cn_operation_state (env_others E ?c) = OPERATION_CANCELLED" "cn_sock (env_others E ?c) = None"
    by auto
  with assms(3,4) run_locked_cases [where f = f, OF assms(1,2)] show ?thesis
    by (auto simp: finish_operation_def Let_def split: prod.splits)
qed

theorem cancelled_operation_reports_witness:
  "\<exists>c'. run_locked_with_timeouts ((quiet_env 9)\<lparr>env_others := \<lambda>c. snd (cancel c)\<rparr>) (cn_timeouts example_conn)
     (\<lambda>n st d s. (Ok s, st, d, Suc n)) 7 example_conn = (Err Cancelled, 8, c') \<and> cn_closing c' \<and> cn_sock c' = None"
proof -
  let ?E = "(quiet_env 9)\<lparr>env_others := \<lambda>c. snd (cancel c)\<rparr>"
  from example_begin obtain sock token c1
    where b: "begin_operation ?E (cn_timeouts example_conn) example_conn = (Ok (sock, token), c1)" by blast
  show ?thesis
    using cancelled_operation_reports [where f = "\<lambda>n st d s. (Ok s, st, d, Suc n)" and r = "7 :: nat", OF b refl] by simp
qed





end
