(* ===== verification/Error_Text.thy ===== *)
theory Error_Text
  imports Cursor_Error Framing_Sock
begin

text \<open>
  The texts of errors: \<open>Display\<close> of \<open>BadReply\<close> (\<open>src/cursor/replies.rs\<close>) and of \<open>CursorError\<close>
  (\<open>src/cursor/mod.rs\<close>), as their \<open>#[error(...)]\<close> attributes say. They go over the wire when an
  upload is refused.

  The record \<open>texts\<close> holds what other code prints: the standard library's texts of I/O errors and its debug
  form of a character and of a string, and the messages of conversion errors.
\<close>

record texts =
  tx_io :: "IoError \<Rightarrow> bytes"
  tx_conv :: "conv_msg \<Rightarrow> bytes"
  tx_debug_char :: "byte \<Rightarrow> bytes"
  tx_debug_str :: "bytes \<Rightarrow> bytes"

fun BadReply_fmt :: "texts \<Rightarrow> BadReply \<Rightarrow> bytes" where
  "BadReply_fmt X (Unicode s) = ''invalid utf-8 encoding in '' @ s"
| "BadReply_fmt X (UnknownResponse s) = ''unknown server response: '' @ from_utf8_lossy s"
| "BadReply_fmt X (SepNotFound b) = ''expected separator '' @ tx_debug_char X b @ '' not found''"
| "BadReply_fmt X (InvalidHeader s) = ''invalid reply header: '' @ s"
| "BadReply_fmt X (UnexpectedHeader s) = ''unexpected reply header: '' @ from_utf8_lossy s"
| "BadReply_fmt X UnexpectedEnd = ''unexpected end of server response''"
| "BadReply_fmt X (TooManyColumns n) = ''too many columns in result set: '' @ show_nat n"
| "BadReply_fmt X (TooFewColumns n) = ''too few columns in result set: '' @ show_nat n"
| "BadReply_fmt X (TooManyIncludedRows included tot) = ''result header includes '' @ show_nat included
     @ '' rows but reports only '' @ show_nat tot @ '' total rows''"
| "BadReply_fmt X (TooManyRows tot) = ''result contains more rows than its reported total of '' @ show_nat tot"
| "BadReply_fmt X InvalidBackslashEscape = ''invalid backslash escape in result set''"
| "BadReply_fmt X InvalidQuotedIdentifier = ''invalid quoted identifier in result metadata''"
| "BadReply_fmt X (ColumnIndexOutOfBounds i n) = ''column index '' @ show_nat i @ '' out of bounds, have only ''
     @ show_nat n @ '' columns''"
| "BadReply_fmt X (ResultIdMismatch expected actual) = ''result id '' @ show_nat actual
     @ '' in export reply does not match requested result id '' @ show_nat expected"
| "BadReply_fmt X (ColumnCountMismatch expected actual) = ''export reply has '' @ show_nat actual
     @ '' columns, expected '' @ show_nat expected"
| "BadReply_fmt X (RowCountMismatch expected actual) = ''export reply contains '' @ show_nat actual
     @ '' rows, expected '' @ show_nat expected"
| "BadReply_fmt X (RowOffsetMismatch expected actual) = ''export reply starts at row '' @ show_nat actual
     @ '', expected '' @ show_nat expected"
| "BadReply_fmt X (EmptyExportWindow start requested) = ''export reply for '' @ show_nat requested
     @ '' rows at offset '' @ show_nat start @ '' contains no row data''"

fun CursorError_fmt :: "texts \<Rightarrow> CursorError \<Rightarrow> bytes" where
  "CursorError_fmt X (Server e) = display e"
| "CursorError_fmt X Closed = ''connection has been closed''"
| "CursorError_fmt X (IO e) = tx_io X e"
| "CursorError_fmt X Timeout = ''operation timed out''"
| "CursorError_fmt X Cancelled = ''operation was cancelled; connection closed by cancel''"
| "CursorError_fmt X (Framing e) = FramingError_fmt e"
| "CursorError_fmt X (Bad e) = BadReply_fmt X e"
| "CursorError_fmt X NoResultSet = ''there is no result set''"
| "CursorError_fmt X (Conversion expected_type m) = ''could not convert to '' @ expected_type @ '': '' @ tx_conv X m"
| "CursorError_fmt X (Metadata s) = ''could not retrieve server metadata: '' @ s"
| "CursorError_fmt X (InvalidRange start count tot) = ''invalid binary fetch ['' @ show_nat start @ '', ''
     @ show_nat (min usize_max (start + count)) @ '') for result set with '' @ show_nat tot @ '' rows''"
| "CursorError_fmt X (FileTransfer s) = ''file transfer failed: '' @ s"
| "CursorError_fmt X UploadComplete = ''server completed the upload before the producer''"
| "CursorError_fmt X (UploadRefused refusal server) = CursorError_fmt X refusal @ ''; server response: '' @ server"
| "CursorError_fmt X PreparedResult = ''prepared statement metadata cannot be fetched with Xexportbin''"
| "CursorError_fmt X (ResultNotResident included tot) = ''result is not server-resident ('' @ show_nat included
     @ '' of '' @ show_nat tot @ '' rows were returned inline)''"
| "CursorError_fmt X Poisoned = ''connection state is poisoned''"

end
