(* ===== verification/Transport_Invariant.thy ===== *)
theory Transport_Invariant
  imports Framing_Sock
begin

text \<open>
  Properties of a transport that no operation on it changes, such as the kind of stream it is: whatever keeps them at single
  reads and writes keeps them through the reading of messages and through \<open>write_all\<close>.
\<close>

section \<open>Readers\<close>

locale reader_invariant =
  fixes rd :: "'s reader" and J :: "'s \<Rightarrow> bool"
  assumes rd_keeps: "J s \<Longrightarrow> J (snd (rd n s))"
begin

abbreviation JR :: "'s MapiReader \<Rightarrow> bool" where
  "JR r \<equiv> J (rd_inner r)"

lemma read_exact_keeps: "J s \<Longrightarrow> J (snd (read_exact rd f n s))"
proof (induction f arbitrary: n s)
  case (Suc f)
  obtain r1 s1 where r1: "rd n s = (r1, s1)" by (cases "rd n s")
  then have s1: "J s1" using rd_keeps [OF Suc.prems, of n] by simp
  then have "J (snd (read_exact rd f m s1))" for m by (rule Suc.IH)
  with s1 r1 Suc.prems show ?case by (cases r1) (auto intro!: bindS_keeps [where J = J])
qed simp

lemma interpret_keeps: "JR r \<Longrightarrow> JR (snd (reader_interpret buf r))"
  by (auto simp: reader_interpret_def split: prod.splits)

lemma read_header_keeps: "JR r \<Longrightarrow> JR (snd (read_header rd f n r))"
  using read_exact_keeps [of "rd_inner r" f n] interpret_keeps
  by (auto simp: read_header_def split: prod.splits intro!: bindS_keeps [where J = JR])

lemma read_some_keeps: "JR r \<Longrightarrow> JR (snd (read_some rd n r))"
  using rd_keeps [of "rd_inner r" n] by (auto simp: read_some_def split: prod.splits intro!: bindS_keeps [where J = JR])

lemma read_body_keeps: "JR r \<Longrightarrow> JR (snd (read_body rd remaining lst n r))"
  using read_some_keeps interpret_keeps
  by (auto simp: read_body_def Let_def split: prod.splits intro!: bindS_keeps [where J = JR])

lemma do_read_keeps: "JR r \<Longrightarrow> JR (snd (do_read rd F f n r))"
  using read_body_keeps read_header_keeps
  by (induction f arbitrary: r) (auto split: BlockState.splits intro!: bindS_keeps [where J = JR])

lemma skip_to_end_keeps: "JR r \<Longrightarrow> JR (snd (skip_to_end rd F f r))"
  using do_read_keeps by (induction f arbitrary: r) (auto intro!: bindS_keeps [where J = JR])

lemma finish_keeps: "MapiReader_finish rd F r = Ok s \<Longrightarrow> JR r \<Longrightarrow> J s"
  using skip_to_end_keeps [of r F F] by (auto simp: MapiReader_finish_def split: if_splits prod.splits)

lemma take_read_keeps: "take_read_to_end rd F pol f limit r acc = (res, r', acc') \<Longrightarrow> JR r \<Longrightarrow> JR r'"
proof (induction f arbitrary: limit r acc)
  case (Suc f)
  then show ?case
    using do_read_keeps [OF Suc.prems(2), of F F "min (pol f) limit"]
    by (cases "do_read rd F F (min (pol f) limit) r"; cases "fst (do_read rd F F (min (pol f) limit) r)") (auto split: if_splits)
qed simp

lemma limited_tail_keeps: "limited_tail rd F r = Ok s \<Longrightarrow> JR r \<Longrightarrow> J s"
  using bindS_keeps [of JR "do_read rd F F 1 r" "\<lambda>extra r. if length extra \<noteq> 0 then (Err (IoFraming TooLong), r) else (Ok (), r)"]
    do_read_keeps [of r F F 1] finish_keeps
  by (auto simp: limited_tail_def split: if_splits prod.splits)

lemma to_limited_keeps: "to_limited rd F pol s buf limit = (Ok s', text) \<Longrightarrow> J s \<Longrightarrow> J s'"
  using take_read_keeps limited_tail_keeps
  by (fastforce simp: to_limited_def MapiReader_new_def split: prod.splits)

lemma to_limited_string_keeps: "to_limited_string rd F pol s buf limit = (Ok s', text) \<Longrightarrow> J s \<Longrightarrow> J s'"
  using take_read_keeps limited_tail_keeps
  by (fastforce simp: to_limited_string_def MapiReader_new_def split: prod.splits if_splits)

end

section \<open>Sockets\<close>

lemma on_inner_keeps: "I (snd (op (inner s))) \<Longrightarrow> I (inner (snd (on_inner op s)))"
  by (auto simp: on_inner_def split: prod.splits)

locale read_invariant =
  fixes T :: "'t transport" and I :: "'t \<Rightarrow> bool"
  assumes read_keeps: "I t \<Longrightarrow> I (snd (tr_read T n t))"
    and read_timeout_keeps: "I t \<Longrightarrow> I (snd (tr_set_read_timeout T d t))"
begin

abbreviation IS :: "'t ServerSock \<Rightarrow> bool" where
  "IS s \<equiv> I (inner s)"

lemma sock_read_keeps: "IS s \<Longrightarrow> IS (snd (ServerSock_read T n s))"
proof -
  assume s: "IS s"
  have a: "IS (snd (apply_read_timeout T s))"
    using s by (auto simp: apply_read_timeout_def intro!: bindS_keeps [where J = IS] on_inner_keeps [where I = I] read_timeout_keeps)
  have f: "IS (snd (fill_buffer T b s'))" if "IS s'" for b s'
    using on_inner_keeps [where I = I and op = "tr_read T (length b)", OF read_keeps [OF that]]
    by (auto simp: fill_buffer_def split: prod.splits intro!: bindS_keeps [where J = IS])
  show ?thesis using s a f
    by (auto simp: ServerSock_read_def Let_def split: option.splits intro!: bindS_keeps [where J = IS] on_inner_keeps [where I = I] read_keeps)
qed

lemma sock_reader: "reader_invariant (ServerSock_read T) (\<lambda>s. I (inner s))"
  by unfold_locales (rule sock_read_keeps)

end

sublocale read_invariant \<subseteq> sock: reader_invariant "ServerSock_read T" "\<lambda>s. I (inner s)"
  by (rule sock_reader)

text \<open>Reading leaves the control block alone.\<close>

lemma inner_control: "control (snd (on_inner op s)) = control s"
  by (auto simp: on_inner_def split: prod.splits)

lemma sock_read_control:
  fixes T :: "'a transport"
  shows "control (snd (ServerSock_read T n s)) = control s"
proof -
  define J where "J = (\<lambda>s' :: 'a ServerSock. control s' = control s)"
  have o: "J s' \<Longrightarrow> J (snd (on_inner op s'))" for op :: "'a \<Rightarrow> ('b, IoError) outcome \<times> 'a" and s'
    by (simp add: J_def inner_control)
  have u: "J (s'\<lparr>last_read_timeout := x\<rparr>) = J s'" "J (s'\<lparr>read_buffer := y, read_position := i, read_length := l\<rparr>) = J s'"
    "J (s'\<lparr>read_position := i\<rparr>) = J s'" for s' x y i l by (simp_all add: J_def)
  have a: "J (snd (apply_read_timeout T s'))" if "J s'" for s'
    using that by (auto simp: apply_read_timeout_def u intro!: bindS_keeps [where J = J] o)
  have f: "J (snd (fill_buffer T b s'))" if "J s'" for b s'
    using o [OF that, of "tr_read T (length b)"]
    by (auto simp: fill_buffer_def u split: prod.splits intro!: bindS_keeps [where J = J])
  have "J (snd (ServerSock_read T n s))" if "J s"
    using that a f by (auto simp: ServerSock_read_def Let_def u split: option.splits intro!: bindS_keeps [where J = J] o)
  then show ?thesis by (simp add: J_def)
qed

interpretation sock_control: reader_invariant "ServerSock_read T" "\<lambda>s. control s = c"
  by unfold_locales (simp add: sock_read_control)

text \<open>What reads and writes of a socket keep, messages keep.\<close>

locale socket_invariant = reader_invariant "ServerSock_read T" J for T :: "'t transport" and J :: "'t ServerSock \<Rightarrow> bool" +
  assumes wr_keeps: "J s \<Longrightarrow> J (snd (ServerSock_write T buf s))"
begin

lemma write_all_keeps: "J s \<Longrightarrow> J (snd (write_all (ServerSock_write T) f buf s))"
proof (induction f arbitrary: buf s)
  case (Suc f)
  obtain r1 s1 where r1: "ServerSock_write T buf s = (r1, s1)" by (cases "ServerSock_write T buf s")
  then have "J s1" using wr_keeps [OF Suc.prems, of buf] by simp
  with r1 Suc show ?case by (cases r1) auto
qed simp

end

lemma sock_write_control: "control (snd (ServerSock_write T buf s)) = control s"
proof -
  have a: "control (snd (apply_write_timeout T s)) = control s"
    using inner_control [of "tr_set_write_timeout T (a_write (sc_timeouts (control s)))"]
    by (auto simp: apply_write_timeout_def on_inner_def split: prod.splits
        intro!: bindS_keeps [where J = "\<lambda>s'. control s' = control s"])
  show ?thesis using a
    by (auto simp: ServerSock_write_def with_write_timeout_def on_inner_def split: prod.splits
        intro!: bindS_keeps [where J = "\<lambda>s'. control s' = control s"])
qed

interpretation sock_both: socket_invariant T "\<lambda>s. P (control s)"
  by unfold_locales (simp_all add: sock_read_control sock_write_control)

locale transport_invariant = read_invariant +
  assumes write_keeps: "I t \<Longrightarrow> I (snd (tr_write T buf t))"
    and write_timeout_keeps: "I t \<Longrightarrow> I (snd (tr_set_write_timeout T d t))"
begin

lemma sock_write_keeps: "IS s \<Longrightarrow> IS (snd (ServerSock_write T buf s))"
proof -
  assume s: "IS s"
  have a: "IS (snd (apply_write_timeout T s))"
    using s by (auto simp: apply_write_timeout_def intro!: bindS_keeps [where J = IS] on_inner_keeps [where I = I] write_timeout_keeps)
  have w: "IS (snd (on_inner (tr_write T buf) s'))" if "IS s'" for s'
    using that by (intro on_inner_keeps [where I = I] write_keeps)
  show ?thesis using s a w
    by (auto simp: ServerSock_write_def with_write_timeout_def split: prod.splits intro!: bindS_keeps [where J = IS]) (metis snd_conv)
qed

lemma socket: "socket_invariant T (\<lambda>s. I (inner s))"
  by (intro socket_invariant.intro sock_reader) (unfold_locales, rule sock_write_keeps)

end

sublocale transport_invariant \<subseteq> both: socket_invariant T "\<lambda>s. I (inner s)"
  by (rule socket)

text \<open>What a scripted transport has sent stays sent.\<close>

interpretation script_sent: transport_invariant script_transport "\<lambda>s. prefix p (sent s)"
  by unfold_locales (auto simp: script_transport_def prefix_def split: list.splits event.splits allowance.splits prod.splits)

end
