(* ===== verification/Upload.thy ===== *)
theory Upload
  imports Conn Error_Text Transport_Invariant
begin

text \<open>
  Client-side files, \<open>src/cursor/upload.rs\<close>: recognising the server's request for a file, sending a file in
  messages of a bounded size, and the loop that serves all requests of a command.

  Data goes out through \<open>write_vectored\<close>, one slice per header and one per block, in groups of 64 blocks.
  \<open>fragment\<close> lemmas relate that to the framing of \<open>Framing_Blocks\<close>: a finished fragment is a framed message, an
  unfinished one is its blocks without the last one.

  The caller's producer is an argument: a function of its own state, the file name and the sink. The outcome of a
  Rust \<open>&mut self\<close> method is the pair of result and new state.
\<close>

section \<open>Model of the code: fragments\<close>

definition FILE_TRANSFER :: bytes where
  "FILE_TRANSFER = [CHR 0x01, CHR 0x03, CHR 0x0a]"

definition MORE :: bytes where
  "MORE = [CHR 0x01, CHR 0x02, CHR 0x0a]"

definition SCATTER_BLOCKS_PER_WRITE :: nat where
  "SCATTER_BLOCKS_PER_WRITE = 64"

text \<open>\<open>IoSlice::advance_slices\<close>: the slices that are used up go, and the first one left is shortened. It panics
  beyond the end of the slices.\<close>

fun advance_slices :: "nat \<Rightarrow> bytes list \<Rightarrow> bytes list option" where
  "advance_slices n [] = (if n = 0 then Some [] else None)"
| "advance_slices n (b # bs) = (if length b \<le> n then advance_slices (n - length b) bs else Some (drop n b # bs))"

fun vectored_loop :: "(bytes list \<Rightarrow> 's \<Rightarrow> (nat, IoError) outcome \<times> 's) \<Rightarrow> nat \<Rightarrow> bytes list \<Rightarrow> 's
    \<Rightarrow> (unit, IoError) outcome \<times> 's" where
  "vectored_loop wrv 0 remaining s = (NoFuel, s)"
| "vectored_loop wrv (Suc f) remaining s = (if remaining = [] then (Ok (), s) else
     case wrv remaining s of
       (Ok n, s) \<Rightarrow> if n = 0 then (Err (IoText WriteZero ''failed to write framed upload''), s)
          else (case advance_slices n remaining of None \<Rightarrow> (Panic, s) | Some rest \<Rightarrow> vectored_loop wrv f rest s)
     | (Err e, s) \<Rightarrow> if io_kind e = Interrupted then vectored_loop wrv f remaining s else (Err e, s)
     | (Panic, s) \<Rightarrow> (Panic, s)
     | (NoFuel, s) \<Rightarrow> (NoFuel, s))"

definition write_all_vectored :: "(bytes list \<Rightarrow> 's \<Rightarrow> (nat, IoError) outcome \<times> 's) \<Rightarrow> nat \<Rightarrow> bytes list \<Rightarrow> 's
    \<Rightarrow> (unit, IoError) outcome \<times> 's" where
  "write_all_vectored wrv F buffers s = (case advance_slices 0 buffers of
       None \<Rightarrow> (Panic, s) | Some remaining \<Rightarrow> vectored_loop wrv F remaining s)"

definition block_header :: "bytes \<Rightarrow> bool \<Rightarrow> nat \<Rightarrow> nat \<Rightarrow> bytes" where
  "block_header data finish blocks index =
     (let offset = index * BLOCKSIZE;
          len = min (length data - offset) BLOCKSIZE;
          lst = (finish \<and> index + 1 = blocks);
          (lo, hi) = u16_to_le_bytes (2 * len + of_bool lst)
      in [lo, hi])"

definition group_slices :: "bytes \<Rightarrow> bool \<Rightarrow> nat \<Rightarrow> nat \<Rightarrow> nat \<Rightarrow> bytes list" where
  "group_slices data finish blocks first lst = concat (map (\<lambda>index.
     [block_header data finish blocks index,
      drop (index * BLOCKSIZE) (take (min (index * BLOCKSIZE + BLOCKSIZE) (length data)) data)]) [first..<lst])"

fun write_groups :: "(bytes list \<Rightarrow> 's \<Rightarrow> (nat, IoError) outcome \<times> 's) \<Rightarrow> nat \<Rightarrow> bytes \<Rightarrow> bool \<Rightarrow> nat \<Rightarrow> nat list \<Rightarrow> 's
    \<Rightarrow> (unit, IoError) outcome \<times> 's" where
  "write_groups wrv F data finish blocks [] s = (Ok (), s)"
| "write_groups wrv F data finish blocks (first # firsts) s =
     bindS (write_all_vectored wrv F (group_slices data finish blocks first (min (first + SCATTER_BLOCKS_PER_WRITE) blocks)) s)
       (\<lambda>_ s. write_groups wrv F data finish blocks firsts s)"

definition step_by :: "nat \<Rightarrow> nat \<Rightarrow> nat list" where
  "step_by k n = map (\<lambda>i. i * k) [0..<(n + k - 1) div k]"

definition write_fragment ::
  "('t, 'z) env_scheme \<Rightarrow> bytes \<Rightarrow> bool \<Rightarrow> 't ServerSock \<Rightarrow> (unit, CursorError) outcome \<times> 't ServerSock" where
  "write_fragment E data finish sock =
     (if data = [] then
        (if finish then (case write_all (ServerSock_write (env_T E)) (env_F E) (case u16_to_le_bytes 1 of (lo, hi) \<Rightarrow> [lo, hi]) sock of
             (res, sock) \<Rightarrow> (io_result res, sock))
         else (Ok (), sock))
      else let blocks = (length data + BLOCKSIZE - 1) div BLOCKSIZE in
        case write_groups (ServerSock_write_vectored (env_T E)) (env_F E) data finish blocks
               (step_by SCATTER_BLOCKS_PER_WRITE blocks) sock of
          (res, sock) \<Rightarrow> (io_result res, sock))"

section \<open>Model of the code: requests\<close>

definition upload_filename :: "bytes \<Rightarrow> bytes option" where
  "upload_filename request = (case strip_prefix request ''rb '' of
       Some filename \<Rightarrow> Some filename
     | None \<Rightarrow> (case strip_prefix request ''r 0 '' of
         None \<Rightarrow> None
       | Some filename \<Rightarrow> if filename \<noteq> [] then Some filename else None))"

text \<open>The search for the last marker at the start of a line; \<open>fuel\<close> bounds the number of markers looked at.\<close>

fun find_marker :: "libs \<Rightarrow> nat \<Rightarrow> bytes \<Rightarrow> nat \<Rightarrow> (nat option, CursorError) outcome" where
  "find_marker L 0 response end_pos = NoFuel"
| "find_marker L (Suc f) response end_pos = (case memmem_rfind L (take end_pos response) FILE_TRANSFER of
       None \<Rightarrow> Ok None
     | Some marker \<Rightarrow> if marker = 0 \<or> response ! (marker - 1) = CHR 0x0a then Ok (Some marker)
         else find_marker L f response marker)"

definition take_file_request :: "libs \<Rightarrow> bytes \<Rightarrow> (bytes option, CursorError) outcome \<times> bytes" where
  "take_file_request L response = (case find_marker L (length response + 1) response (length response) of
       Ok None \<Rightarrow> (Ok None, response)
     | Ok (Some marker) \<Rightarrow>
         (case strip_suffix (drop (marker + length FILE_TRANSFER) response) [CHR 0x0a] of
            None \<Rightarrow> (Err (FileTransfer ''unterminated server request''), response)
          | Some command \<Rightarrow>
              if \<not> utf8_valid command then (Err (FileTransfer ''server request is not UTF-8''), response)
              else (Ok (Some command), take marker response))
     | Err e \<Rightarrow> (Err e, response) | Panic \<Rightarrow> (Panic, response) | NoFuel \<Rightarrow> (NoFuel, response))"

definition refuse_upload ::
  "('t, 'z) env_scheme \<Rightarrow> texts \<Rightarrow> CursorError \<Rightarrow> 't ServerSock \<Rightarrow> (unit, CursorError) outcome \<times> 't ServerSock" where
  "refuse_upload E X error sock =
     write_fragment E (map (\<lambda>c. if c = CHR 0x0d \<or> c = CHR 0x0a then CHR '' '' else c) (CursorError_fmt X error) @ [CHR 0x0a])
       True sock"

section \<open>Model of the code: the sink\<close>

datatype 't UploadOutcome = Complete "'t ServerSock" | ServerResponse "'t ServerSock" bytes

record 't StreamingUpload =
  su_sock :: "'t ServerSock option"
  su_chunk_size :: nat
  su_max_response_size :: nat
  su_pending :: bytes
  su_started :: bool
  su_outcome :: "'t UploadOutcome option"

definition StreamingUpload_new :: "'t ServerSock \<Rightarrow> nat \<Rightarrow> nat \<Rightarrow> 't StreamingUpload" where
  "StreamingUpload_new sock upload_chunk_size max_response_size =
     \<lparr>su_sock = Some sock, su_chunk_size = upload_chunk_size, su_max_response_size = max_response_size,
      su_pending = [], su_started = False, su_outcome = None\<rparr>"

definition into_socket :: "'t StreamingUpload \<Rightarrow> ('t ServerSock, CursorError) outcome" where
  "into_socket u = ok_or Closed (su_sock u)"

definition start_upload ::
  "('t, 'z) env_scheme \<Rightarrow> 't StreamingUpload \<Rightarrow> (unit, CursorError) outcome \<times> 't StreamingUpload" where
  "start_upload E u = (if su_started u then (Ok (), u)
     else case su_sock u of
         None \<Rightarrow> (Err Closed, u)
       | Some sock \<Rightarrow> (case write_fragment E [CHR 0x0a] False sock of
           (Ok _, sock) \<Rightarrow> (Ok (), u\<lparr>su_sock := Some sock, su_started := True\<rparr>)
         | (res, sock) \<Rightarrow> (res, u\<lparr>su_sock := Some sock\<rparr>)))"

definition send_message ::
  "('t, 'z) env_scheme \<Rightarrow> bytes \<Rightarrow> 't StreamingUpload \<Rightarrow> (unit, CursorError) outcome \<times> 't StreamingUpload" where
  "send_message E data u = (case su_sock u of
       None \<Rightarrow> (Err Closed, u)
     | Some sock \<Rightarrow>
         let u = u\<lparr>su_sock := None\<rparr> in
         (case write_fragment E data True sock of
            (Ok _, sock) \<Rightarrow>
              (case recv_message E (su_max_response_size u) sock of
                 (Ok sock, prompt) \<Rightarrow>
                   if prompt = MORE then (Ok (), u\<lparr>su_sock := Some sock\<rparr>)
                   else if prompt = FILE_TRANSFER then (Ok (), u\<lparr>su_outcome := Some (Complete sock)\<rparr>)
                   else (Ok (), u\<lparr>su_outcome := Some (ServerResponse sock prompt)\<rparr>)
               | (Err e, _) \<Rightarrow> (Err e, u) | (Panic, _) \<Rightarrow> (Panic, u) | (NoFuel, _) \<Rightarrow> (NoFuel, u))
          | (Err e, _) \<Rightarrow> (Err e, u) | (Panic, _) \<Rightarrow> (Panic, u) | (NoFuel, _) \<Rightarrow> (NoFuel, u)))"

definition flush_pending ::
  "('t, 'z) env_scheme \<Rightarrow> 't StreamingUpload \<Rightarrow> (unit, CursorError) outcome \<times> 't StreamingUpload" where
  "flush_pending E u = (if su_pending u = [] then (Ok (), u)
     else case send_message E (su_pending u) (u\<lparr>su_pending := []\<rparr>) of
         (res, u) \<Rightarrow> (res, u\<lparr>su_pending := []\<rparr>))"

definition finish_upload ::
  "('t, 'z) env_scheme \<Rightarrow> 't StreamingUpload \<Rightarrow> ('t UploadOutcome, CursorError) outcome" where
  "finish_upload E u = (case su_outcome u of
       Some outcome \<Rightarrow> Ok outcome
     | None \<Rightarrow> (case flush_pending E u of (res, u) \<Rightarrow> bindR res (\<lambda>_.
         case su_outcome u of
           Some outcome \<Rightarrow> Ok outcome
         | None \<Rightarrow> (case start_upload E u of (res, u) \<Rightarrow> bindR res (\<lambda>_.
             case send_message E [] u of (res, u) \<Rightarrow> bindR res (\<lambda>_.
               case su_outcome u of
                 Some outcome \<Rightarrow> Ok outcome
               | None \<Rightarrow> (case send_message E [] u of (res, u) \<Rightarrow> bindR res (\<lambda>_.
                   ok_or (FileTransfer ''server requested data after upload EOF'') (su_outcome u)))))))))"

text \<open>The loop of \<open>write_chunk\<close> over the full messages. A chunk size of zero does not exist.\<close>

function chunk_loop ::
  "('t, 'z) env_scheme \<Rightarrow> bytes \<Rightarrow> 't StreamingUpload \<Rightarrow> (unit, CursorError) outcome \<times> 't StreamingUpload" where
  "chunk_loop E data u =
     (if su_chunk_size u \<le> length data \<and> su_chunk_size u \<noteq> 0 then
        (let chunk = take (su_chunk_size u) data; remaining = drop (su_chunk_size u) data in
         case send_message E chunk u of
           (Ok _, u') \<Rightarrow>
             if su_outcome u' \<noteq> None then (if remaining = [] then (Ok (), u') else (Err UploadComplete, u'))
             else chunk_loop E remaining u'
         | (res, u') \<Rightarrow> (res, u'))
      else (Ok (), u\<lparr>su_pending := su_pending u @ data\<rparr>))"
  by pat_completeness auto
termination
  by (relation "measure (\<lambda>(E, data, u). length data)") auto

declare chunk_loop.simps [simp del]

definition write_chunk ::
  "('t, 'z) env_scheme \<Rightarrow> bytes \<Rightarrow> 't StreamingUpload \<Rightarrow> (unit, CursorError) outcome \<times> 't StreamingUpload" where
  "write_chunk E data u =
     (if data = [] then (Ok (), u)
      else if su_outcome u \<noteq> None then (Err UploadComplete, u)
      else bindS (start_upload E u) (\<lambda>_ u.
        let target = su_chunk_size u in
        if su_pending u \<noteq> [] then
          (if target < length (su_pending u) then (Panic, u)
           else
             let needed = target - length (su_pending u);
                 k = min needed (length data);
                 u = u\<lparr>su_pending := su_pending u @ take k data\<rparr>;
                 data = drop k data in
             if length (su_pending u) = target then
               bindS (flush_pending E u) (\<lambda>_ u.
                 if su_outcome u \<noteq> None \<and> data \<noteq> [] then (Err UploadComplete, u) else chunk_loop E data u)
             else chunk_loop E data u)
        else chunk_loop E data u))"

section \<open>Model of the code: serving the requests of a command\<close>

type_synonym ('t, 'p) producer = "'p \<Rightarrow> bytes \<Rightarrow> 't StreamingUpload
    \<Rightarrow> (unit, CursorError) outcome \<times> 't StreamingUpload \<times> 'p"

record 'p upload_vars =
  uv_refused :: "CursorError option"
  uv_producer_error :: "CursorError option"
  uv_delayed_error :: "ServerError option"
  uv_response :: bytes
  uv_producer :: 'p

definition note_autocommit :: "libs \<Rightarrow> bytes \<Rightarrow> ServerState \<Rightarrow> ServerState" where
  "note_autocommit L response state = (case response_autocommit L response of
       Some autocommit \<Rightarrow> state\<lparr>st_autocommit := autocommit\<rparr> | None \<Rightarrow> state)"

definition note_refusal :: "CursorError \<Rightarrow> 'p upload_vars \<Rightarrow> 'p upload_vars" where
  "note_refusal error v = (if uv_refused v = None then v\<lparr>uv_refused := Some error\<rparr> else v)"

definition note_producer_error :: "CursorError \<Rightarrow> 'p upload_vars \<Rightarrow> 'p upload_vars" where
  "note_producer_error error v = (if error \<noteq> UploadComplete then v\<lparr>uv_producer_error := Some error\<rparr> else v)"

text \<open>What a request leads to: the loop goes on with a socket, or the operation ends.\<close>

datatype ('t, 'p) served =
    GoOn "'t ServerSock" "'p upload_vars"
  | Done "('t ServerSock, CursorError) outcome" ServerState "'p upload_vars"

definition refuse_and_go_on :: "('t, 'z) env_scheme \<Rightarrow> texts \<Rightarrow> CursorError \<Rightarrow> 't ServerSock \<Rightarrow> ServerState
    \<Rightarrow> 'p upload_vars \<Rightarrow> ('t, 'p) served" where
  "refuse_and_go_on E X error sock state v = (case refuse_upload E X error sock of
       (Ok _, sock) \<Rightarrow> GoOn sock (note_refusal error v)
     | (Err e, _) \<Rightarrow> Done (Err e) state v | (Panic, _) \<Rightarrow> Done Panic state v | (NoFuel, _) \<Rightarrow> Done NoFuel state v)"

text \<open>The end of an upload: the server goes on with the command, or has answered it already.\<close>

definition settle :: "('t, 'z) env_scheme \<Rightarrow> 't UploadOutcome \<Rightarrow> ServerState \<Rightarrow> 'p upload_vars \<Rightarrow> ('t, 'p) served" where
  "settle E outcome state v = (case outcome of
       Complete sock \<Rightarrow> GoOn sock v
     | ServerResponse sock final_response \<Rightarrow>
         let response = uv_response v @ final_response in
         Done (Ok sock) (note_autocommit (env_L E) response state) (v\<lparr>uv_response := response\<rparr>))"

definition serve_request :: "('t, 'z) env_scheme \<Rightarrow> texts \<Rightarrow> nat \<Rightarrow> nat \<Rightarrow> ('t, 'p) producer \<Rightarrow> bytes \<Rightarrow> 't ServerSock
    \<Rightarrow> ServerState \<Rightarrow> 'p upload_vars \<Rightarrow> ('t, 'p) served" where
  "serve_request E X chunk_size max_size upload request sock state v = (case upload_filename request of
       None \<Rightarrow> refuse_and_go_on E X (FileTransfer (''unsupported server request '' @ tx_debug_str X request)) sock state v
     | Some filename \<Rightarrow>
         let sink = StreamingUpload_new sock chunk_size max_size in
         (case uv_producer_error v of
            Some error \<Rightarrow>
              (case into_socket sink of
                 Ok sock \<Rightarrow> refuse_and_go_on E X error sock state v
               | Err e \<Rightarrow> Done (Err e) state v | Panic \<Rightarrow> Done Panic state v | NoFuel \<Rightarrow> Done NoFuel state v)
          | None \<Rightarrow>
              (case upload (uv_producer v) filename sink of (result, sink, p) \<Rightarrow>
                 let v = v\<lparr>uv_producer := p\<rparr> in
                 (case result of
                    Ok _ \<Rightarrow>
                      (case finish_upload E sink of
                         Ok outcome \<Rightarrow> settle E outcome state v
                       | Err e \<Rightarrow> Done (Err e) state v | Panic \<Rightarrow> Done Panic state v | NoFuel \<Rightarrow> Done NoFuel state v)
                  | Err error \<Rightarrow>
                      if su_started sink then
                        (case su_outcome sink of
                           None \<Rightarrow> Done (Err error) state v
                         | Some outcome \<Rightarrow> settle E outcome state (note_producer_error error v))
                      else
                        (case into_socket sink of
                           Ok sock \<Rightarrow> refuse_and_go_on E X error sock state v
                         | Err e \<Rightarrow> Done (Err e) state v | Panic \<Rightarrow> Done Panic state v | NoFuel \<Rightarrow> Done NoFuel state v)
                  | Panic \<Rightarrow> Done Panic state v
                  | NoFuel \<Rightarrow> Done NoFuel state v))))"

text \<open>The loop over the server's messages; it takes as many turns as the server sends requests.\<close>

fun upload_loop :: "('t, 'z) env_scheme \<Rightarrow> texts \<Rightarrow> nat \<Rightarrow> nat \<Rightarrow> ('t, 'p) producer \<Rightarrow> nat \<Rightarrow> 't ServerSock \<Rightarrow> ServerState
    \<Rightarrow> 'p upload_vars \<Rightarrow> ('t ServerSock, CursorError) outcome \<times> ServerState \<times> 'p upload_vars" where
  "upload_loop E X chunk_size max_size upload 0 sock state v = (NoFuel, state, v)"
| "upload_loop E X chunk_size max_size upload (Suc k) sock state v =
     (case to_limited (ServerSock_read (env_T E)) (env_F E) (env_pol E) sock (uv_response v) max_size of
        (Ok sock, response) \<Rightarrow>
          (case take_file_request (env_L E) response of
             (Ok None, response) \<Rightarrow>
               (Ok sock, note_autocommit (env_L E) response state, v\<lparr>uv_response := response\<rparr>)
           | (Ok (Some request), response) \<Rightarrow>
               (case serve_request E X chunk_size max_size upload request sock state (v\<lparr>uv_response := response\<rparr>) of
                  GoOn sock v \<Rightarrow> upload_loop E X chunk_size max_size upload k sock state v
                | Done res state v \<Rightarrow> (res, state, v))
           | (Err e, response) \<Rightarrow> (Err e, state, v\<lparr>uv_response := response\<rparr>)
           | (Panic, response) \<Rightarrow> (Panic, state, v\<lparr>uv_response := response\<rparr>)
           | (NoFuel, response) \<Rightarrow> (NoFuel, state, v\<lparr>uv_response := response\<rparr>))
      | (Err e, response) \<Rightarrow> (Err (IO e), state, v\<lparr>uv_response := response\<rparr>)
      | (Panic, response) \<Rightarrow> (Panic, state, v\<lparr>uv_response := response\<rparr>)
      | (NoFuel, response) \<Rightarrow> (NoFuel, state, v\<lparr>uv_response := response\<rparr>))"

definition upload_operation :: "('t, 'z) env_scheme \<Rightarrow> texts \<Rightarrow> nat \<Rightarrow> nat \<Rightarrow> ('t, 'p) producer \<Rightarrow> bytes list
    \<Rightarrow> ('t, 'p upload_vars) operation" where
  "upload_operation E X chunk_size max_size upload command v state delayed sock =
     (case send_delayed_plus E command delayed sock of
        (Ok sock, delayed) \<Rightarrow>
          (case recv_delayed E max_size delayed sock (uv_response v) of
             (Ok (sock, delayed_error), delayed, _) \<Rightarrow>
               (case upload_loop E X chunk_size max_size upload (env_F E) sock state
                       (v\<lparr>uv_delayed_error := delayed_error, uv_response := []\<rparr>) of
                  (res, state, v) \<Rightarrow> (res, state, delayed, v))
           | (Err e, delayed, response) \<Rightarrow> (Err e, state, delayed, v\<lparr>uv_response := response\<rparr>)
           | (Panic, delayed, response) \<Rightarrow> (Panic, state, delayed, v\<lparr>uv_response := response\<rparr>)
           | (NoFuel, delayed, response) \<Rightarrow> (NoFuel, state, delayed, v\<lparr>uv_response := response\<rparr>))
      | (Err e, delayed) \<Rightarrow> (Err e, state, delayed, v)
      | (Panic, delayed) \<Rightarrow> (Panic, state, delayed, v)
      | (NoFuel, delayed) \<Rightarrow> (NoFuel, state, delayed, v))"

section \<open>Fragments on the wire\<close>

lemma advance_slices_drop:
  "n \<le> length (concat bs) \<Longrightarrow> \<exists>r. advance_slices n bs = Some r \<and> concat r = drop n (concat bs) \<and> (r \<noteq> [] \<longrightarrow> hd r \<noteq> [])"
  by (induction n bs rule: advance_slices.induct) auto

text \<open>The contract of a stream that takes a list of slices.\<close>

locale vector_sink =
  fixes wrv :: "bytes list \<Rightarrow> 's \<Rightarrow> (nat, IoError) outcome \<times> 's" and out :: "'s \<Rightarrow> bytes" and wpat :: "'s \<Rightarrow> nat"
  assumes accept_v: "concat bufs \<noteq> [] \<Longrightarrow> wrv bufs s = (Ok n, s') \<Longrightarrow>
      n \<le> length (concat bufs) \<and> out s' = out s @ take n (concat bufs) \<and> wpat s' \<le> wpat s"
    and refuse_v: "concat bufs \<noteq> [] \<Longrightarrow> wrv bufs s = (Err e, s') \<Longrightarrow>
      out s' = out s \<and> (io_kind e = Interrupted \<longrightarrow> wpat s' < wpat s)"
    and wrv_returns: "returns (fst (wrv bufs s))"
begin

lemma vectored_loop_spec:
  "length (concat bufs) + wpat s < f \<Longrightarrow> (bufs \<noteq> [] \<longrightarrow> hd bufs \<noteq> []) \<Longrightarrow> case vectored_loop wrv f bufs s of
     (Ok _, s') \<Rightarrow> out s' = out s @ concat bufs \<and> wpat s' \<le> wpat s
   | (Err e, s') \<Rightarrow> \<exists>k\<le>length (concat bufs). out s' = out s @ take k (concat bufs)
   | _ \<Rightarrow> False"
proof (induction f arbitrary: bufs s)
  case (Suc f)
  show ?case
  proof (cases "bufs = []")
    case False
    then have ne: "concat bufs \<noteq> []" using Suc.prems(2) by (cases bufs) auto
    obtain res s1 where wr: "wrv bufs s = (res, s1)" by (metis surj_pair)
    show ?thesis
    proof (cases res)
      case (Ok n)
      with accept_v [OF ne wr [unfolded Ok]] have a: "n \<le> length (concat bufs)" "out s1 = out s @ take n (concat bufs)"
        "wpat s1 \<le> wpat s" by auto
      from advance_slices_drop [OF a(1)] obtain r where r: "advance_slices n bufs = Some r" "concat r = drop n (concat bufs)"
        "r \<noteq> [] \<longrightarrow> hd r \<noteq> []" by blast
      show ?thesis
      proof (cases "n = 0")
        case n: False
        have lt: "length (concat r) + wpat s1 < f" using a n r(2) Suc.prems(1) by simp
        have step: "vectored_loop wrv (Suc f) bufs s = vectored_loop wrv f r s1"
          using False wr Ok r(1) n by simp
        obtain r2 s2 where v2: "vectored_loop wrv f r s1 = (r2, s2)" by (metis surj_pair)
        note ih = Suc.IH [OF lt r(3), unfolded v2]
        show ?thesis
        proof (cases r2)
          case (Err e)
          with ih obtain k where k: "k \<le> length (concat bufs) - n" "out s2 = out s1 @ take k (drop n (concat bufs))"
            by (auto simp: r(2))
          then have "out s2 = out s @ take (n + k) (concat bufs)" using a by (simp add: take_add)
          with k a Err show ?thesis unfolding step v2 by (auto intro!: exI [of _ "n + k"])
        qed (unfold step v2, use ih a r in auto)
      qed (use False wr Ok a in auto)
    next
      case (Err e)
      with refuse_v [OF ne wr [unfolded Err]] have a: "out s1 = out s" "io_kind e = Interrupted \<Longrightarrow> wpat s1 < wpat s" by auto
      show ?thesis
      proof (cases "io_kind e = Interrupted")
        case True
        with a Suc.prems(1) have "length (concat bufs) + wpat s1 < f" by auto
        from Suc.IH [OF this Suc.prems(2)] a True wr Err False show ?thesis
          by (auto split: prod.splits outcome.splits)
      qed (use False wr Err a in auto)
    qed (use wrv_returns [of bufs s] wr in auto)
  qed simp
qed simp

lemma write_all_vectored_spec:
  assumes "length (concat bufs) + wpat s < f"
  shows "case write_all_vectored wrv f bufs s of
     (Ok _, s') \<Rightarrow> out s' = out s @ concat bufs \<and> wpat s' \<le> wpat s
   | (Err e, s') \<Rightarrow> \<exists>k\<le>length (concat bufs). out s' = out s @ take k (concat bufs)
   | _ \<Rightarrow> False"
proof -
  from advance_slices_drop [of 0 bufs] obtain r where r: "advance_slices 0 bufs = Some r" "concat r = concat bufs"
    "r \<noteq> [] \<longrightarrow> hd r \<noteq> []" by auto
  from vectored_loop_spec [of r s f, unfolded r(2)] assms r(1,3) show ?thesis by (simp add: write_all_vectored_def)
qed

definition groups_text :: "bytes \<Rightarrow> bool \<Rightarrow> nat \<Rightarrow> nat list \<Rightarrow> bytes" where
  "groups_text data fin blocks firsts = concat (concat (map (\<lambda>first.
     group_slices data fin blocks first (min (first + SCATTER_BLOCKS_PER_WRITE) blocks)) firsts))"

lemma write_groups_spec:
  "length (groups_text data fin blocks firsts) + wpat s < f \<Longrightarrow> case write_groups wrv f data fin blocks firsts s of
     (Ok _, s') \<Rightarrow> out s' = out s @ groups_text data fin blocks firsts \<and> wpat s' \<le> wpat s
   | (Err e, s') \<Rightarrow> \<exists>k. out s' = out s @ take k (groups_text data fin blocks firsts)
   | _ \<Rightarrow> False"
proof (induction firsts arbitrary: s)
  case (Cons a firsts)
  let ?g = "group_slices data fin blocks a (min (a + SCATTER_BLOCKS_PER_WRITE) blocks)"
  have gt: "groups_text data fin blocks (a # firsts) = concat ?g @ groups_text data fin blocks firsts"
    by (simp add: groups_text_def)
  obtain r s1 where w: "write_all_vectored wrv f ?g s = (r, s1)" by (metis surj_pair)
  have "length (concat ?g) + wpat s < f" using Cons.prems unfolding gt by simp
  note spec = write_all_vectored_spec [OF this, unfolded w]
  show ?case
  proof (cases r)
    case (Ok u)
    with spec have s1: "out s1 = out s @ concat ?g" "wpat s1 \<le> wpat s" by auto
    then have "length (groups_text data fin blocks firsts) + wpat s1 < f" using Cons.prems unfolding gt by simp
    note ih = Cons.IH [OF this]
    obtain r2 s2 where w2: "write_groups wrv f data fin blocks firsts s1 = (r2, s2)" by (metis surj_pair)
    show ?thesis
    proof (cases r2)
      case (Err e)
      with ih w2 obtain k where "out s2 = out s1 @ take k (groups_text data fin blocks firsts)" by auto
      then have "out s2 = out s @ take (length (concat ?g) + k) (groups_text data fin blocks (a # firsts))"
        by (simp add: s1 gt)
      with w w2 Ok Err show ?thesis by auto
    qed (use w w2 Ok ih s1 gt in auto)
  next
    case (Err e)
    with spec obtain k where "k \<le> length (concat ?g)" "out s1 = out s @ take k (concat ?g)" by auto
    then have "out s1 = out s @ take k (groups_text data fin blocks (a # firsts))" by (simp add: gt)
    with w Err show ?thesis by auto
  qed (use spec w in auto)
qed (simp add: groups_text_def)

end

text \<open>A transport that takes plain and vectored writes.\<close>

locale vectored_transport = transport_sink T out wpat + vector_sink "tr_write_vectored T" out wpat
  for T :: "'t transport" and out :: "'t \<Rightarrow> bytes" and wpat :: "'t \<Rightarrow> nat"
begin

lemma sock_vector_sink: "vector_sink (ServerSock_write_vectored T) (out \<circ> inner) (wpat \<circ> inner)"
proof
  fix bufs n e and s s' :: "'t ServerSock"
  show "n \<le> length (concat bufs) \<and> (out \<circ> inner) s' = (out \<circ> inner) s @ take n (concat bufs) \<and> (wpat \<circ> inner) s' \<le> (wpat \<circ> inner) s"
    if "concat bufs \<noteq> []" and "ServerSock_write_vectored T bufs s = (Ok n, s')"
    using that(2) unfolding ServerSock_write_vectored_def
  proof (cases rule: with_write_timeout_cases)
    case (plain t r)
    then have "tr_write_vectored T bufs t = (Ok n, inner s')" by (cases r) auto
    from accept_v [OF that(1) this] plain(1,2) show ?thesis by simp
  qed simp
  show "(out \<circ> inner) s' = (out \<circ> inner) s \<and> (io_kind e = Interrupted \<longrightarrow> (wpat \<circ> inner) s' < (wpat \<circ> inner) s)"
    if "concat bufs \<noteq> []" and w: "ServerSock_write_vectored T bufs s = (Err e, s')"
    using w unfolding ServerSock_write_vectored_def
  proof (cases rule: with_write_timeout_cases)
    case (plain t r)
    then obtain e' where "r = Err e'" "io_kind e = Interrupted \<Longrightarrow> io_kind e' = Interrupted"
      by (cases r) (auto simp: normalize_interrupted)
    with refuse_v [OF that(1), of t e'] plain show ?thesis by auto
  qed auto
  show "returns (fst (ServerSock_write_vectored T bufs s))"
  proof -
    obtain res s1 where w: "with_write_timeout T (tr_write_vectored T bufs) s = (res, s1)" by (metis surj_pair)
    then show ?thesis
    proof (cases rule: with_write_timeout_cases)
      case (plain t r)
      with wrv_returns [of bufs t] show ?thesis by (auto simp: w ServerSock_write_vectored_def)
    qed (simp add: w ServerSock_write_vectored_def)
  qed
qed

end

sublocale vectored_transport \<subseteq> vsock: vector_sink "ServerSock_write_vectored T" "out \<circ> inner" "wpat \<circ> inner"
  by (rule sock_vector_sink)

interpretation script_vectored: vectored_transport script_transport sent script_wpatience
proof unfold_locales
  fix bufs n e and s s' :: script
  show "n \<le> length (concat bufs) \<and> sent s' = sent s @ take n (concat bufs) \<and> script_wpatience s' \<le> script_wpatience s"
    if "concat bufs \<noteq> []" and "tr_write_vectored script_transport bufs s = (Ok n, s')"
    using script_sink.accept [of "concat bufs" s n s'] that by (simp add: script_transport_def)
  show "sent s' = sent s \<and> (io_kind e = Interrupted \<longrightarrow> script_wpatience s' < script_wpatience s)"
    if "concat bufs \<noteq> []" and "tr_write_vectored script_transport bufs s = (Err e, s')"
    using script_sink.refuse [of "concat bufs" s e s'] that by (simp add: script_transport_def)
  show "returns (fst (tr_write_vectored script_transport bufs s))"
    using script_sink.wr_returns [of "concat bufs" s] by (simp add: script_transport_def)
qed

text \<open>A fragment as it should go out: the whole message, or blocks that leave it open.\<close>

definition fragment :: "bytes \<Rightarrow> bool \<Rightarrow> bytes" where
  "fragment data fin = (if fin then frame data else open_blocks data)"

abbreviation block_count :: "bytes \<Rightarrow> nat" where
  "block_count data \<equiv> (length data + BLOCKSIZE - 1) div BLOCKSIZE"

definition block_text :: "bytes \<Rightarrow> bool \<Rightarrow> nat \<Rightarrow> bytes" where
  "block_text data fin i = block_header data fin (block_count data) i
     @ drop (i * BLOCKSIZE) (take (min (i * BLOCKSIZE + BLOCKSIZE) (length data)) data)"

lemma block_header_head:
  "block_header data fin n i = head (min (length data - i * BLOCKSIZE) BLOCKSIZE) (fin \<and> i + 1 = n)"
  by (simp add: block_header_def head_def u16_to_le_bytes_def Let_def)

lemma block_count_step: "BLOCKSIZE < length data \<Longrightarrow> block_count data = Suc (block_count (drop BLOCKSIZE data))"
  by (auto simp: div_if)

lemma block_count_one: "data \<noteq> [] \<Longrightarrow> length data \<le> BLOCKSIZE \<Longrightarrow> block_count data = 1"
proof -
  assume "data \<noteq> []" and le: "length data \<le> BLOCKSIZE"
  then have "0 < length data" by simp
  then have "length data + BLOCKSIZE - 1 = BLOCKSIZE + (length data - 1)" by simp
  then show ?thesis using le by (simp add: div_eq_0_iff)
qed

lemma slice_block: "drop k (take (min (k + b) (length d)) d) = take b (drop k d)"
  by (cases "k + b \<le> length d") (simp_all add: drop_take min_def)

lemma block_text_slice:
  "block_text data fin i = head (min (length data - i * BLOCKSIZE) BLOCKSIZE) (fin \<and> i + 1 = block_count data)
     @ take BLOCKSIZE (drop (i * BLOCKSIZE) data)"
  unfolding block_text_def block_header_head slice_block ..

lemma block_text_Suc:
  assumes "BLOCKSIZE < length data"
  shows "block_text data fin (Suc i) = block_text (drop BLOCKSIZE data) fin i"
proof -
  have "drop (Suc i * BLOCKSIZE) data = drop (i * BLOCKSIZE) (drop BLOCKSIZE data)"
    "length data - Suc i * BLOCKSIZE = length (drop BLOCKSIZE data) - i * BLOCKSIZE"
    by (simp_all add: add.commute)
  moreover have "(Suc i + 1 = block_count data) = (i + 1 = block_count (drop BLOCKSIZE data))"
    unfolding block_count_step [OF assms] by simp
  ultimately show ?thesis unfolding block_text_slice by (simp only:)
qed

lemma blocks_are_fragment: "data \<noteq> [] \<Longrightarrow> concat (map (block_text data fin) [0..<block_count data]) = fragment data fin"
proof (induction data rule: frame.induct)
  case (1 data)
  show ?case
  proof (cases "length data \<le> BLOCKSIZE")
    case True
    with "1.prems" have "block_count data = 1" by (rule block_count_one)
    then have "concat (map (block_text data fin) [0..<block_count data]) = head (length data) fin @ data"
      using True block_text_slice [of data fin 0] by (simp add: min_absorb1)
    with True "1.prems" show ?thesis
      by (simp add: fragment_def frame.simps [of data] open_blocks.simps [of data] open_blocks.simps [of "[]"] min_absorb1)
  next
    case False
    then have lt: "BLOCKSIZE < length data" by simp
    let ?r = "drop BLOCKSIZE data"
    have "?r \<noteq> []" using lt by simp
    with "1.IH" False have ih: "concat (map (block_text ?r fin) [0..<block_count ?r]) = fragment ?r fin" by simp
    have "block_text data fin 0 = head BLOCKSIZE False @ take BLOCKSIZE data"
    proof -
      have "0 < block_count ?r" using lt by (simp add: div_greater_zero_iff)
      then have "block_count data \<noteq> 0 + 1" unfolding block_count_step [OF lt] by simp
      then show ?thesis using lt unfolding block_text_slice by (simp add: min_absorb2)
    qed
    moreover have "map (block_text data fin) [0..<block_count data]
        = block_text data fin 0 # map (block_text ?r fin) [0..<block_count ?r]"
      unfolding block_count_step [OF lt]
      by (simp only: upt_conv_Cons zero_less_Suc list.map map_Suc_upt [symmetric] map_map)
         (simp add: comp_def block_text_Suc [OF lt])
    ultimately show ?thesis
      using False "1.prems" ih
      by (simp add: fragment_def frame.simps [of data] open_blocks.simps [of data] min_absorb2 split: if_splits)
  qed
qed

lemma concat_steps: "0 < k \<Longrightarrow> concat (map (\<lambda>i. [i * k..<min (i * k + k) n]) [0..<m]) = [0..<min (m * k) n]"
proof (induction m)
  case (Suc m)
  have "[0..<min (m * k) n] @ [m * k..<min (m * k + k) n] = [0..<min (Suc m * k) n]"
  proof (cases "m * k \<le> n")
    case True
    then have "[0..<m * k] @ [m * k..<min (m * k + k) n] = [0..<min (m * k + k) n]"
      using upt_add_eq_append [of 0 "m * k" "min (m * k + k) n - m * k"] by (simp add: min_def split: if_splits)
    with True show ?thesis by (simp add: add.commute)
  qed simp
  with Suc show ?case by simp
qed simp

lemma groups_are_fragment:
  assumes "data \<noteq> []"
  shows "vector_sink.groups_text data fin (block_count data) (step_by SCATTER_BLOCKS_PER_WRITE (block_count data))
     = fragment data fin"
proof -
  let ?n = "block_count data" and ?k = "SCATTER_BLOCKS_PER_WRITE"
  let ?b = "\<lambda>i. [block_header data fin ?n i, drop (i * BLOCKSIZE) (take (min (i * BLOCKSIZE + BLOCKSIZE) (length data)) data)]"
  have k: "0 < ?k" by (simp add: SCATTER_BLOCKS_PER_WRITE_def)
  have cover: "?n \<le> (?n + ?k - 1) div ?k * ?k"
    using div_mult_mod_eq [of "?n + ?k - 1" ?k] mod_less_divisor [OF k, of "?n + ?k - 1"] by linarith
  have "concat (map (\<lambda>first. group_slices data fin ?n first (min (first + ?k) ?n)) (step_by ?k ?n))
      = concat (map ?b (concat (map (\<lambda>i. [i * ?k..<min (i * ?k + ?k) ?n]) [0..<(?n + ?k - 1) div ?k])))"
  proof -
    have "concat (map (\<lambda>i. concat (map ?b (h i))) xs) = concat (map ?b (concat (map h xs)))" for h and xs :: "nat list"
      by (induction xs) simp_all
    then show ?thesis by (simp add: step_by_def group_slices_def comp_def)
  qed
  also have "\<dots> = concat (map ?b [0..<?n])"
    using cover by (simp add: concat_steps [OF k])
  finally have "vector_sink.groups_text data fin ?n (step_by ?k ?n) = concat (concat (map ?b [0..<?n]))"
    by (simp add: vector_sink.groups_text_def [OF script_vectored.vector_sink_axioms])
  also have "\<dots> = concat (map (block_text data fin) [0..<?n])"
  proof -
    have "concat (concat (map ?b xs)) = concat (map (block_text data fin) xs)" for xs
      by (induction xs) (simp_all add: block_text_def)
    then show ?thesis .
  qed
  finally show ?thesis using blocks_are_fragment [OF assms] by simp
qed

context vectored_transport
begin

lemma write_fragment_spec:
  assumes "env_T E = T" and "length (fragment data fin) + wpat (inner s) < env_F E"
  shows "case write_fragment E data fin s of
     (Ok _, s') \<Rightarrow> out (inner s') = out (inner s) @ fragment data fin
   | (Err e, s') \<Rightarrow> \<exists>k. out (inner s') = out (inner s) @ take k (fragment data fin)
   | _ \<Rightarrow> False"
proof (cases "data = []")
  case True
  have one: "(case u16_to_le_bytes 1 of (lo, hi) \<Rightarrow> [lo, hi]) = head 0 True"
    by (simp add: u16_to_le_bytes_def head_def)
  have fr: "fragment [] fin = (if fin then head 0 True else [])"
    by (simp add: fragment_def frame.simps [of "[]"] open_blocks.simps [of "[]"])
  show ?thesis
  proof (cases fin)
    case fin: True
    have "length (head 0 True) + (wpat \<circ> inner) s < env_F E" using assms(2) unfolding True fr by (simp add: fin)
    note spec = sock.write_all_spec [OF this]
    obtain r s' where w: "write_all (ServerSock_write T) (env_F E) (head 0 True) s = (r, s')" by (metis surj_pair)
    have "write_fragment E data fin s = (io_result r, s')"
      unfolding write_fragment_def one assms(1) w using True fin by simp
    with spec [unfolded w] True fin fr show ?thesis by (cases r) (auto simp: io_result_def)
  qed (use True fr in \<open>auto simp: write_fragment_def\<close>)
next
  case False
  note g = groups_are_fragment [OF False, of fin]
  let ?firsts = "step_by SCATTER_BLOCKS_PER_WRITE (block_count data)"
  have "length (vsock.groups_text data fin (block_count data) ?firsts) + (wpat \<circ> inner) s < env_F E"
    unfolding g using assms(2) by simp
  note spec = vsock.write_groups_spec [OF this, unfolded g]
  obtain r s' where w: "write_groups (ServerSock_write_vectored T) (env_F E) data fin (block_count data) ?firsts s = (r, s')"
    by (metis surj_pair)
  have "write_fragment E data fin s = (io_result r, s')"
    unfolding write_fragment_def Let_def assms(1) w using False by simp
  with spec [unfolded w] show ?thesis by (cases r) (auto simp: io_result_def)
qed

end

section \<open>Requests in the response\<close>

lemma FILE_TRANSFER_length: "length FILE_TRANSFER = 3"
  by (simp add: FILE_TRANSFER_def)

lemma rfind_sub_Some: "rfind_sub n s = Some i \<Longrightarrow> i + length n \<le> length s \<and> take (length n) (drop i s) = n"
proof (induction n s arbitrary: i rule: rfind_sub.induct)
  case (2 n c cs)
  show ?case
  proof (cases "rfind_sub n cs")
    case None
    with "2.prems" have p: "prefix n (c # cs)" and "i = 0" by (auto split: if_splits)
    with prefix_length_le [OF p] show ?thesis by (auto simp: prefix_def)
  next
    case (Some j)
    with "2.prems" have "i = Suc j" by simp
    with "2.IH" [OF Some] show ?thesis by simp
  qed
qed (auto split: if_splits)

lemma rfind_sub_absent: "x \<notin> set s \<Longrightarrow> rfind_sub (x # n) s = None"
  by (induction s) auto

lemma rfind_sub_append: "rfind_sub n s = Some i \<Longrightarrow> rfind_sub n (p @ s) = Some (length p + i)"
  by (induction p) auto

lemma strip_suffix_Some: "strip_suffix s p = Some x \<longleftrightarrow> s = x @ p"
  by (auto simp: strip_suffix_def suffix_def)

definition line_start :: "bytes \<Rightarrow> bool" where
  "line_start pre \<longleftrightarrow> pre = [] \<or> last pre = CHR 0x0a"

lemma line_start_nth: "m \<le> length s \<Longrightarrow> (m = 0 \<or> s ! (m - 1) = CHR 0x0a) = line_start (take m s)"
  by (cases m) (auto simp: line_start_def take_Suc_conv_app_nth)

context byte_search
begin

lemma find_marker_spec:
  assumes "e \<le> length response" and "e < f"
  shows "case find_marker L f response e of
      Ok None \<Rightarrow> True
    | Ok (Some m) \<Rightarrow> m + 3 \<le> length response \<and> take 3 (drop m response) = FILE_TRANSFER \<and> line_start (take m response)
    | _ \<Rightarrow> False"
  using assms
proof (induction f arbitrary: e)
  case (Suc f)
  show ?case
  proof (cases "rfind_sub FILE_TRANSFER (take e response)")
    case (Some m)
    from rfind_sub_Some [OF Some] have m: "m + 3 \<le> e" "take 3 (drop m (take e response)) = FILE_TRANSFER"
      using Suc.prems(1) by (simp_all add: FILE_TRANSFER_length)
    then have "take 3 (drop m response) = FILE_TRANSFER" by (simp add: drop_take min_absorb1)
    moreover have "m \<le> length response" "m < f" using m(1) Suc.prems by simp_all
    ultimately show ?thesis
      using Some Suc.IH [of m] m(1) Suc.prems(1) line_start_nth [of m response] by (auto simp: memmem_last)
  qed (simp add: memmem_last)
qed simp

end

section \<open>Reading leaves what was written alone\<close>

text \<open>A transport whose two directions are independent.\<close>

locale duplex_transport = vectored_transport +
  assumes read_keeps: "tr_read T n t = (r, t') \<Longrightarrow> out t' = out t"
    and timeout_keeps: "tr_set_read_timeout T d t = (r2, t') \<Longrightarrow> out t' = out t"
begin

lemma out_kept: "read_invariant T (\<lambda>t. out t = a)"
proof
  fix t n d
  assume t: "out t = a"
  show "out (snd (tr_read T n t)) = a" using t read_keeps [of n t] by (cases "tr_read T n t") simp
  show "out (snd (tr_set_read_timeout T d t)) = a" using t timeout_keeps [of d t] by (cases "tr_set_read_timeout T d t") simp
qed

end

interpretation script_duplex: duplex_transport script_transport sent script_wpatience
proof unfold_locales
  fix n d r r2 and t t' :: script
  show "sent t' = sent t" if "tr_read script_transport n t = (r, t')"
    using that by (cases "(n, t)" rule: script_read.cases)
      (auto simp: script_transport_def split: event.splits if_splits list.splits prod.splits)
  show "sent t' = sent t" if "tr_set_read_timeout script_transport d t = (r2, t')"
    using that by (auto simp: script_transport_def)
qed

section \<open>What a sink has put on the wire\<close>

text \<open>Results without a bound on the fuel: when the loops return \<open>Ok\<close>, everything has gone out.\<close>

context byte_sink
begin

lemma write_all_Ok: "write_all wr f buf s = (Ok u, s') \<Longrightarrow> out s' = out s @ buf"
proof (induction f arbitrary: buf s)
  case (Suc f)
  show ?case
  proof (cases "buf = []")
    case False
    obtain r s1 where w: "wr buf s = (r, s1)" by (metis surj_pair)
    show ?thesis
    proof (cases r)
      case (Ok n)
      from accept [OF False w [unfolded Ok]] Suc.IH [of "drop n buf" s1] Suc.prems False w Ok show ?thesis
        by (auto split: if_splits)
    next
      case (Err e)
      from refuse [OF False w [unfolded Err]] Suc.IH [of buf s1] Suc.prems False w Err show ?thesis
        by (auto split: if_splits)
    qed (use Suc.prems False w in auto)
  qed (use Suc.prems in auto)
qed simp

end

context vector_sink
begin

lemma vectored_loop_Ok:
  "vectored_loop wrv f bufs s = (Ok u, s') \<Longrightarrow> (bufs \<noteq> [] \<longrightarrow> hd bufs \<noteq> []) \<Longrightarrow> out s' = out s @ concat bufs"
proof (induction f arbitrary: bufs s)
  case (Suc f)
  show ?case
  proof (cases "bufs = []")
    case False
    then have ne: "concat bufs \<noteq> []" using Suc.prems(2) by (cases bufs) auto
    obtain r s1 where w: "wrv bufs s = (r, s1)" by (metis surj_pair)
    show ?thesis
    proof (cases r)
      case (Ok n)
      from accept_v [OF ne w [unfolded Ok]] have a: "n \<le> length (concat bufs)" "out s1 = out s @ take n (concat bufs)" by auto
      from advance_slices_drop [OF a(1)] obtain rest where rest: "advance_slices n bufs = Some rest"
        "concat rest = drop n (concat bufs)" "rest \<noteq> [] \<longrightarrow> hd rest \<noteq> []" by blast
      from Suc.IH [of rest s1] Suc.prems(1) False w Ok rest a show ?thesis by (auto split: if_splits)
    next
      case (Err e)
      from refuse_v [OF ne w [unfolded Err]] Suc.IH [of bufs s1] Suc.prems False w Err show ?thesis
        by (auto split: if_splits)
    qed (use Suc.prems False w in auto)
  qed (use Suc.prems in auto)
qed simp

lemma write_all_vectored_Ok: "write_all_vectored wrv f bufs s = (Ok u, s') \<Longrightarrow> out s' = out s @ concat bufs"
  using advance_slices_drop [of 0 bufs] vectored_loop_Ok [of f _ s u s'] by (auto simp: write_all_vectored_def)

lemma write_groups_Ok:
  "write_groups wrv f data fin blocks firsts s = (Ok u, s') \<Longrightarrow> out s' = out s @ groups_text data fin blocks firsts"
proof (induction firsts arbitrary: s)
  case (Cons a firsts)
  from Cons.prems obtain v s1 where
    "write_all_vectored wrv f (group_slices data fin blocks a (min (a + SCATTER_BLOCKS_PER_WRITE) blocks)) s = (Ok v, s1)"
    "write_groups wrv f data fin blocks firsts s1 = (Ok u, s')" by (auto simp: bindS_Ok_iff)
  from write_all_vectored_Ok [OF this(1)] Cons.IH [OF this(2)] show ?case by (simp add: groups_text_def)
qed (simp add: groups_text_def)

end

lemma io_result_Ok: "io_result r = Ok x \<longleftrightarrow> r = Ok x"
  by (cases r) (simp_all add: io_result_def)

context vectored_transport
begin

lemma write_fragment_Ok:
  assumes "env_T E = T" and "write_fragment E data fin s = (Ok u, s')"
  shows "out (inner s') = out (inner s) @ fragment data fin"
proof (cases "data = []")
  case True
  have "out (inner s') = out (inner s) @ head 0 True"
    if "write_all (ServerSock_write T) (env_F E) (case u16_to_le_bytes 1 of (lo, hi) \<Rightarrow> [lo, hi]) s = (Ok u, s')"
    using sock.write_all_Ok [OF that] by (simp add: u16_to_le_bytes_def head_def)
  with assms True show ?thesis
    by (auto simp: write_fragment_def fragment_def frame.simps [of "[]"] open_blocks.simps [of "[]"] io_result_Ok
        split: prod.splits if_splits)
next
  case False
  with assms have "write_groups (ServerSock_write_vectored T) (env_F E) data fin (block_count data)
      (step_by SCATTER_BLOCKS_PER_WRITE (block_count data)) s = (Ok u, s')"
    by (auto simp: write_fragment_def Let_def io_result_Ok split: prod.splits)
  from vsock.write_groups_Ok [OF this] show ?thesis unfolding groups_are_fragment [OF False] by simp
qed

end

text \<open>The socket of a sink: its own, or the one its outcome holds.\<close>

fun outcome_sock :: "'t UploadOutcome \<Rightarrow> 't ServerSock" where
  "outcome_sock (Complete sock) = sock"
| "outcome_sock (ServerResponse sock response) = sock"

definition sink_sock :: "'t StreamingUpload \<Rightarrow> 't ServerSock option" where
  "sink_sock u = (case su_outcome u of Some oc \<Rightarrow> Some (outcome_sock oc) | None \<Rightarrow> su_sock u)"

lemma sink_sock_pending [simp]: "sink_sock (u\<lparr>su_pending := p\<rparr>) = sink_sock u"
  by (simp add: sink_sock_def split: option.splits)

lemma send_message_sock: "send_message E d u = (Ok x, u') \<Longrightarrow> sink_sock u' \<noteq> None"
  by (auto simp: send_message_def sink_sock_def Let_def split: prod.splits outcome.splits option.splits if_splits)

lemma flush_pending_sock: "flush_pending E u = (Ok x, u') \<Longrightarrow> sink_sock u \<noteq> None \<Longrightarrow> sink_sock u' \<noteq> None"
  by (auto simp: flush_pending_def split: prod.splits if_splits dest!: send_message_sock)

lemma chunk_loop_sock: "chunk_loop E data u = (Ok x, u') \<Longrightarrow> sink_sock u \<noteq> None \<Longrightarrow> sink_sock u' \<noteq> None"
proof (induction E data u rule: chunk_loop.induct)
  case (1 E data u)
  obtain r u1 where s: "send_message E (take (su_chunk_size u) data) u = (r, u1)" by (metis surj_pair)
  show ?case
  proof (cases "su_chunk_size u \<le> length data \<and> su_chunk_size u \<noteq> 0")
    case True
    then obtain v where Ok: "r = Ok v" using "1.prems"(1) s by (subst (asm) chunk_loop.simps) (cases r; simp add: Let_def)
    from send_message_sock [OF s [unfolded Ok]] "1.prems"(1) True s Ok "1.IH" [OF True refl refl s [symmetric] Ok] show ?thesis
      by (subst (asm) chunk_loop.simps) (auto simp: Let_def split: if_splits)
  qed (use "1.prems" in \<open>subst (asm) chunk_loop.simps, auto\<close>)
qed

lemma start_upload_sock: "start_upload E u = (Ok x, u') \<Longrightarrow> sink_sock u \<noteq> None \<Longrightarrow> sink_sock u' \<noteq> None"
  by (auto simp: start_upload_def sink_sock_def split: prod.splits outcome.splits option.splits if_splits)

lemma write_chunk_sock: "write_chunk E data u = (Ok x, u') \<Longrightarrow> sink_sock u \<noteq> None \<Longrightarrow> sink_sock u' \<noteq> None"
  by (auto simp: write_chunk_def bindS_Ok_iff Let_def split: if_splits simp del: not_None_eq
      dest!: start_upload_sock chunk_loop_sock flush_pending_sock)

context duplex_transport
begin

definition wire :: "'a StreamingUpload \<Rightarrow> bytes" where
  "wire u = (case sink_sock u of Some sock \<Rightarrow> out (inner sock) | None \<Rightarrow> [])"

definition open_sink :: "'a StreamingUpload \<Rightarrow> bool" where
  "open_sink u \<longleftrightarrow> su_outcome u = None \<and> su_sock u \<noteq> None"

lemma recv_message_keeps: "env_T E = T \<Longrightarrow> recv_message E m s = (Ok s', p) \<Longrightarrow> out (inner s') = out (inner s)"
  using reader_invariant.to_limited_keeps [OF read_invariant.sock_reader [OF out_kept [of "out (inner s)"]], of "env_F E" "env_pol E" s "[]" m s' p]
  by (auto simp: recv_message_def io_result_Ok split: prod.splits)

lemma send_message_Ok:
  assumes "env_T E = T" and "open_sink u" and send: "send_message E data u = (Ok x, u')"
  shows "wire u' = wire u @ frame data" and "su_outcome u' = None \<Longrightarrow> open_sink u'"
    and "su_pending u' = su_pending u" and "su_chunk_size u' = su_chunk_size u" and "su_started u' = su_started u"
proof -
  from assms(2) obtain s where s: "su_sock u = Some s" "su_outcome u = None" by (auto simp: open_sink_def)
  from send s(1) obtain v s1 s2 p where f: "write_fragment E data True s = (Ok v, s1)"
    and r: "recv_message E (su_max_response_size u) s1 = (Ok s2, p)"
    by (auto simp: send_message_def Let_def split: prod.splits outcome.splits)
  from write_fragment_Ok [OF assms(1) f] recv_message_keeps [OF assms(1) r]
  have o: "out (inner s2) = out (inner s) @ frame data" by (simp add: fragment_def)
  from send s f r o
  show "wire u' = wire u @ frame data" "su_outcome u' = None \<Longrightarrow> open_sink u'"
    "su_pending u' = su_pending u" "su_chunk_size u' = su_chunk_size u" "su_started u' = su_started u"
    by (auto simp: send_message_def Let_def wire_def sink_sock_def open_sink_def split: if_splits)
qed

lemma start_upload_Ok:
  assumes "env_T E = T" and "open_sink u" and "start_upload E u = (Ok x, u')"
  shows "wire u' = wire u @ (if su_started u then [] else open_blocks [CHR 0x0a])" and "open_sink u'"
    and "su_pending u' = su_pending u" and "su_chunk_size u' = su_chunk_size u" and "su_started u'"
  using assms write_fragment_Ok [OF assms(1), of "[CHR 0x0a]" False]
  by (auto simp: start_upload_def wire_def sink_sock_def open_sink_def fragment_def split: prod.splits outcome.splits if_splits)

lemma chunk_loop_Ok:
  "env_T E = T \<Longrightarrow> open_sink u \<Longrightarrow> 0 < su_chunk_size u \<Longrightarrow> su_pending u = [] \<or> data = [] \<Longrightarrow>
   length (su_pending u) < su_chunk_size u \<Longrightarrow> chunk_loop E data u = (Ok x, u') \<Longrightarrow>
   \<exists>msgs. (\<forall>m\<in>set msgs. length m = su_chunk_size u) \<and> wire u' = wire u @ concat (map frame msgs)
     \<and> concat msgs @ su_pending u' = su_pending u @ data \<and> su_chunk_size u' = su_chunk_size u
     \<and> length (su_pending u') < su_chunk_size u'"
proof (induction E data u rule: chunk_loop.induct)
  case (1 E data u)
  note prems = "1.prems"
  show ?case
  proof (cases "su_chunk_size u \<le> length data")
    case True
    let ?c = "take (su_chunk_size u) data" and ?r = "drop (su_chunk_size u) data"
    from True prems(3,4) have pend: "su_pending u = []" by (cases data) auto
    obtain r u1 where s: "send_message E ?c u = (r, u1)" by (metis surj_pair)
    show ?thesis
    proof (cases r)
      case (Ok v)
      note k = send_message_Ok [OF prems(1,2) s [unfolded Ok]]
      have ch: "length ?c = su_chunk_size u" using True by simp
      show ?thesis
      proof (cases "su_outcome u1 = None")
        case open_: True
        then have "chunk_loop E ?r u1 = (Ok x, u')"
          using prems(3,6) True s Ok by (subst (asm) chunk_loop.simps) (simp add: Let_def)
        from "1.IH" [OF _ refl refl s [symmetric] Ok _ prems(1) k(2) [OF open_] _ _ _ this] open_ True prems(3) k pend
        obtain msgs where m: "\<forall>m\<in>set msgs. length m = su_chunk_size u" "wire u' = wire u1 @ concat (map frame msgs)"
          "concat msgs @ su_pending u' = ?r" "su_chunk_size u' = su_chunk_size u" "length (su_pending u') < su_chunk_size u'"
          by auto
        then have "(\<forall>m\<in>set (?c # msgs). length m = su_chunk_size u) \<and> wire u' = wire u @ concat (map frame (?c # msgs))
            \<and> concat (?c # msgs) @ su_pending u' = su_pending u @ data"
          using k(1) ch pend by simp
        with m(4,5) show ?thesis by blast
      next
        case False
        then have "?r = [] \<and> u' = u1"
          using prems(3,6) True s Ok by (subst (asm) chunk_loop.simps) (auto simp: Let_def split: if_splits)
        then have "(\<forall>m\<in>set [data]. length m = su_chunk_size u) \<and> wire u' = wire u @ concat (map frame [data])
            \<and> concat [data] @ su_pending u' = su_pending u @ data"
          using k(1,3) pend True by auto
        with k(3,4) pend prems(3) \<open>?r = [] \<and> u' = u1\<close> show ?thesis by (metis length_0_conv)
      qed
    qed (use prems(3,6) True s in \<open>(subst (asm) chunk_loop.simps, simp add: Let_def)+\<close>)
  next
    case False
    with prems(6) have u': "u' = u\<lparr>su_pending := su_pending u @ data\<rparr>" by (subst (asm) chunk_loop.simps) simp
    have "wire u' = wire u" by (simp add: u' wire_def sink_sock_def split: option.splits)
    with False prems(4,5) u' show ?thesis by (intro exI [of _ "[]"]) auto
  qed
qed

lemma chunk_loop_Nil: "0 < su_chunk_size u \<Longrightarrow> chunk_loop E [] u = (Ok (), u)"
  by (subst chunk_loop.simps) simp

lemma wire_pending [simp]: "wire (u\<lparr>su_pending := p\<rparr>) = wire u"
  by (simp add: wire_def sink_sock_def split: option.splits)

lemma open_pending [simp]: "open_sink (u\<lparr>su_pending := p\<rparr>) = open_sink u"
  by (simp add: open_sink_def)

lemma flush_pending_Ok:
  assumes "env_T E = T" and "open_sink u" and "su_pending u \<noteq> []" and "flush_pending E u = (Ok x, u')"
  shows "wire u' = wire u @ frame (su_pending u)" and "su_outcome u' = None \<Longrightarrow> open_sink u'"
    and "su_pending u' = []" and "su_chunk_size u' = su_chunk_size u"
proof -
  from assms(3,4) obtain v u1 where s: "send_message E (su_pending u) (u\<lparr>su_pending := []\<rparr>) = (Ok v, u1)"
    and u': "u' = u1\<lparr>su_pending := []\<rparr>" by (auto simp: flush_pending_def split: prod.splits)
  note k = send_message_Ok [OF assms(1) _ s]
  from k assms(2) u' show "wire u' = wire u @ frame (su_pending u)" "su_outcome u' = None \<Longrightarrow> open_sink u'"
    "su_pending u' = []" "su_chunk_size u' = su_chunk_size u" by simp_all
qed

lemma write_chunk_Ok:
  assumes E: "env_T E = T" and o: "open_sink u" and c: "length (su_pending u) < su_chunk_size u"
    and w: "write_chunk E data u = (Ok x, u')"
  shows "\<exists>msgs. (\<forall>m\<in>set msgs. length m = su_chunk_size u)
     \<and> wire u' = wire u @ (if su_started u \<or> data = [] then [] else open_blocks [CHR 0x0a]) @ concat (map frame msgs)
     \<and> concat msgs @ su_pending u' = su_pending u @ data \<and> su_chunk_size u' = su_chunk_size u
     \<and> length (su_pending u') < su_chunk_size u'"
proof (cases "data = []")
  case True
  with w c show ?thesis by (intro exI [of _ "[]"]) (auto simp: write_chunk_def)
next
  case False
  let ?nl = "if su_started u then [] else open_blocks [CHR 0x0a]"
  from o have none: "su_outcome u = None" by (simp add: open_sink_def)
  obtain v u1 where s: "start_upload E u = (Ok v, u1)"
    using w False none by (cases "start_upload E u") (auto simp: write_chunk_def bindS_Ok_iff)
  note k = start_upload_Ok [OF E o s]
  let ?k = "min (su_chunk_size u - length (su_pending u)) (length data)"
  let ?u2 = "u1\<lparr>su_pending := su_pending u @ take ?k data\<rparr>"
  have pos: "0 < su_chunk_size u" using c by simp
  have fits: "\<not> su_chunk_size u < length (su_pending u)" using c by simp
  note w' = w [unfolded write_chunk_def if_not_P [OF False] none s bindS.simps Let_def k(3,4), simplified]
  show ?thesis
  proof (cases "su_pending u = []")
    case True
    then have l: "chunk_loop E data u1 = (Ok x, u')" using w' by simp
    from chunk_loop_Ok [OF E k(2) _ _ _ l] True k pos False show ?thesis by auto
  next
    case pend: False
    show ?thesis
    proof (cases "length (su_pending u) + ?k = su_chunk_size u")
      case full: True
      let ?d = "drop ?k data"
      from w' pend fits full have b: "bindS (flush_pending E ?u2) (\<lambda>_ u. if su_outcome u \<noteq> None \<and> ?d \<noteq> [] then (Err UploadComplete, u)
          else chunk_loop E ?d u) = (Ok x, u')" by simp
      then obtain y u3 where f: "flush_pending E ?u2 = (Ok y, u3)" and l: "chunk_loop E ?d u3 = (Ok x, u')"
        and g: "su_outcome u3 = None \<or> ?d = []" by (auto simp: bindS_Ok_iff split: if_splits)
      have "open_sink ?u2" "su_pending ?u2 \<noteq> []" using k(2) pend by simp_all
      note p = flush_pending_Ok [OF E this f]
      let ?m = "su_pending u @ take ?k data"
      have len: "length ?m = su_chunk_size u" using full by simp
      have "\<exists>msgs. (\<forall>m\<in>set msgs. length m = su_chunk_size u) \<and> wire u' = wire u3 @ concat (map frame msgs)
          \<and> concat msgs @ su_pending u' = ?d \<and> su_chunk_size u' = su_chunk_size u \<and> length (su_pending u') < su_chunk_size u'"
      proof (cases "su_outcome u3 = None")
        case True
        from chunk_loop_Ok [OF E p(2) [OF True] _ _ _ l] p k pos show ?thesis by simp
      next
        case False
        with g l chunk_loop_Nil [of u3 E] p k pos show ?thesis by (intro exI [of _ "[]"]) simp
      qed
      then obtain msgs where m: "\<forall>m\<in>set msgs. length m = su_chunk_size u" "wire u' = wire u3 @ concat (map frame msgs)"
        "concat msgs @ su_pending u' = ?d" "su_chunk_size u' = su_chunk_size u" "length (su_pending u') < su_chunk_size u'" by blast
      have "wire u' = wire u @ ?nl @ concat (map frame (?m # msgs))" using m(2) p(1) k(1) by simp
      moreover have "concat (?m # msgs) @ su_pending u' = su_pending u @ data" using m(3) by simp
      ultimately show ?thesis using m(1,4,5) len False by (intro exI [of _ "?m # msgs"]) simp
    next
      case part: False
      then have kl: "?k = length data" "length (su_pending u) + length data < su_chunk_size u" using c by (auto simp: min_def split: if_splits)
      have "length (su_pending ?u2) \<noteq> su_chunk_size u" using part by simp
      with w' have "chunk_loop E (drop ?k data) ?u2 = (Ok (), u')"
        by (simp only: pend fits if_False if_True simp_thms)
      then have "u' = u1\<lparr>su_pending := su_pending u @ data\<rparr>" using chunk_loop_Nil [of ?u2 E] k(4) pos by (simp add: kl(1))
      with k kl(2) False show ?thesis by (intro exI [of _ "[]"]) simp
    qed
  qed
qed

end

section \<open>Properties\<close>

text \<open>Writing a fragment through groups of slices puts exactly its framing on the wire: the whole framed message when it
  is finished, its blocks without an end when it is not, however many bytes the transport takes at a time. It fails only
  with an I/O error, after a prefix of that; it does not panic and does not loop for ever.\<close>

theorem write_fragment_frames:
  assumes "vectored_transport (env_T E) out wpat" and "length (fragment data fin) + wpat (inner s) < env_F E"
  shows "case write_fragment E data fin s of
     (Ok _, s') \<Rightarrow> out (inner s') = out (inner s) @ (if fin then frame data else open_blocks data)
   | (Err e, s') \<Rightarrow> \<exists>k. out (inner s') = out (inner s) @ take k (if fin then frame data else open_blocks data)
   | _ \<Rightarrow> False"
  using vectored_transport.write_fragment_spec [OF assms(1) refl assms(2)] unfolding fragment_def .

theorem write_fragment_frames_witness:
  "case write_fragment (script_env 100) ''data'' True example_out of
     (Ok _, s') \<Rightarrow> sent (inner s') = sent (inner example_out) @ (if True then frame ''data'' else open_blocks ''data'')
   | (Err e, s') \<Rightarrow> \<exists>k. sent (inner s') = sent (inner example_out) @ take k (if True then frame ''data'' else open_blocks ''data'')
   | _ \<Rightarrow> False"
proof -
  have T: "env_T (script_env 100) = script_transport" by (simp add: script_env_def)
  show ?thesis
    by (rule write_fragment_frames [where E = "script_env 100", unfolded T, OF script_vectored.vectored_transport_axioms])
       (simp add: script_env_def example_out_def ServerSock_with_control_def script_wpatience_def fragment_def frame.simps)
qed

text \<open>A request for a file is found exactly where it is: what is returned is the text of a request that ends the response
  and starts at the beginning of a line, and what remains is the response before it; a request for a name without
  control bytes at the end of a response is always found; every other response is left as it is, and no
  response makes the search panic or run on.\<close>

theorem take_file_request_exact:
  assumes "byte_search L"
  shows "(case take_file_request L response of
       (Ok None, r) \<Rightarrow> r = response
     | (Ok (Some cmd), r) \<Rightarrow> response = r @ FILE_TRANSFER @ cmd @ [CHR 0x0a] \<and> line_start r \<and> utf8_valid cmd
     | (Err e, r) \<Rightarrow> r = response
     | _ \<Rightarrow> False)
   \<and> (line_start pre \<and> CHR 0x01 \<notin> set cmd' \<and> utf8_valid cmd' \<longrightarrow>
       take_file_request L (pre @ FILE_TRANSFER @ cmd' @ [CHR 0x0a]) = (Ok (Some cmd'), pre))"
proof (intro conjI impI)
  have spec: "case find_marker L (length response + 1) response (length response) of
      Ok None \<Rightarrow> True
    | Ok (Some m) \<Rightarrow> m + 3 \<le> length response \<and> take 3 (drop m response) = FILE_TRANSFER \<and> line_start (take m response)
    | _ \<Rightarrow> False"
    by (rule byte_search.find_marker_spec [OF assms]) simp_all
  show "case take_file_request L response of
       (Ok None, r) \<Rightarrow> r = response
     | (Ok (Some cmd), r) \<Rightarrow> response = r @ FILE_TRANSFER @ cmd @ [CHR 0x0a] \<and> line_start r \<and> utf8_valid cmd
     | (Err e, r) \<Rightarrow> r = response
     | _ \<Rightarrow> False"
  proof (cases "find_marker L (length response + 1) response (length response)")
    case (Ok m)
    show ?thesis
    proof (cases m)
      case (Some k)
      with spec Ok have k: "take 3 (drop k response) = FILE_TRANSFER" "line_start (take k response)" by auto
      have "response = take k response @ FILE_TRANSFER @ drop (k + 3) response"
        by (metis add.commute append_take_drop_id drop_drop k(1))
      with k(2) show ?thesis unfolding take_file_request_def Ok Some
        by (auto simp: strip_suffix_Some FILE_TRANSFER_length split: option.splits)
    next
      case None
      show ?thesis unfolding take_file_request_def Ok None by simp
    qed
  qed (use spec in \<open>auto simp: take_file_request_def simp del: find_marker.simps\<close>)
  assume r: "line_start pre \<and> CHR 0x01 \<notin> set cmd' \<and> utf8_valid cmd'"
  let ?t = "FILE_TRANSFER @ cmd' @ [CHR 0x0a]"
  have "rfind_sub FILE_TRANSFER ?t = Some 0"
    using r rfind_sub_absent [of "CHR 0x01" "CHR 0x03 # CHR 0x0a # cmd' @ [CHR 0x0a]"] by (simp add: FILE_TRANSFER_def)
  from rfind_sub_append [OF this] have "rfind_sub FILE_TRANSFER (pre @ ?t) = Some (length pre)" by simp
  then have "find_marker L (Suc (length (pre @ ?t))) (pre @ ?t) (length (pre @ ?t)) = Ok (Some (length pre))"
    using r line_start_nth [of "length pre" "pre @ ?t"] by (simp add: byte_search.memmem_last [OF assms])
  then show "take_file_request L (pre @ ?t) = (Ok (Some cmd'), pre)"
    using r strip_suffix_Some [of "cmd' @ [CHR 0x0a]" "[CHR 0x0a]" cmd'] unfolding take_file_request_def
    by (simp del: find_marker.simps)
qed

theorem take_file_request_exact_witness:
  "take_file_request ref_libs ([CHR 0x0a] @ FILE_TRANSFER @ ''rb x'' @ [CHR 0x0a]) = (Ok (Some ''rb x''), [CHR 0x0a])"
  using take_file_request_exact [OF ref_libs.byte_search_axioms, of _ "[CHR 0x0a]" "''rb x''"]
  by (simp add: line_start_def utf8_step_def)

text \<open>C31. Writing to a sink loses, duplicates and reorders nothing: when \<open>write_chunk\<close> succeeds, what it has put on the wire
  is the opening line of the file (once, before the first data) and framed messages of exactly the chunk size, and the contents
  of those messages followed by what the sink still holds back are the bytes held back before followed by the data; less
  than one chunk is held back. This holds even when the server ends the upload with the last message.\<close>

theorem write_chunk_conserves:
  assumes "duplex_transport (env_T E) out wpat" and "su_sock u = Some s" and "su_outcome u = None"
    and "length (su_pending u) < su_chunk_size u" and "write_chunk E data u = (Ok (), u')"
  shows "\<exists>s' msgs. sink_sock u' = Some s' \<and> (\<forall>m\<in>set msgs. length m = su_chunk_size u)
     \<and> out (inner s') = out (inner s) @ (if su_started u \<or> data = [] then [] else open_blocks [CHR 0x0a]) @ concat (map frame msgs)
     \<and> concat msgs @ su_pending u' = su_pending u @ data
     \<and> su_chunk_size u' = su_chunk_size u \<and> length (su_pending u') < su_chunk_size u'"
proof -
  have o: "duplex_transport.open_sink u"
    using assms(2,3) by (simp add: duplex_transport.open_sink_def [OF assms(1)])
  have "sink_sock u = Some s" using assms(2,3) by (simp add: sink_sock_def)
  with write_chunk_sock [OF assms(5)] obtain s' where s': "sink_sock u' = Some s'" by auto
  from duplex_transport.write_chunk_Ok [OF assms(1) refl o assms(4,5)] s' \<open>sink_sock u = Some s\<close> show ?thesis
    by (simp add: duplex_transport.wire_def [OF assms(1)])
qed

definition example_upload :: "script StreamingUpload" where
  "example_upload = (StreamingUpload_new
       \<lparr>inner = \<lparr>clock = 0, events = [(1, Recv (head 3 True @ MORE))], allowances = [Accept 3], sent = []\<rparr>,
        control = SocketControl_new Tcp (ActiveTimeouts_for_connection \<lparr>t_read = None, t_write = None, t_operation = None\<rparr> None),
        read_buffer = None, read_position = 0, read_length = 0, last_read_timeout = None, last_write_timeout = None\<rparr> 2 100)
     \<lparr>su_pending := ''a'', su_started := True\<rparr>"

lemma example_upload_runs: "fst (write_chunk (script_env 20) ''bc'' example_upload) = Ok ()"
proof -
  have F: "(20::nat) = Suc (Suc (Suc (Suc (Suc (Suc (Suc (Suc (Suc (Suc (Suc (Suc (Suc (Suc (Suc (Suc (Suc (Suc (Suc (Suc 0)))))))))))))))))))" by simp
  show ?thesis unfolding F
    by (simp add: write_chunk_def example_upload_def StreamingUpload_new_def start_upload_def flush_pending_def send_message_def
      script_env_def write_fragment_def step_by_def SCATTER_BLOCKS_PER_WRITE_def write_all_vectored_def group_slices_def block_header_def
       ServerSock_write_vectored_def with_write_timeout_def upt_conv_Cons apply_write_timeout_def on_inner_def script_transport_def
       SocketControl_write_limit_def SocketControl_new_def ActiveTimeouts_for_connection_def u16_to_le_bytes_def
       io_result_def Let_def recv_message_def to_limited_def MapiReader_new_def read_header_def read_body_def read_some_def reader_interpret_def
       ServerSock_read_def chunk_loop.simps limited_tail_def MapiReader_finish_def head_def MORE_def BlockState_interpret_def
       skip_headers_def skip_loop.simps BlockState_new_def Header_from_bytes_def BlockState_from_header_def u16_from_le_bytes_def)
qed

theorem write_chunk_conserves_witness:
  "\<exists>s' msgs. sink_sock (snd (write_chunk (script_env 20) ''bc'' example_upload)) = Some s'
     \<and> (\<forall>m\<in>set msgs. length m = 2) \<and> sent (inner s') = concat (map frame msgs)
     \<and> concat msgs @ su_pending (snd (write_chunk (script_env 20) ''bc'' example_upload)) = ''abc''"
proof -
  have T: "env_T (script_env 20) = script_transport" by (simp add: script_env_def)
  obtain u where w: "write_chunk (script_env 20) ''bc'' example_upload = (Ok (), u)"
    using example_upload_runs by (metis prod.collapse)
  have u0: "su_pending example_upload = ''a''" "su_chunk_size example_upload = 2" "su_started example_upload" "su_outcome example_upload = None"
    "\<exists>s. su_sock example_upload = Some s \<and> sent (inner s) = []" by (simp_all add: example_upload_def StreamingUpload_new_def)
  then obtain s where s: "su_sock example_upload = Some s" "sent (inner s) = []" by blast
  from write_chunk_conserves [where E = "script_env 20", unfolded T, OF script_duplex.duplex_transport_axioms s(1) _ _ w] u0 s(2)
  show ?thesis by (auto simp: w)
qed

end
