(* ===== verification/Cursor.thy ===== *)
theory Cursor
  imports Upload
begin

text \<open>
  The cursor, \<open>src/cursor/mod.rs\<close> and \<open>Cursor::command_with_uploads\<close> of \<open>src/cursor/upload.rs\<close>: executing statements,
  stepping through the replies, fetching rows in windows that grow, binary windows, closing.

  The connection is shared in the code (\<open>Arc<Conn>\<close>); here the cursor carries the state of the connection and every
  operation returns it updated, and what other threads do to it meanwhile is part of the environment. A method with
  \<open>&mut self\<close> gives the pair of its result and the cursor. The loops over the replies of a response take fuel;
  the lemmas on \<open>exhaust\<close> say when it is enough and when no fuel is.
\<close>

section \<open>Model of the code: windows\<close>

definition count_row :: "nat \<Rightarrow> nat \<Rightarrow> (nat, BadReply) outcome" where
  "count_row next_row total_rows = (if total_rows \<le> next_row then Err (TooManyRows total_rows) else Ok (next_row + 1))"

definition saturating_add :: "nat \<Rightarrow> nat \<Rightarrow> nat" where
  "saturating_add a b = min usize_max (a + b)"

definition next_window_size :: "nat \<Rightarrow> nat option \<Rightarrow> nat" where
  "next_window_size previous max_prefetch = (case max_prefetch of
       Some limit \<Rightarrow> min (saturating_mul previous 2) (saturating_add limit 1)
     | None \<Rightarrow> saturating_mul previous 2)"

definition next_fetch_size :: "nat \<Rightarrow> nat option \<Rightarrow> nat \<Rightarrow> nat" where
  "next_fetch_size previous max_prefetch remaining = (let desired = next_window_size previous max_prefetch in min remaining desired)"

definition validate_fetch_progress :: "RowSet \<Rightarrow> nat \<Rightarrow> nat \<Rightarrow> (unit, BadReply) outcome" where
  "validate_fetch_progress row_set start requested =
     (if 0 < requested \<and> \<not> has_pending_row row_set then Err (EmptyExportWindow start requested) else Ok ())"

definition validate_export_header :: "nat list \<Rightarrow> nat \<Rightarrow> nat \<Rightarrow> nat \<Rightarrow> nat \<Rightarrow> (unit, BadReply) outcome" where
  "validate_export_header fs expected_result_id expected_columns expected_rows expected_offset =
     (if fs ! 0 \<noteq> expected_result_id then Err (ResultIdMismatch expected_result_id (fs ! 0))
      else if fs ! 1 \<noteq> expected_columns then Err (ColumnCountMismatch expected_columns (fs ! 1))
      else if fs ! 2 \<noteq> expected_rows then Err (RowCountMismatch expected_rows (fs ! 2))
      else if fs ! 3 \<noteq> expected_offset then Err (RowOffsetMismatch expected_offset (fs ! 3))
      else Ok ())"

section \<open>Model of the code: the cursor and its replies\<close>

record 't Cursor =
  cu_conn :: "'t Conn"
  cu_replies :: ReplyParser
  cu_reply_size :: nat
  cu_max_prefetch :: "nat option"
  cu_timeouts :: Timeouts

record BinaryResult =
  br_result_id :: nat
  br_total_rows :: nat
  br_rows_included :: nat
  br_columns :: "ResultColumn list"

definition is_server_resident :: "BinaryResult \<Rightarrow> bool" where
  "is_server_resident r \<longleftrightarrow> br_rows_included r < br_total_rows r"

text \<open>A result other than \<open>Ok\<close>, at another type.\<close>

fun failed :: "('a, 'e) outcome \<Rightarrow> ('b, 'e) outcome" where
  "failed (Ok x) = Panic"
| "failed (Err e) = Err e"
| "failed Panic = Panic"
| "failed NoFuel = NoFuel"

definition Cursor_new :: "'t Conn \<Rightarrow> 't Cursor" where
  "Cursor_new conn = \<lparr>cu_conn = conn, cu_replies = ReplyParser_default, cu_reply_size = cn_reply_size conn,
     cu_max_prefetch = cn_max_prefetch conn, cu_timeouts = cn_timeouts conn\<rparr>"

definition set_timeouts :: "Timeouts \<Rightarrow> 't Cursor \<Rightarrow> 't Cursor" where
  "set_timeouts timeouts cu = cu\<lparr>cu_timeouts := Timeouts_bounded timeouts\<rparr>"

definition set_reply_size :: "nat \<Rightarrow> 't Cursor \<Rightarrow> 't Cursor" where
  "set_reply_size reply_size cu = cu\<lparr>cu_reply_size := reply_size\<rparr>"

definition Cursor_cancel :: "'t Cursor \<Rightarrow> (unit, CursorError) outcome \<times> 't Cursor" where
  "Cursor_cancel cu = (case cancel (cu_conn cu) of (res, c) \<Rightarrow> (res, cu\<lparr>cu_conn := c\<rparr>))"

definition Cursor_affected_rows :: "'t Cursor \<Rightarrow> int option" where
  "Cursor_affected_rows cu = affected_rows (cu_replies cu)"

definition has_result_set :: "'t Cursor \<Rightarrow> bool" where
  "has_result_set cu = at_result_set (cu_replies cu)"

definition queue_close :: "nat \<Rightarrow> 't Cursor \<Rightarrow> (unit, CursorError) outcome \<times> 't Cursor" where
  "queue_close rid cu = (case try_queue_closes [rid] (cu_conn cu) of
       Ok c \<Rightarrow> (Ok (), cu\<lparr>cu_conn := c\<rparr>)
     | Err e \<Rightarrow> (Err (Framing e), cu) | Panic \<Rightarrow> (Panic, cu) | NoFuel \<Rightarrow> (NoFuel, cu))"

definition switch_to_reply :: "ReplyParser \<Rightarrow> 't Cursor \<Rightarrow> (bool, CursorError) outcome \<times> 't Cursor" where
  "switch_to_reply replies cu = (let cu = cu\<lparr>cu_replies := replies\<rparr>;
     have_next = (case cu_replies cu of Exhausted _ \<Rightarrow> False | _ \<Rightarrow> True) in (Ok have_next, cu))"

definition next_reply :: "('t, 'z) env_scheme \<Rightarrow> 't Cursor \<Rightarrow> (bool, CursorError) outcome \<times> 't Cursor" where
  "next_reply E cu = (let old = cu_replies cu; cu = cu\<lparr>cu_replies := ReplyParser_default\<rparr> in
     bindS (map_err Bad (into_next_reply (env_L E) old), cu) (\<lambda>(new, to_close) cu.
     bindS (case to_close of Some rid \<Rightarrow> queue_close rid cu | None \<Rightarrow> (Ok (), cu)) (\<lambda>_ cu.
       switch_to_reply new cu)))"

fun exhaust :: "('t, 'z) env_scheme \<Rightarrow> nat \<Rightarrow> 't Cursor \<Rightarrow> (unit, CursorError) outcome \<times> 't Cursor" where
  "exhaust E 0 cu = (NoFuel, cu)"
| "exhaust E (Suc f) cu = (case cu_replies cu of
       Exhausted _ \<Rightarrow> (Ok (), cu)
     | _ \<Rightarrow> bindS (next_reply E cu) (\<lambda>_ cu. exhaust E f cu))"

fun skip_to_result_set :: "('t, 'z) env_scheme \<Rightarrow> nat \<Rightarrow> 't Cursor \<Rightarrow> (unit, CursorError) outcome \<times> 't Cursor" where
  "skip_to_result_set E 0 cu = (NoFuel, cu)"
| "skip_to_result_set E (Suc f) cu = (case cu_replies cu of
       Data _ \<Rightarrow> (Ok (), cu)
     | Exhausted _ \<Rightarrow> (Err NoResultSet, cu)
     | _ \<Rightarrow> bindS (next_reply E cu) (\<lambda>_ cu. skip_to_result_set E f cu))"

definition result_set :: "'t Cursor \<Rightarrow> (ResultSet, CursorError) outcome" where
  "result_set cu = (case cu_replies cu of Data rs \<Rightarrow> Ok rs | _ \<Rightarrow> Err NoResultSet)"

definition result_set_mut :: "(ResultSet \<Rightarrow> ResultSet) \<Rightarrow> 't Cursor \<Rightarrow> (unit, CursorError) outcome \<times> 't Cursor" where
  "result_set_mut f cu = (case cu_replies cu of
       Data rs \<Rightarrow> (Ok (), cu\<lparr>cu_replies := Data (f rs)\<rparr>) | _ \<Rightarrow> (Panic, cu))"

definition take_replies :: "'t Cursor \<Rightarrow> (bytes, CursorError) outcome \<times> 't Cursor" where
  "take_replies cu = (case take_buffer (cu_replies cu) of (res, p) \<Rightarrow> (res, cu\<lparr>cu_replies := p\<rparr>))"

definition install_response :: "('t, 'z) env_scheme \<Rightarrow> bytes \<Rightarrow> 't Cursor \<Rightarrow> (unit, CursorError) outcome \<times> 't Cursor" where
  "install_response E response cu = (let error = detect_errors (env_L E) response in
     bindS (map_err Bad (ReplyParser_new (env_L E) response), cu) (\<lambda>replies cu.
       let cu = cu\<lparr>cu_replies := replies\<rparr> in
       case error of
         Err e \<Rightarrow> (case exhaust E (env_F E) cu of
             (Ok _, cu) \<Rightarrow> (Err e, cu) | (Err _, cu) \<Rightarrow> (Err e, cu) | (res, cu) \<Rightarrow> (failed res, cu))
       | _ \<Rightarrow> (error, cu)))"

definition discard_sql_response :: "('t, 'z) env_scheme \<Rightarrow> bytes \<Rightarrow> 't Cursor \<Rightarrow> (unit, CursorError) outcome \<times> 't Cursor" where
  "discard_sql_response E response cu = (case ReplyParser_new (env_L E) response of
       Ok replies \<Rightarrow> (case exhaust E (env_F E) (cu\<lparr>cu_replies := replies\<rparr>) of
           (Ok _, cu) \<Rightarrow> (Ok (), cu) | (Err _, cu) \<Rightarrow> (Ok (), cu) | (res, cu) \<Rightarrow> (res, cu))
     | Err _ \<Rightarrow> (Ok (), cu)
     | Panic \<Rightarrow> (Panic, cu) | NoFuel \<Rightarrow> (NoFuel, cu))"

section \<open>Model of the code: commands\<close>

text \<open>The closure of \<open>command_raw\<close>; it captures the error of the delayed commands and the buffer.\<close>

definition command_operation :: "('t, 'z) env_scheme \<Rightarrow> nat \<Rightarrow> bytes list \<Rightarrow> ('t, ServerError option \<times> bytes) operation" where
  "command_operation E max_size command v state delayed sock =
     (case send_delayed_plus E command delayed sock of
        (Ok sock, delayed) \<Rightarrow>
          (case recv_delayed E max_size delayed sock (snd v) of
             (Ok (sock, delayed_error), delayed, _) \<Rightarrow>
               (case recv_message E max_size sock of (res, vec) \<Rightarrow> (res, state, delayed, delayed_error, vec))
           | (res, delayed, vec) \<Rightarrow> (failed res, state, delayed, fst v, vec))
      | (res, delayed) \<Rightarrow> (failed res, state, delayed, v))"

definition command_raw ::
  "'t cenv \<Rightarrow> bytes list \<Rightarrow> bytes \<Rightarrow> 't Cursor \<Rightarrow> (unit, CursorError) outcome \<times> bytes \<times> 't Cursor" where
  "command_raw E command vec cu =
     (case run_locked_with_timeouts E (cu_timeouts cu)
             (command_operation E (cn_max_response_size (cu_conn cu)) command) (None, vec) (cu_conn cu) of
        (res, (delayed_error, vec), c) \<Rightarrow>
          (bindR res (\<lambda>_. case delayed_error of Some error \<Rightarrow> Err (Server error) | None \<Rightarrow> Ok ()), vec, cu\<lparr>cu_conn := c\<rparr>))"

definition error_text :: "texts \<Rightarrow> ('a, CursorError) outcome \<Rightarrow> bytes option" where
  "error_text X r = (case r of Err e \<Rightarrow> Some (CursorError_fmt X e) | _ \<Rightarrow> None)"

text \<open>The end of \<open>command_with_uploads\<close>, when an upload was refused.\<close>

definition report_refusal ::
  "('t, 'z) env_scheme \<Rightarrow> texts \<Rightarrow> CursorError \<Rightarrow> bytes \<Rightarrow> 't Cursor \<Rightarrow> (unit, CursorError) outcome \<times> 't Cursor" where
  "report_refusal E X error response cu =
     (let response_problem = error_text X (detect_errors (env_L E) response);
          first = (\<lambda>e. if response_problem = None then Some (CursorError_fmt X e) else response_problem);
          report = (\<lambda>problem. case problem of Some server \<Rightarrow> Err (UploadRefused error server) | None \<Rightarrow> Err error) in
      case ReplyParser_new (env_L E) response of
        Ok replies \<Rightarrow>
          (case exhaust E (env_F E) (cu\<lparr>cu_replies := replies\<rparr>) of
             (Ok _, cu) \<Rightarrow> (report response_problem, cu)
           | (Err e, cu) \<Rightarrow> (report (first e), cu)
           | (res, cu) \<Rightarrow> (failed res, cu))
      | Err e \<Rightarrow> (report (first (Bad e)), cu)
      | Panic \<Rightarrow> (Panic, cu) | NoFuel \<Rightarrow> (NoFuel, cu))"

definition report_uploads ::
  "('t, 'z) env_scheme \<Rightarrow> texts \<Rightarrow> 'p upload_vars \<Rightarrow> 't Cursor \<Rightarrow> (unit, CursorError) outcome \<times> bytes \<times> 't Cursor" where
  "report_uploads E X v cu =
     (case uv_delayed_error v of
        Some error \<Rightarrow> (case bindS (discard_sql_response E (uv_response v) cu) (\<lambda>_ cu. (Err (Server error), cu)) of
            (res, cu) \<Rightarrow> (res, [], cu))
      | None \<Rightarrow> (case uv_producer_error v of
          Some error \<Rightarrow>
            (case bindS (discard_sql_response E (uv_response v) cu) (\<lambda>_ cu.
                   (case detect_errors (env_L E) (uv_response v) of Err e \<Rightarrow> Err e | _ \<Rightarrow> Err error, cu)) of
               (res, cu) \<Rightarrow> (res, [], cu))
        | None \<Rightarrow> (case uv_refused v of
            Some error \<Rightarrow> (case report_refusal E X error (uv_response v) cu of (res, cu) \<Rightarrow> (res, [], cu))
          | None \<Rightarrow> (Ok (), uv_response v, cu))))"

definition command_with_uploads :: "'t cenv \<Rightarrow> texts \<Rightarrow> bytes list \<Rightarrow> bytes \<Rightarrow> nat \<Rightarrow> ('t, 'p) producer \<Rightarrow> 'p \<Rightarrow> 't Cursor
    \<Rightarrow> (unit, CursorError) outcome \<times> bytes \<times> 'p \<times> 't Cursor" where
  "command_with_uploads E X command response chunk_size upload p cu =
     (case run_locked_with_timeouts E (cu_timeouts cu)
             (upload_operation E X chunk_size (cn_max_response_size (cu_conn cu)) upload command)
             \<lparr>uv_refused = None, uv_producer_error = None, uv_delayed_error = None, uv_response = response, uv_producer = p\<rparr>
             (cu_conn cu) of
        (Ok _, v, c) \<Rightarrow> (case report_uploads E X v (cu\<lparr>cu_conn := c\<rparr>) of (res, vec, cu) \<Rightarrow> (res, vec, uv_producer v, cu))
      | (res, v, c) \<Rightarrow> (res, uv_response v, uv_producer v, cu\<lparr>cu_conn := c\<rparr>))"

definition DEFAULT_UPLOAD_CHUNK_SIZE :: nat where
  "DEFAULT_UPLOAD_CHUNK_SIZE = 16 * 1024 * 1024"

definition execute_with_streaming_uploads_with_chunk_size ::
  "'t cenv \<Rightarrow> texts \<Rightarrow> bytes \<Rightarrow> nat \<Rightarrow> ('t, 'p) producer \<Rightarrow> 'p \<Rightarrow> 't Cursor \<Rightarrow> (unit, CursorError) outcome \<times> 'p \<times> 't Cursor" where
  "execute_with_streaming_uploads_with_chunk_size E X statements chunk_size upload p cu =
     (case bindS (exhaust E (env_F E) cu) (\<lambda>_ cu. take_replies cu) of
        (Ok vec, cu) \<Rightarrow>
          (case command_with_uploads E X [''s'', statements, [CHR 0x0a, CHR '';'']] vec chunk_size upload p cu of
             (res, vec, p, cu) \<Rightarrow> (case bindS (res, cu) (\<lambda>_ cu. install_response E vec cu) of (res, cu) \<Rightarrow> (res, p, cu)))
      | (res, cu) \<Rightarrow> (failed res, p, cu))"

definition execute_with_streaming_uploads ::
  "'t cenv \<Rightarrow> texts \<Rightarrow> bytes \<Rightarrow> ('t, 'p) producer \<Rightarrow> 'p \<Rightarrow> 't Cursor \<Rightarrow> (unit, CursorError) outcome \<times> 'p \<times> 't Cursor" where
  "execute_with_streaming_uploads E X statements = execute_with_streaming_uploads_with_chunk_size E X statements DEFAULT_UPLOAD_CHUNK_SIZE"

text \<open>The closures of the other entry points.\<close>

definition no_upload :: "texts \<Rightarrow> ('t, unit) producer" where
  "no_upload X p filename sink = (Err (FileTransfer (''raw execute does not provide client file '' @ tx_debug_str X filename
     @ ''; use a file-transfer API'')), sink, p)"

definition map_upload :: "('t, 'z) env_scheme \<Rightarrow> texts \<Rightarrow> (bytes \<rightharpoonup> bytes) \<Rightarrow> ('t, unit) producer" where
  "map_upload E X uploads p filename sink = (case uploads filename of
       None \<Rightarrow> (Err (FileTransfer (''server requested unknown file '' @ tx_debug_str X filename)), sink, p)
     | Some data \<Rightarrow> (case write_chunk E data sink of (res, sink) \<Rightarrow> (res, sink, p)))"

definition lazy_upload :: "('t, 'z) env_scheme \<Rightarrow> ('p \<Rightarrow> bytes \<Rightarrow> (bytes, CursorError) outcome \<times> 'p) \<Rightarrow> ('t, 'p) producer" where
  "lazy_upload E upload p filename sink = (case upload p filename of
       (Ok data, p) \<Rightarrow> (case write_chunk E data sink of (res, sink) \<Rightarrow> (res, sink, p))
     | (res, p) \<Rightarrow> (failed res, sink, p))"

definition execute :: "'t cenv \<Rightarrow> texts \<Rightarrow> bytes \<Rightarrow> 't Cursor \<Rightarrow> (unit, CursorError) outcome \<times> 't Cursor" where
  "execute E X statements cu =
     (case bindS (exhaust E (env_F E) cu) (\<lambda>_ cu. take_replies cu) of
        (Ok vec, cu) \<Rightarrow>
          (case command_with_uploads E X [''s'', statements, [CHR 0x0a, CHR '';'']] vec DEFAULT_UPLOAD_CHUNK_SIZE (no_upload X) () cu of
             (res, vec, _, cu) \<Rightarrow> bindS (res, cu) (\<lambda>_ cu. install_response E vec cu))
      | (res, cu) \<Rightarrow> (failed res, cu))"

definition execute_with_binary_uploads_with_chunk_size ::
  "'t cenv \<Rightarrow> texts \<Rightarrow> bytes \<Rightarrow> (bytes \<rightharpoonup> bytes) \<Rightarrow> nat \<Rightarrow> 't Cursor \<Rightarrow> (unit, CursorError) outcome \<times> 't Cursor" where
  "execute_with_binary_uploads_with_chunk_size E X statements uploads chunk_size cu =
     (case bindS (exhaust E (env_F E) cu) (\<lambda>_ cu. take_replies cu) of
        (Ok vec, cu) \<Rightarrow>
          (case command_with_uploads E X [''s'', statements, [CHR 0x0a, CHR '';'']] vec chunk_size (map_upload E X uploads) () cu of
             (res, vec, _, cu) \<Rightarrow> bindS (res, cu) (\<lambda>_ cu. install_response E vec cu))
      | (res, cu) \<Rightarrow> (failed res, cu))"

definition execute_with_binary_uploads ::
  "'t cenv \<Rightarrow> texts \<Rightarrow> bytes \<Rightarrow> (bytes \<rightharpoonup> bytes) \<Rightarrow> 't Cursor \<Rightarrow> (unit, CursorError) outcome \<times> 't Cursor" where
  "execute_with_binary_uploads E X statements uploads =
     execute_with_binary_uploads_with_chunk_size E X statements uploads DEFAULT_UPLOAD_CHUNK_SIZE"

definition execute_with_binary_uploads_lazy_with_chunk_size ::
  "'t cenv \<Rightarrow> texts \<Rightarrow> bytes \<Rightarrow> nat \<Rightarrow> ('p \<Rightarrow> bytes \<Rightarrow> (bytes, CursorError) outcome \<times> 'p) \<Rightarrow> 'p \<Rightarrow> 't Cursor
    \<Rightarrow> (unit, CursorError) outcome \<times> 'p \<times> 't Cursor" where
  "execute_with_binary_uploads_lazy_with_chunk_size E X statements chunk_size upload p cu =
     (case bindS (exhaust E (env_F E) cu) (\<lambda>_ cu. take_replies cu) of
        (Ok vec, cu) \<Rightarrow>
          (case command_with_uploads E X [''s'', statements, [CHR 0x0a, CHR '';'']] vec chunk_size (lazy_upload E upload) p cu of
             (res, vec, p, cu) \<Rightarrow> (case bindS (res, cu) (\<lambda>_ cu. install_response E vec cu) of (res, cu) \<Rightarrow> (res, p, cu)))
      | (res, cu) \<Rightarrow> (failed res, p, cu))"

definition execute_with_binary_uploads_lazy ::
  "'t cenv \<Rightarrow> texts \<Rightarrow> bytes \<Rightarrow> ('p \<Rightarrow> bytes \<Rightarrow> (bytes, CursorError) outcome \<times> 'p) \<Rightarrow> 'p \<Rightarrow> 't Cursor
    \<Rightarrow> (unit, CursorError) outcome \<times> 'p \<times> 't Cursor" where
  "execute_with_binary_uploads_lazy E X statements =
     execute_with_binary_uploads_lazy_with_chunk_size E X statements DEFAULT_UPLOAD_CHUNK_SIZE"

text \<open>The closure of \<open>do_close\<close>; it captures the error and the buffer.\<close>

definition close_operation :: "('t, 'z) env_scheme \<Rightarrow> nat \<Rightarrow> ('t, ServerError option \<times> bytes) operation" where
  "close_operation E max_size v state delayed sock =
     (if dc_responses delayed = [] then (Ok sock, state, delayed, v)
      else case send_delayed E delayed sock of
          (Ok sock, delayed) \<Rightarrow>
            (case recv_delayed E max_size delayed sock (snd v) of
               (Ok (sock, delayed_error), delayed, vec) \<Rightarrow> (Ok sock, state, delayed, delayed_error, vec)
             | (res, delayed, vec) \<Rightarrow> (failed res, state, delayed, fst v, vec))
        | (res, delayed) \<Rightarrow> (failed res, state, delayed, v))"

definition do_close :: "'t cenv \<Rightarrow> 't Cursor \<Rightarrow> (unit, CursorError) outcome \<times> 't Cursor" where
  "do_close E cu = bindS (bindS (exhaust E (env_F E) cu) (\<lambda>_ cu. take_replies cu)) (\<lambda>vec cu.
     case run_locked_with_timeouts E (cu_timeouts cu) (close_operation E (cn_max_response_size (cu_conn cu))) (None, vec) (cu_conn cu) of
       (res, (delayed_error, vec), c) \<Rightarrow>
         (bindR res (\<lambda>_. case delayed_error of Some error \<Rightarrow> Err (Server error) | None \<Rightarrow> Ok ()), cu\<lparr>cu_conn := c\<rparr>))"

section \<open>Model of the code: rows\<close>

definition column_metadata :: "'t Cursor \<Rightarrow> ResultColumn list" where
  "column_metadata cu = (case cu_replies cu of Data rs \<Rightarrow> res_columns rs | _ \<Rightarrow> [])"

definition prepared_statement_id :: "'t Cursor \<Rightarrow> nat option" where
  "prepared_statement_id cu = (case cu_replies cu of
       Data rs \<Rightarrow> if res_prepared rs then Some (res_id rs) else None | _ \<Rightarrow> None)"

definition binary_result :: "('t, 'z) env_scheme \<Rightarrow> 't Cursor \<Rightarrow> (BinaryResult, CursorError) outcome \<times> 't Cursor" where
  "binary_result E cu = bindS (skip_to_result_set E (env_F E) cu) (\<lambda>_ cu.
     (bindR (result_set cu) (\<lambda>rs.
        if res_prepared rs then Err PreparedResult
        else Ok \<lparr>br_result_id = res_id rs, br_total_rows = res_total_rows rs, br_rows_included = res_rows_included rs,
               br_columns = res_columns rs\<rparr>), cu))"

text \<open>The checks of \<open>fetch_binary_into\<close> before the command: the identifier of the result, the number of columns and the
  number of rows to ask for.\<close>

definition binary_window :: "nat \<Rightarrow> nat \<Rightarrow> ResultSet \<Rightarrow> (nat \<times> nat \<times> nat, CursorError) outcome" where
  "binary_window start count rs =
     (if res_prepared rs then Err PreparedResult
      else if res_rows_included rs = res_total_rows rs then Err (ResultNotResident (res_rows_included rs) (res_total_rows rs))
      else if count = 0 \<or> res_total_rows rs \<le> start then Err (InvalidRange start count (res_total_rows rs))
      else let available = res_total_rows rs - start in
        Ok (res_id rs, length (res_columns rs), min count (min available usize_max)))"

text \<open>The checks on the response: errors, then the header line.\<close>

definition check_export :: "libs \<Rightarrow> nat \<Rightarrow> nat \<Rightarrow> nat \<Rightarrow> nat \<Rightarrow> bytes \<Rightarrow> (unit, CursorError) outcome" where
  "check_export L result_id expected_columns count start response =
     bindR (if starts_with response ''!'' then detect_errors L response else Ok ()) (\<lambda>_.
     bindR (ok_or (Bad UnexpectedEnd) (first_index (\<lambda>c. c = CHR 0x0a) response)) (\<lambda>header_end.
     case parse_export_header L parse_u64 4 (ReplyBuf_new (take (header_end + 1) response)) of
       (res, _) \<Rightarrow> bindR (map_err Bad res) (\<lambda>fs.
         map_err Bad (validate_export_header fs result_id expected_columns count start))))"

definition fetch_binary_into ::
  "'t cenv \<Rightarrow> nat \<Rightarrow> nat \<Rightarrow> bytes \<Rightarrow> 't Cursor \<Rightarrow> (unit, CursorError) outcome \<times> bytes \<times> 't Cursor" where
  "fetch_binary_into E start count response cu = (case skip_to_result_set E (env_F E) cu of
       (Ok _, cu) \<Rightarrow> (case bindR (result_set cu) (binary_window start count) of
           Ok (result_id, expected_columns, count) \<Rightarrow>
             (case command_raw E [''Xexportbin '' @ show_nat result_id @ '' '' @ show_nat start @ '' '' @ show_nat count] [] cu of
                (res, response, cu) \<Rightarrow>
                  (bindR res (\<lambda>_. check_export (env_L E) result_id expected_columns count start response), response, cu))
         | res \<Rightarrow> (failed res, response, cu))
     | (res, cu) \<Rightarrow> (res, response, cu))"

definition fetch_binary :: "'t cenv \<Rightarrow> nat \<Rightarrow> nat \<Rightarrow> 't Cursor \<Rightarrow> (bytes, CursorError) outcome \<times> 't Cursor" where
  "fetch_binary E start count cu = (case fetch_binary_into E start count [] cu of
       (res, response, cu) \<Rightarrow> (bindR res (\<lambda>_. Ok response), cu))"

definition decide_next_fetch :: "'t Cursor \<Rightarrow> (nat \<times> nat \<times> nat \<times> nat \<times> nat, CursorError) outcome" where
  "decide_next_fetch cu = bindR (result_set cu) (\<lambda>rs.
     if res_total_rows rs < res_next_row rs then Err (Bad (TooManyRows (res_total_rows rs)))
     else let remaining = res_total_rows rs - res_next_row rs;
              next_reply_size = next_window_size (cu_reply_size cu) (cu_max_prefetch cu);
              n = next_fetch_size (cu_reply_size cu) (cu_max_prefetch cu) remaining
       in Ok (res_id rs, res_next_row rs, n, next_reply_size, length (res_columns rs)))"

text \<open>The old rows are stashed the first time, because what follows them in the response is still needed.\<close>

definition swap_rows :: "libs \<Rightarrow> nat \<Rightarrow> 't Cursor \<Rightarrow> (bytes, CursorError) outcome \<times> 't Cursor" where
  "swap_rows L expected_columns cu = (case cu_replies cu of
       Data rs \<Rightarrow>
         let replacement = RowSet_new (ReplyBuf_new []) expected_columns; previous = res_row_set rs;
             rs = rs\<lparr>res_row_set := replacement\<rparr> in
         (case res_stashed rs of
            None \<Rightarrow> (Ok [], cu\<lparr>cu_replies := Data (rs\<lparr>res_stashed := Some previous\<rparr>)\<rparr>)
          | Some _ \<Rightarrow> (bindR (map_err Bad (RowSet_finish L previous)) (\<lambda>buf. Ok (buf_data buf)), cu\<lparr>cu_replies := Data rs\<rparr>))
     | _ \<Rightarrow> (Panic, cu))"

definition parse_window :: "libs \<Rightarrow> nat \<Rightarrow> nat \<Rightarrow> nat \<Rightarrow> nat \<Rightarrow> bytes \<Rightarrow> (RowSet, CursorError) outcome" where
  "parse_window L rid expected_columns n start vec =
     bindR (detect_errors L vec) (\<lambda>_.
     case parse_export_header L parse_u64 4 (ReplyBuf_new vec) of
       (res, buf) \<Rightarrow> bindR (map_err Bad res) (\<lambda>fs.
         bindR (map_err Bad (validate_export_header fs rid expected_columns n start)) (\<lambda>_.
         let new_row_set = RowSet_new buf expected_columns in
         bindR (map_err Bad (validate_fetch_progress new_row_set start n)) (\<lambda>_. Ok new_row_set))))"

definition fetch_more_rows :: "'t cenv \<Rightarrow> 't Cursor \<Rightarrow> (unit, CursorError) outcome \<times> 't Cursor" where
  "fetch_more_rows E cu = bindS (decide_next_fetch cu, cu) (\<lambda>(rid, start, n, next_reply_size, expected_columns) cu.
     bindS (swap_rows (env_L E) expected_columns cu) (\<lambda>vec cu.
     case command_raw E [''Xexport '' @ show_nat rid @ '' '' @ show_nat start @ '' '' @ show_nat n] vec cu of
       (res, vec, cu) \<Rightarrow> bindS (res, cu) (\<lambda>_ cu.
         bindS (parse_window (env_L E) rid expected_columns n start vec, cu) (\<lambda>new_row_set cu.
         bindS (result_set_mut (\<lambda>rs. rs\<lparr>res_row_set := new_row_set\<rparr>) cu) (\<lambda>_ cu.
           (Ok (), cu\<lparr>cu_reply_size := next_reply_size\<rparr>))))))"

text \<open>The loop of \<open>next_row\<close>.\<close>

fun row_loop :: "'t cenv \<Rightarrow> nat \<Rightarrow> 't Cursor \<Rightarrow> (bool, CursorError) outcome \<times> 't Cursor" where
  "row_loop E 0 cu = (NoFuel, cu)"
| "row_loop E (Suc f) cu = (case cu_replies cu of
       Data rs \<Rightarrow> (case advance (env_L E) (res_row_set rs) of
           (Ok True, row_set) \<Rightarrow>
             (case count_row (res_next_row rs) (res_total_rows rs) of
                Ok n \<Rightarrow> (Ok True, cu\<lparr>cu_replies := Data (rs\<lparr>res_row_set := row_set, res_next_row := n\<rparr>)\<rparr>)
              | res \<Rightarrow> (map_err Bad (failed res), cu\<lparr>cu_replies := Data (rs\<lparr>res_row_set := row_set\<rparr>)\<rparr>))
         | (Ok False, row_set) \<Rightarrow>
             let cu = cu\<lparr>cu_replies := Data (rs\<lparr>res_row_set := row_set\<rparr>)\<rparr> in
             if res_total_rows rs \<le> res_next_row rs then (Ok False, cu)
             else bindS (fetch_more_rows E cu) (\<lambda>_ cu. row_loop E f cu)
         | (res, row_set) \<Rightarrow> (map_err Bad (failed res), cu\<lparr>cu_replies := Data (rs\<lparr>res_row_set := row_set\<rparr>)\<rparr>))
     | _ \<Rightarrow> (Panic, cu))"

definition next_row :: "'t cenv \<Rightarrow> 't Cursor \<Rightarrow> (bool, CursorError) outcome \<times> 't Cursor" where
  "next_row E cu = bindS (skip_to_result_set E (env_F E) cu) (\<lambda>_ cu. row_loop E (env_F E) cu)"

definition current_rows :: "'t Cursor \<Rightarrow> (RowSet, CursorError) outcome" where
  "current_rows cu = (case cu_replies cu of Data rs \<Rightarrow> Ok (res_row_set rs) | _ \<Rightarrow> Err NoResultSet)"

definition get_str :: "nat \<Rightarrow> 't Cursor \<Rightarrow> (bytes option, CursorError) outcome" where
  "get_str colnr cu = bindR (current_rows cu) (\<lambda>rows. bindR (map_err Bad (get_field_raw rows colnr)) (\<lambda>field.
     case field of None \<Rightarrow> Ok None
     | Some s \<Rightarrow> if utf8_valid s then Ok (Some s) else Err (Bad (Unicode ''result set''))))"

text \<open>Dropping a cursor: the loop over the replies that are left, then the close requests.\<close>

fun drop_loop :: "libs \<Rightarrow> nat \<Rightarrow> ReplyParser \<Rightarrow> nat list \<Rightarrow> (nat list, CursorError) outcome \<times> ReplyParser" where
  "drop_loop L 0 replies result_ids = (NoFuel, replies)"
| "drop_loop L (Suc f) replies result_ids = (case into_next_reply L replies of
       Ok (new, to_close) \<Rightarrow>
         let result_ids = (case to_close of Some result_id \<Rightarrow> result_ids @ [result_id] | None \<Rightarrow> result_ids) in
         (case new of Exhausted _ \<Rightarrow> (Ok result_ids, new) | _ \<Rightarrow> drop_loop L f new result_ids)
     | Err _ \<Rightarrow> (Ok result_ids, ReplyParser_default)
     | Panic \<Rightarrow> (Panic, ReplyParser_default) | NoFuel \<Rightarrow> (NoFuel, ReplyParser_default))"

definition Cursor_drop :: "('t, 'z) env_scheme \<Rightarrow> 't Cursor \<Rightarrow> (unit, CursorError) outcome \<times> 't Conn" where
  "Cursor_drop E cu = (case drop_loop (env_L E) (env_F E) (cu_replies cu) [] of
       (Ok result_ids, _) \<Rightarrow> (case try_queue_closes result_ids (cu_conn cu) of
           Ok c \<Rightarrow> (Ok (), c) | _ \<Rightarrow> (Panic, cu_conn cu))
     | (res, _) \<Rightarrow> (failed res, cu_conn cu))"

section \<open>Stepping through the replies\<close>

text \<open>Close requests that are queued one after the other are queued together.\<close>

lemma add_cleanups_append: "add_cleanups c (xs @ ys) d = bindR (add_cleanups c xs d) (add_cleanups c ys)"
proof (induction xs arbitrary: d)
  case (Cons i xs)
  then show ?case by (cases "add_xcommand_cleanup c [show_nat i] d") auto
qed simp

lemma try_queue_closes_append: "try_queue_closes (xs @ ys) c = bindR (try_queue_closes xs c) (try_queue_closes ys)"
  by (cases "add_cleanups ''close'' xs (cn_delayed c)") (auto simp: try_queue_closes_def add_cleanups_append)

lemma try_queue_closes_Nil: "try_queue_closes [] c = Ok c"
  by (simp add: try_queue_closes_def)

text \<open>A connection whose delayed commands are in order, and the connection after close requests.\<close>

definition queueing :: "'t Conn \<Rightarrow> bool" where
  "queueing c \<longleftrightarrow> (\<exists>ss ds. dc_waits (cn_delayed c) ss ds)"

lemma try_queue_closes_ok:
  assumes "queueing c"
  obtains c' where "try_queue_closes ids c = Ok c'" and "queueing c'"
proof -
  from assms obtain ss ds where ds: "dc_waits (cn_delayed c) ss ds" by (auto simp: queueing_def)
  from cleanup_commands(1) [OF ds, of ids] obtain d' where d': "add_cleanups ''close'' ids (cn_delayed c) = Ok d'"
    "dc_waits d' ss (ds @ map close_command ids)" by blast
  show ?thesis
  proof (rule that)
    show "try_queue_closes ids c = Ok (if cn_held c then c\<lparr>cn_pending_closes := cn_pending_closes c @ ids\<rparr> else c\<lparr>cn_delayed := d'\<rparr>)"
      using d' by (simp add: try_queue_closes_def)
  qed (use ds d' in \<open>auto simp: queueing_def\<close>)
qed

definition closes_of :: "nat option \<Rightarrow> nat list" where
  "closes_of c = (case c of Some i \<Rightarrow> [i] | None \<Rightarrow> [])"

lemma next_reply_ok:
  assumes "into_next_reply (env_L E) (cu_replies cu) = Ok (p, c)" and "try_queue_closes (closes_of c) (cu_conn cu) = Ok cn"
  shows "\<exists>b. next_reply E cu = (Ok b, cu\<lparr>cu_replies := p, cu_conn := cn\<rparr>)"
proof (cases c)
  case None
  with assms show ?thesis
    by (auto simp: next_reply_def closes_of_def try_queue_closes_Nil switch_to_reply_def Let_def)
next
  case (Some i)
  with assms show ?thesis
    by (auto simp: next_reply_def closes_of_def queue_close_def switch_to_reply_def Let_def)
qed

definition ended :: "ReplyParser \<Rightarrow> bool" where
  "ended p \<longleftrightarrow> (case p of Exhausted _ \<Rightarrow> True | _ \<Rightarrow> False)"

lemma exhaust_Suc: "exhaust E (Suc f) cu = (if ended (cu_replies cu) then (Ok (), cu)
   else bindS (next_reply E cu) (\<lambda>_ cu. exhaust E f cu))"
  by (simp add: ended_def split: ReplyParser.splits)

declare exhaust.simps(2) [simp del]

text \<open>How much is left to do; it bounds the turns of the loop.\<close>

definition todo :: "ReplyParser \<Rightarrow> nat" where
  "todo p = 2 * length (behind p) + of_bool (\<not> unread_noslice p)"

text \<open>How the loop may end; without an end it is at \<open>=\<close> lines that nobody reads.\<close>

definition all_read :: "(unit, CursorError) outcome \<times> 't Cursor \<Rightarrow> bool" where
  "all_read r \<longleftrightarrow> (case r of
       (Ok _, cu) \<Rightarrow> ended (cu_replies cu)
     | (Err e, cu) \<Rightarrow> ended (cu_replies cu)
     | (NoFuel, cu) \<Rightarrow> unread_noslice (cu_replies cu)
     | (Panic, cu) \<Rightarrow> False)"

abbreviation ok_line :: bytes where
  "ok_line \<equiv> ''=OK'' @ [CHR 0x0a]"

context byte_search
begin

lemma noslice_ok_line:
  assumes "wf_parser p" and "unread_noslice p" and "starts_with (behind p) ok_line"
    and "into_next_reply L p = Ok (q, c)"
  shows "strict_suffix (behind q) (behind p) \<or> q = Exhausted []"
proof -
  obtain rs where rs: "p = Data rs" "res_stashed rs = None" using assms(2) by (auto simp: unread_noslice_def)
  let ?b = "rs_buf (res_row_set rs)"
  have wf: "wf_buf ?b" using assms(1) rs by (simp add: wf_result_def wf_rowset_def)
  have pk: "behind p = peek ?b" using rs by (simp add: pending_rows_def)
  obtain s where s: "peek ?b = CHR ''='' # CHR ''O'' # CHR ''K'' # CHR 0x0a # s" using assms(3) pk by (auto simp: prefix_def)
  then have "find_line L (CHR ''='') ?b = Some 0" by (simp add: find_line_def)
  then have "min_option (find_line L (CHR ''&'') ?b) (find_line L (CHR ''='') ?b) = Some 0"
    by (auto simp: min_option_def split: option.splits)
  then have "RowSet_finish L (res_row_set rs) = Ok ?b"
    using consume_ok [OF wf, of 0] by (simp add: RowSet_finish_def)
  moreover have "parse L ?b = parse_ok L ?b" by (simp add: parse_def s Let_def)
  ultimately have q: "parse_ok L ?b = Ok q" using assms(4) rs by (cases "parse_ok L ?b") (auto simp: into_next_reply_def)
  then obtain buf where "q = Success buf None"
    by (auto simp: parse_ok_def bindR_Ok_iff split: prod.splits if_splits)
  moreover have "parsed (behind p) (Ok q)" using next_reply_parsed [OF assms(1)] assms(4) by simp
  ultimately show ?thesis by (auto simp: parsed_def unread_noslice_def)
qed

lemma exhaust_stuck:
  assumes E: "env_L E = L"
  shows "wf_parser (cu_replies cu) \<Longrightarrow> queueing (cu_conn cu) \<Longrightarrow> unread_noslice (cu_replies cu) \<Longrightarrow>
    \<not> starts_with (behind (cu_replies cu)) ok_line \<Longrightarrow>
    \<exists>cu' ids. exhaust E f cu = (NoFuel, cu') \<and> unread_noslice (cu_replies cu') \<and> try_queue_closes ids (cu_conn cu) = Ok (cu_conn cu')"
proof (induction f arbitrary: cu)
  case 0
  then show ?case by (auto intro: exI [of _ "[]"] simp: try_queue_closes_Nil)
next
  case (Suc f)
  from unread_noslice_again [OF Suc.prems(1,3,4)] obtain p c where p: "into_next_reply L (cu_replies cu) = Ok (p, c)"
    "unread_noslice p" "behind p = behind (cu_replies cu)" by blast
  from try_queue_closes_ok [OF Suc.prems(2)] obtain cn where cn: "try_queue_closes (closes_of c) (cu_conn cu) = Ok cn" "queueing cn" by blast
  let ?cu = "cu\<lparr>cu_replies := p, cu_conn := cn\<rparr>"
  from next_reply_ok [OF _ cn(1), of E p] p(1) E obtain b where n: "next_reply E cu = (Ok b, ?cu)" by auto
  have "wf_parser p" using next_reply_parsed [OF Suc.prems(1)] p(1) by (simp add: parsed_def)
  with Suc.IH [of ?cu] p Suc.prems(4) cn(2) obtain cu' ids where r: "exhaust E f ?cu = (NoFuel, cu')"
    "unread_noslice (cu_replies cu')" "try_queue_closes ids cn = Ok (cu_conn cu')" by auto
  have "\<not> ended (cu_replies cu)" using Suc.prems(3) by (auto simp: ended_def unread_noslice_def)
  with r n cn(1) show ?case
    by (auto simp: exhaust_Suc try_queue_closes_append intro!: exI [of _ "closes_of c @ ids"])
qed

lemma exhaust_ends:
  assumes E: "env_L E = L"
  shows "wf_parser (cu_replies cu) \<Longrightarrow> queueing (cu_conn cu) \<Longrightarrow> todo (cu_replies cu) + 1 < f \<Longrightarrow>
    \<exists>ids. try_queue_closes ids (cu_conn cu) = Ok (cu_conn (snd (exhaust E f cu))) \<and>
    all_read (exhaust E f cu)"
proof (induction f arbitrary: cu)
  case (Suc f)
  note wf = Suc.prems(1) and q = Suc.prems(2)
  consider (ended) "ended (cu_replies cu)"
    | (stuck) "\<not> ended (cu_replies cu)" "unread_noslice (cu_replies cu)" "\<not> starts_with (behind (cu_replies cu)) ok_line"
    | (go) "\<not> ended (cu_replies cu)" "\<not> unread_noslice (cu_replies cu) \<or> starts_with (behind (cu_replies cu)) ok_line" by blast
  then show ?case
  proof cases
    case ended
    then show ?thesis by (auto simp: exhaust_Suc all_read_def try_queue_closes_Nil intro: exI [of _ "[]"])
  next
    case stuck
    from exhaust_stuck [OF E wf q stuck(2,3), of "Suc f"] show ?thesis by (auto simp: all_read_def)
  next
    case go
    note parsed = next_reply_parsed [OF wf]
    show ?thesis
    proof (cases "into_next_reply L (cu_replies cu)")
      case (Ok pc)
      then obtain p c where p: "into_next_reply L (cu_replies cu) = Ok (p, c)" by (cases pc) auto
      with parsed have ok: "wf_parser p" "p = Exhausted [] \<or> unread_noslice p \<or> strict_suffix (behind p) (behind (cu_replies cu))"
        "suffix (behind p) (behind (cu_replies cu))" by (simp_all add: parsed_def)
      from try_queue_closes_ok [OF q] obtain cn where cn: "try_queue_closes (closes_of c) (cu_conn cu) = Ok cn" "queueing cn" by blast
      let ?cu = "cu\<lparr>cu_replies := p, cu_conn := cn\<rparr>"
      from next_reply_ok [OF _ cn(1), of E p] p E obtain b where n: "next_reply E cu = (Ok b, ?cu)" by auto
      have "p = Exhausted [] \<or> todo p < todo (cu_replies cu)"
      proof (cases "unread_noslice (cu_replies cu)")
        case True
        with noslice_ok_line [OF wf True _ p] go(2) show ?thesis
          by (auto simp: todo_def dest!: suffix_length_less)
      next
        case False
        with ok(2,3) show ?thesis by (auto simp: todo_def dest!: suffix_length_less suffix_length_le)
      qed
      then have "p = Exhausted [] \<or> todo p + 1 < f" using Suc.prems(3) by auto
      moreover have "0 < f" using Suc.prems(3) by simp
      ultimately consider "p = Exhausted []" "0 < f" | "todo p + 1 < f" by blast
      then have "\<exists>ids. try_queue_closes ids cn = Ok (cu_conn (snd (exhaust E f ?cu))) \<and> all_read (exhaust E f ?cu)"
      proof cases
        case 1
        then show ?thesis
          by (cases f) (auto simp: exhaust_Suc all_read_def ended_def try_queue_closes_Nil intro: exI [of _ "[]"])
      next
        case 2
        with Suc.IH [of ?cu] ok(1) cn(2) show ?thesis by simp
      qed
      then obtain ids where ids: "try_queue_closes ids cn = Ok (cu_conn (snd (exhaust E f ?cu)))" "all_read (exhaust E f ?cu)" by blast
      have step: "exhaust E (Suc f) cu = exhaust E f ?cu" using go(1) n by (simp add: exhaust_Suc)
      have "try_queue_closes (closes_of c @ ids) (cu_conn cu) = Ok (cu_conn (snd (exhaust E f ?cu)))"
        unfolding try_queue_closes_append cn(1) bindR.simps by (rule ids(1))
      with ids(2) show ?thesis unfolding step by blast
    next
      case (Err e)
      with go(1) E show ?thesis
        by (auto simp: exhaust_Suc next_reply_def Let_def ReplyParser_default_def all_read_def ended_def try_queue_closes_Nil intro: exI [of _ "[]"])
    qed (use parsed in auto)
  qed
qed simp

end

section \<open>Fetching rows\<close>

lemma command_raw_keeps: "command_raw E command vec cu = (res, vec', cu') \<Longrightarrow> \<exists>c. cu' = cu\<lparr>cu_conn := c\<rparr>"
  by (auto simp: command_raw_def split: prod.splits)

text \<open>The parts of a result set that fetching leaves alone.\<close>

definition same_result :: "ResultSet \<Rightarrow> ResultSet \<Rightarrow> bool" where
  "same_result rs rs' \<longleftrightarrow> res_id rs' = res_id rs \<and> res_prepared rs' = res_prepared rs \<and> res_total_rows rs' = res_total_rows rs
     \<and> res_rows_included rs' = res_rows_included rs \<and> res_columns rs' = res_columns rs \<and> res_to_close rs' = res_to_close rs"

lemma same_result_refl: "same_result rs rs"
  and same_result_trans: "same_result a b \<Longrightarrow> same_result b c \<Longrightarrow> same_result a c"
  by (auto simp: same_result_def)

lemma swap_rows_Ok:
  assumes "swap_rows L n cu = (Ok vec, cu')" and "cu_replies cu = Data rs"
  shows "\<exists>rs'. cu_replies cu' = Data rs' \<and> same_result rs rs' \<and> res_next_row rs' = res_next_row rs
     \<and> pending_rows rs' = pending_rows rs \<and> cu_reply_size cu' = cu_reply_size cu"
  using assms by (auto simp: swap_rows_def same_result_def pending_rows_def Let_def bindR_Ok_iff split: option.splits)

lemma window_positive: "0 < r \<Longrightarrow> 0 < next_window_size r m"
  by (auto simp: next_window_size_def saturating_mul_def saturating_add_def split: option.splits)

lemma fetch_positive: "0 < r \<Longrightarrow> 0 < k \<Longrightarrow> 0 < next_fetch_size r m k"
  using window_positive [of r m] by (simp add: next_fetch_size_def)

lemma fetch_more_rows_Ok:
  assumes f: "fetch_more_rows E cu = (Ok u, cu')" and rs: "cu_replies cu = Data rs"
    and "0 < cu_reply_size cu" and "res_next_row rs < res_total_rows rs"
  shows "\<exists>rs'. cu_replies cu' = Data rs' \<and> same_result rs rs' \<and> res_next_row rs' = res_next_row rs
     \<and> pending_rows rs' = pending_rows rs
     \<and> \<not> rs_noslice (res_row_set rs') \<and> has_pending_row (res_row_set rs')
     \<and> cu_reply_size cu' = next_window_size (cu_reply_size cu) (cu_max_prefetch cu)"
proof -
  let ?n = "next_fetch_size (cu_reply_size cu) (cu_max_prefetch cu) (res_total_rows rs - res_next_row rs)"
  let ?c = "length (res_columns rs)"
  have d: "decide_next_fetch cu = Ok (res_id rs, res_next_row rs, ?n,
      next_window_size (cu_reply_size cu) (cu_max_prefetch cu), ?c)"
    using rs assms(4) by (simp add: decide_next_fetch_def result_set_def Let_def)
  from f obtain vec cu1 where s: "swap_rows (env_L E) ?c cu = (Ok vec, cu1)"
    by (auto simp: fetch_more_rows_def d bindS_Ok_iff)
  obtain res vec2 cu2 where c: "command_raw E [''Xexport '' @ show_nat (res_id rs) @ '' '' @ show_nat (res_next_row rs)
      @ '' '' @ show_nat ?n] vec cu1 = (res, vec2, cu2)" by (metis prod_cases3)
  from swap_rows_Ok [OF s rs] obtain rs1 where rs1: "cu_replies cu1 = Data rs1" "same_result rs rs1"
    "res_next_row rs1 = res_next_row rs" "pending_rows rs1 = pending_rows rs" "cu_reply_size cu1 = cu_reply_size cu" by blast
  from command_raw_keeps [OF c] rs1 have cu2: "cu_replies cu2 = Data rs1" by auto
  from f s c obtain rows where rows: "parse_window (env_L E) (res_id rs) ?c ?n (res_next_row rs) vec2 = Ok rows"
    and cu': "cu' = cu2\<lparr>cu_replies := Data (rs1\<lparr>res_row_set := rows\<rparr>),
        cu_reply_size := next_window_size (cu_reply_size cu) (cu_max_prefetch cu)\<rparr>"
    by (auto simp: fetch_more_rows_def d bindS_Ok_iff result_set_mut_def cu2)
  have "0 < ?n" using assms(3,4) by (intro fetch_positive) simp_all
  with rows have "\<not> rs_noslice rows \<and> has_pending_row rows"
    by (auto simp: parse_window_def bindR_Ok_iff validate_fetch_progress_def RowSet_new_def Let_def split: prod.splits if_splits)
  moreover have "pending_rows (rs1\<lparr>res_row_set := rows\<rparr>) = pending_rows rs"
  proof -
    have "res_stashed rs1 \<noteq> None" using s rs rs1(1) by (auto simp: swap_rows_def Let_def split: option.splits)
    with rs1(4) show ?thesis by (auto simp: pending_rows_def)
  qed
  ultimately show ?thesis using rs1 by (auto simp: cu' same_result_def)
qed

lemma row_loop_pending:
  assumes "cu_replies cu = Data rs" and "\<not> rs_noslice (res_row_set rs)" and "has_pending_row (res_row_set rs)"
  shows "row_loop E (Suc f) cu = row_loop E (Suc g) cu" and "fst (row_loop E (Suc f) cu) \<noteq> Ok False"
proof -
  obtain r row_set where a: "advance (env_L E) (res_row_set rs) = (r, row_set)" by (metis surj_pair)
  have "r \<noteq> Ok False" using a assms(2,3)
    by (auto simp: advance_def do_advance_def has_pending_row_def split: prod.splits outcome.splits)
  then show "row_loop E (Suc f) cu = row_loop E (Suc g) cu" "fst (row_loop E (Suc f) cu) \<noteq> Ok False"
    using assms(1) a by (auto simp: count_row_def split: outcome.splits bool.splits)
qed

text \<open>One turn of the loop, from the three things that can happen.\<close>

lemma row_loop_cases:
  assumes "cu_replies cu = Data rs"
  obtains (row) n row_set where "\<And>f. row_loop E (Suc f) cu = (Ok True, cu\<lparr>cu_replies := Data (rs\<lparr>res_row_set := row_set, res_next_row := n\<rparr>)\<rparr>)"
      "res_next_row rs < res_total_rows rs" "n = res_next_row rs + 1"
    | (done_) row_set where "\<And>f. row_loop E (Suc f) cu = (Ok False, cu\<lparr>cu_replies := Data (rs\<lparr>res_row_set := row_set\<rparr>)\<rparr>)"
      "res_total_rows rs \<le> res_next_row rs"
    | (fetch) row_set where "\<And>f. row_loop E (Suc f) cu = bindS (fetch_more_rows E (cu\<lparr>cu_replies := Data (rs\<lparr>res_row_set := row_set\<rparr>)\<rparr>))
         (\<lambda>_ cu. row_loop E f cu)" "res_next_row rs < res_total_rows rs"
    | (fails) r cu' where "\<And>f. row_loop E (Suc f) cu = (r, cu')" "\<And>b. r \<noteq> Ok b"
proof -
  obtain r row_set where a: "advance (env_L E) (res_row_set rs) = (r, row_set)" by (metis surj_pair)
  show thesis
  proof (cases r)
    case (Ok b)
    show thesis
    proof (cases b)
      case True
      show thesis
      proof (cases "res_next_row rs < res_total_rows rs")
        case l: True
        then show thesis using assms a Ok True by (intro row [of "res_next_row rs + 1" row_set]) (auto simp: count_row_def)
      next
        case False
        then show thesis using assms a Ok True
          by (intro fails [of "Err (Bad (TooManyRows (res_total_rows rs)))" "cu\<lparr>cu_replies := Data (rs\<lparr>res_row_set := row_set\<rparr>)\<rparr>"])
             (auto simp: count_row_def)
      qed
    next
      case False
      show thesis
      proof (cases "res_next_row rs < res_total_rows rs")
        case True
        then show thesis using assms a Ok False by (intro fetch [of row_set]) (auto simp: Let_def)
      next
        case l: False
        then show thesis using assms a Ok False by (intro done_ [of row_set]) (auto simp: Let_def)
      qed
    qed
  qed (use assms a fails in \<open>auto\<close>)
qed

text \<open>What a call of \<open>next_row\<close> has done when it returns.\<close>

definition counted :: "ResultSet \<Rightarrow> (bool, CursorError) outcome \<times> 't Cursor \<Rightarrow> bool" where
  "counted rs r \<longleftrightarrow> (\<forall>b cu'. r = (Ok b, cu') \<longrightarrow> (\<exists>rs'. cu_replies cu' = Data rs' \<and> same_result rs rs'
     \<and> 0 < cu_reply_size cu'
     \<and> (if b then res_next_row rs < res_total_rows rs \<and> res_next_row rs' = res_next_row rs + 1
        else res_total_rows rs \<le> res_next_row rs \<and> res_next_row rs' = res_next_row rs)))"

lemma row_loop_counted:
  assumes rs: "cu_replies cu = Data rs" and pos: "0 < cu_reply_size cu"
  shows "row_loop E (Suc (Suc f)) cu = row_loop E 2 cu \<and> counted rs (row_loop E 2 cu)"
proof -
  note two = numeral_2_eq_2
  show ?thesis using rs
  proof (cases rule: row_loop_cases [where E = E])
    case (row n row_set)
    then show ?thesis using pos by (auto simp: two counted_def same_result_def)
  next
    case (done_ row_set)
    then show ?thesis using pos by (auto simp: two counted_def same_result_def)
  next
    case (fails r cu')
    then show ?thesis by (auto simp: two counted_def)
  next
    case (fetch row_set)
    let ?cu = "cu\<lparr>cu_replies := Data (rs\<lparr>res_row_set := row_set\<rparr>)\<rparr>"
    obtain r cu1 where f: "fetch_more_rows E ?cu = (r, cu1)" by (metis surj_pair)
    show ?thesis
    proof (cases r)
      case (Ok u)
      from fetch_more_rows_Ok [OF f [unfolded Ok], of "rs\<lparr>res_row_set := row_set\<rparr>"] fetch(2) pos
      obtain rs1 where rs1: "cu_replies cu1 = Data rs1" "same_result rs rs1" "res_next_row rs1 = res_next_row rs"
        "\<not> rs_noslice (res_row_set rs1)" "has_pending_row (res_row_set rs1)"
        "cu_reply_size cu1 = next_window_size (cu_reply_size cu) (cu_max_prefetch cu)"
        by (auto simp: same_result_def)
      note pend = row_loop_pending [OF rs1(1,4,5), of E]
      have "counted rs (row_loop E (Suc 0) cu1)"
        using rs1(1)
      proof (cases rule: row_loop_cases [where E = E])
        case (row n row_set)
        then show ?thesis using rs1 window_positive [OF pos] by (auto simp: counted_def same_result_def)
      next
        case (done_ row_set)
        then show ?thesis using pend(2) [of 0] by simp
      next
        case (fails r cu')
        then show ?thesis by (simp add: counted_def)
      next
        case (fetch row_set)
        then show ?thesis using rs1 by (cases "fetch_more_rows E (cu1\<lparr>cu_replies := Data (rs1\<lparr>res_row_set := row_set\<rparr>)\<rparr>)" ) (auto simp: counted_def bindS_Ok_iff)
      qed
      with fetch(1) f Ok pend(1) [of f 0] show ?thesis by (simp add: two)
    qed (use fetch f in \<open>auto simp: two counted_def\<close>)
  qed
qed

context byte_search
begin

lemma parse_window_ok:
  assumes "length vec \<le> usize_max" and "vec = ''&6'' @ head_line [rid, cols, n, start] @ CHR 0x0a # rows"
    and "\<forall>x\<in>{rid, cols, n, start}. x \<le> 18446744073709551615" and "server_error L vec = None"
    and "n = 0 \<or> starts_with rows ''[''"
  shows "\<exists>buf. parse_window L rid cols n start vec = Ok (RowSet_new buf cols) \<and> wf_buf buf \<and> peek buf = rows"
proof -
  have wf: "wf_buf (ReplyBuf_new vec)" using assms(1) by (rule wf_buf_new)
  have pk: "peek (ReplyBuf_new vec) = ''&6'' @ head_line [rid, cols, n, start] @ CHR 0x0a # rows" using assms(2) by simp
  have four: "length [rid, cols, n, start] = 4" by simp
  from export_header_ok [OF wf pk, unfolded four] assms(3) obtain buf where b:
    "parse_export_header L parse_u64 4 (ReplyBuf_new vec) = (Ok [rid, cols, n, start], buf)" "wf_buf buf" "peek buf = rows" by auto
  have "has_pending_row (RowSet_new buf cols) = starts_with rows ''[''" using b(3) by (simp add: has_pending_row_def RowSet_new_def)
  with b assms(4,5) show ?thesis
    by (auto simp: parse_window_def detect_errors_def validate_export_header_def validate_fetch_progress_def eval_nat_numeral Let_def)
qed

lemma parse_window_sound:
  assumes "parse_window L rid cols n start vec = Ok row_set"
  shows "server_error L vec = None \<and> (\<exists>buf. parse_export_header L parse_u64 4 (ReplyBuf_new vec) = (Ok [rid, cols, n, start], buf)
     \<and> row_set = RowSet_new buf cols) \<and> (0 < n \<longrightarrow> has_pending_row row_set)"
proof -
  obtain res buf where h: "parse_export_header L parse_u64 4 (ReplyBuf_new vec) = (res, buf)" by (metis surj_pair)
  from assms h obtain fs where fs: "res = Ok fs" "validate_export_header fs rid cols n start = Ok ()"
    "row_set = RowSet_new buf cols" "0 < n \<longrightarrow> has_pending_row row_set" "detect_errors L vec = Ok ()"
    by (cases res) (auto simp: parse_window_def bindR_Ok_iff map_err_Ok_iff validate_fetch_progress_def Let_def split: if_splits)
  have "length fs = 4" using h fs(1)
    by (auto simp: parse_export_header_def bindS_Ok_iff Let_def split: if_splits dest: parse_header_line_length)
  then obtain a b c d where "fs = [a, b, c, d]" by (auto simp: eval_nat_numeral length_Suc_conv)
  with fs(2) have "fs = [rid, cols, n, start]" by (auto simp: validate_export_header_def eval_nat_numeral split: if_splits)
  with fs h show ?thesis by (auto simp: detect_errors_def split: option.splits)
qed

end

section \<open>Properties\<close>


text \<open>A cursor on a connection that has answered, for the examples.\<close>

definition example_cursor :: "ReplyParser \<Rightarrow> script Cursor" where
  "example_cursor p = (Cursor_new example_conn)\<lparr>cu_replies := p\<rparr>"

definition example_tx :: ReplyParser where
  "example_tx = Tx (ReplyBuf_new (''&3 1'' @ [CHR 0x0a]))"

definition example_plan :: ReplyParser where
  "example_plan = Data \<lparr>res_id = 0, res_prepared = False, res_next_row = 0, res_total_rows = 1, res_rows_included = 1,
     res_columns = [ResultColumn_new ''rel'' (Varchar 0)], res_row_set = RowSet_new_noslice (ReplyBuf_new (''=plan'' @ [CHR 0x0a])),
     res_stashed = None, res_to_close = None\<rparr>"

definition example_result :: ResultSet where
  "example_result = \<lparr>res_id = 7, res_prepared = False, res_next_row = 1, res_total_rows = 9, res_rows_included = 1,
     res_columns = [ResultColumn_new ''x'' Bool], res_row_set = RowSet_new (ReplyBuf_new []) 1,
     res_stashed = None, res_to_close = Some 7\<rparr>"

lemma example_cursor_simps [simp]: "cu_replies (example_cursor p) = p"
  "dc_holds (cn_delayed (cu_conn (example_cursor p))) []" "cu_reply_size (example_cursor p) = 100"
  "cu_max_prefetch (example_cursor p) = None"
  by (simp_all add: example_cursor_def Cursor_new_def example_conn_def Conn_new_def ServerState_new_def dc_holds_new)


text \<open>C37. A result set of \<open>=\<close> lines (the output of EXPLAIN or PLAN) of which a line is left unread makes \<open>exhaust\<close> run for ever,
  whatever the fuel, unless that line is \<open>=OK\<close>: leaving the result set skips nothing, and the same lines are parsed as a
  new result set. So the next statement on the cursor, and closing it, never returns.\<close>

theorem exhaust_never_returns:
  assumes "byte_search (env_L E)" and "wf_parser (cu_replies cu)" and "dc_waits (cn_delayed (cu_conn cu)) ss ds"
    and "unread_noslice (cu_replies cu)" and "\<not> starts_with (behind (cu_replies cu)) (''=OK'' @ [CHR 0x0a])"
  shows "fst (exhaust E f cu) = NoFuel"
proof -
  have "queueing (cu_conn cu)" using assms(3) by (auto simp: queueing_def)
  from byte_search.exhaust_stuck [OF assms(1) refl assms(2) this assms(4,5), of f] show ?thesis by auto
qed

theorem exhaust_never_returns_witness:
  "ReplyParser_new ref_libs (''=plan'' @ [CHR 0x0a]) = Ok example_plan
     \<and> fst (exhaust (script_env 1000) 1000 (example_cursor example_plan)) = NoFuel"
proof
  show "ReplyParser_new ref_libs (''=plan'' @ [CHR 0x0a]) = Ok example_plan"
    by (simp add: ReplyParser_new_def parse_def parse_noslice_def example_plan_def ref_libs_def ref_lines_def chomp_cr_def Let_def)
  have L: "env_L (script_env 1000) = ref_libs" by (simp add: script_env_def)
  show "fst (exhaust (script_env 1000) 1000 (example_cursor example_plan)) = NoFuel"
    by (rule exhaust_never_returns [where E = "script_env 1000", unfolded L, OF ref_libs.byte_search_axioms _ example_cursor_simps(2)])
       (simp_all add: example_plan_def unread_noslice_def pending_rows_def RowSet_new_noslice_def wf_result_def wf_rowset_def
         wf_buf_def ReplyBuf_new_def peek_def)
qed

text \<open>C21. Counting rows: a call of \<open>next_row\<close> on a result set takes at most two turns of its loop and at most one
  window; when it returns true, exactly one more row has been counted and the total is not exceeded; when it returns false, all
  rows the server announced have been delivered. The result set stays the same one.\<close>

theorem next_row_counts:
  assumes "cu_replies cu = Data rs" and "0 < cu_reply_size cu" and "2 \<le> env_F E"
  shows "next_row E cu = row_loop E 2 cu \<and>
    (\<forall>b cu'. next_row E cu = (Ok b, cu') \<longrightarrow> (\<exists>rs'. cu_replies cu' = Data rs' \<and> same_result rs rs' \<and> 0 < cu_reply_size cu'
       \<and> (if b then res_next_row rs < res_total_rows rs \<and> res_next_row rs' = res_next_row rs + 1
          else res_total_rows rs \<le> res_next_row rs \<and> res_next_row rs' = res_next_row rs)))"
proof -
  obtain f where f: "env_F E = Suc (Suc f)" using assms(3) by (metis add_2_eq_Suc le_Suc_ex)
  have "next_row E cu = row_loop E (Suc (Suc f)) cu" using assms(1) by (simp add: next_row_def f)
  with row_loop_counted [OF assms(1,2), of E f] show ?thesis by (simp add: counted_def)
qed

theorem next_row_counts_witness:
  "next_row (quiet_env 50) (example_cursor (Data example_result)) = row_loop (quiet_env 50) 2 (example_cursor (Data example_result))"
  using next_row_counts [of "example_cursor (Data example_result)" example_result "quiet_env 50"] by (simp add: quiet_env_def)

text \<open>C23. The windows of rows: the window asked for starts at the next row, ends within the announced total, is not
  empty while rows are missing, is at most twice the previous size and at most one more than the prefetch limit; and
  the size remembered for the next window is positive and at least the size of this one.\<close>

theorem fetch_window_bounds:
  assumes "cu_replies cu = Data rs" and "res_next_row rs < res_total_rows rs" and "0 < cu_reply_size cu"
  shows "\<exists>n sz. decide_next_fetch cu = Ok (res_id rs, res_next_row rs, n, sz, length (res_columns rs))
     \<and> 0 < n \<and> res_next_row rs + n \<le> res_total_rows rs \<and> n \<le> sz \<and> n \<le> 2 * cu_reply_size cu
     \<and> 0 < sz \<and> sz \<le> 18446744073709551615
     \<and> (case cu_max_prefetch cu of Some limit \<Rightarrow> sz \<le> limit + 1 | None \<Rightarrow> cu_reply_size cu \<le> 18446744073709551615 \<longrightarrow> cu_reply_size cu \<le> sz)"
proof -
  let ?k = "res_total_rows rs - res_next_row rs"
  have "0 < next_fetch_size (cu_reply_size cu) (cu_max_prefetch cu) ?k" using assms(2,3) by (intro fetch_positive) simp_all
  moreover have "0 < next_window_size (cu_reply_size cu) (cu_max_prefetch cu)" using assms(3) by (rule window_positive)
  ultimately show ?thesis using assms
    by (auto simp: decide_next_fetch_def result_set_def Let_def next_fetch_size_def next_window_size_def saturating_mul_def
        saturating_add_def split: option.splits)
qed

theorem fetch_window_bounds_witness:
  "\<exists>n sz. decide_next_fetch (example_cursor (Data example_result)) = Ok (7, 1, n, sz, 1) \<and> 0 < n \<and> 1 + n \<le> 9 \<and> n \<le> sz \<and> 100 \<le> sz"
  using fetch_window_bounds [of "example_cursor (Data example_result)" example_result] by (auto simp: example_result_def)

text \<open>C24. A window of rows is accepted exactly when it answers the request: every window the server renders for the
  request, without an error line and with rows in it, is accepted and its rows are what follows the header; and an accepted
  response has no error line and a header with the result, the columns, the number of rows and the offset that were asked for.\<close>

theorem export_window_exact:
  assumes "byte_search L"
  shows "(length vec \<le> 18446744073709551615 \<and> vec = ''&6'' @ head_line [rid, cols, n, start] @ CHR 0x0a # rows
      \<and> (\<forall>x\<in>{rid, cols, n, start}. x \<le> 18446744073709551615) \<and> server_error L vec = None
      \<and> (n = 0 \<or> starts_with rows ''['') \<longrightarrow>
        (\<exists>buf. parse_window L rid cols n start vec = Ok (RowSet_new buf cols) \<and> peek buf = rows))
    \<and> (parse_window L rid cols n start vec = Ok row_set \<longrightarrow>
        server_error L vec = None \<and> (0 < n \<longrightarrow> has_pending_row row_set)
        \<and> (\<exists>buf. parse_export_header L parse_u64 4 (ReplyBuf_new vec) = (Ok [rid, cols, n, start], buf)
             \<and> row_set = RowSet_new buf cols))"
  using byte_search.parse_window_ok [OF assms, of vec rid cols n start rows]
    byte_search.parse_window_sound [OF assms, of rid cols n start vec row_set] by blast

theorem export_window_exact_witness:
  "\<exists>buf. parse_window ref_libs 7 2 3 1 (''&6'' @ head_line [7, 2, 3, 1] @ CHR 0x0a # ''[ 1,'') = Ok (RowSet_new buf 2)
     \<and> peek buf = ''[ 1,''"
proof -
  have "server_error ref_libs (''&6'' @ head_line [7, 2, 3, 1] @ CHR 0x0a # ''[ 1,'') = None"
    by (simp add: server_error_def ref_libs_def head_line_def show_nat.simps char_of_def)
  with export_window_exact [OF ref_libs.byte_search_axioms, of "''&6'' @ head_line [7, 2, 3, 1] @ CHR 0x0a # ''[ 1,''" 7 2 3 1 "''[ 1,''"]
  show ?thesis by (simp add: head_line_def show_nat.simps char_of_def)
qed

end
