(* ===== verification/Metadata.thy ===== *)
theory Metadata
  imports Cursor
begin

text \<open>
  Server metadata, the end of \<open>src/conn.rs\<close>: the server's environment table is read through a cursor, the version is
  parsed from it, and the result is kept in the state of the connection.
\<close>

section \<open>Model of the code\<close>

definition parse_u16 :: "bytes \<Rightarrow> (nat, parse_int_error) outcome" where
  "parse_u16 s = bindR (parse_int 0 65535 s) (\<lambda>v. Ok (nat v))"

fun next_part :: "bytes list \<Rightarrow> (nat \<times> bytes list, CursorError) outcome" where
  "next_part [] = Err (Metadata (CHR 0x27 # ''monet_version'' @ CHR 0x27 # '' does not have 3 components''))"
| "next_part (s # parts) = (case parse_u16 s of
       Ok n \<Rightarrow> Ok (n, parts)
     | Err _ \<Rightarrow> Err (Metadata (''invalid int component in '' @ CHR 0x27 # ''monet_version'' @ [CHR 0x27]))
     | Panic \<Rightarrow> Panic | NoFuel \<Rightarrow> NoFuel)"

definition parse_version :: "bytes \<Rightarrow> (nat \<times> nat \<times> nat, CursorError) outcome" where
  "parse_version v =
     bindR (next_part (split_on (CHR ''.'') v)) (\<lambda>(major, parts).
     bindR (next_part parts) (\<lambda>(minor, parts).
     bindR (next_part parts) (\<lambda>(patch, parts).
       if parts \<noteq> [] then Err (Metadata (CHR 0x27 # ''monet_version'' @ CHR 0x27 # '' has more than 3 components''))
       else Ok (major, minor, patch))))"

text \<open>The loop over the rows of the environment table.\<close>

fun environment_loop :: "'t cenv \<Rightarrow> nat \<Rightarrow> (bytes \<rightharpoonup> bytes) \<Rightarrow> 't Cursor \<Rightarrow> ((bytes \<rightharpoonup> bytes), CursorError) outcome \<times> 't Cursor" where
  "environment_loop E 0 environment cu = (NoFuel, cu)"
| "environment_loop E (Suc f) environment cu =
     bindS (next_row E cu) (\<lambda>more cu.
       if more then
         bindS (bindR (get_str 0 cu) (ok_or (Metadata ''sys.environment.name is null'')), cu) (\<lambda>name cu.
         bindS (get_str 1 cu, cu) (\<lambda>v cu.
           environment_loop E f (environment(name \<mapsto> (case v of Some s \<Rightarrow> s | None \<Rightarrow> []))) cu))
       else (Ok environment, cu))"

text \<open>The cursor is dropped at the end, on every path.\<close>

definition read_environment ::
  "'t cenv \<Rightarrow> texts \<Rightarrow> Timeouts \<Rightarrow> 't Conn \<Rightarrow> ((bytes \<rightharpoonup> bytes), CursorError) outcome \<times> 't Conn" where
  "read_environment E X timeouts c =
     (case bindS (execute E X ''SELECT name, value FROM sys.environment'' (set_reply_size 1024 (set_timeouts timeouts (Cursor_new c))))
             (\<lambda>_ cu. environment_loop E (env_F E) Map.empty cu) of
        (NoFuel, cu) \<Rightarrow> (NoFuel, cu_conn cu)
      | (res, cu) \<Rightarrow> (case Cursor_drop E cu of (Ok _, c) \<Rightarrow> (res, c) | (dropped, c) \<Rightarrow> (failed dropped, c)))"

definition ServerMetadata_new ::
  "'t cenv \<Rightarrow> texts \<Rightarrow> Timeouts \<Rightarrow> 't Conn \<Rightarrow> (InnerServerMetadata, CursorError) outcome \<times> 't Conn" where
  "ServerMetadata_new E X timeouts c =
     bindS (read_environment E X timeouts c) (\<lambda>environment c.
     case environment ''monet_version'' of
       None \<Rightarrow> (Err (Metadata (CHR 0x27 # ''monet_version'' @ CHR 0x27 # '' not found in environment'')), c)
     | Some v \<Rightarrow> bindS (parse_version v, c) (\<lambda>version c.
         case run_locked E (\<lambda>_ state delayed sock. (Ok sock, state, delayed, st_prehash_algo state)) [] c of
           (res, prehash_algo, c) \<Rightarrow> bindS (res, c) (\<lambda>_ c.
             (Ok \<lparr>md_environment = environment, md_version = version, md_prehash_algo = prehash_algo\<rparr>, c))))"

definition metadata_with_timeouts ::
  "'t cenv \<Rightarrow> texts \<Rightarrow> Timeouts \<Rightarrow> 't Conn \<Rightarrow> (InnerServerMetadata, CursorError) outcome \<times> 't Conn" where
  "metadata_with_timeouts E X timeouts c =
     (case run_locked_with_timeouts E timeouts (\<lambda>_ state delayed sock. (Ok sock, state, delayed, st_sql_metadata state)) None c of
        (res, cached, c) \<Rightarrow> bindS (res, c) (\<lambda>_ c.
          case cached of
            Some md \<Rightarrow> (Ok md, c)
          | None \<Rightarrow> bindS (ServerMetadata_new E X timeouts c) (\<lambda>md c.
              case run_locked_with_timeouts E timeouts
                     (\<lambda>_ state delayed sock. (Ok sock, state\<lparr>st_sql_metadata := Some md\<rparr>, delayed, ())) () c of
                (res, _, c) \<Rightarrow> bindS (res, c) (\<lambda>_ c. (Ok md, c)))))"

definition metadata :: "'t cenv \<Rightarrow> texts \<Rightarrow> 't Conn \<Rightarrow> (InnerServerMetadata, CursorError) outcome \<times> 't Conn" where
  "metadata E X c = metadata_with_timeouts E X (cn_timeouts c) c"

definition metadata_env :: "bytes \<Rightarrow> InnerServerMetadata \<Rightarrow> bytes option" where
  "metadata_env key md = md_environment md key"

section \<open>Lemmas\<close>

lemma parse_u16_show: "n \<le> 65535 \<Longrightarrow> parse_u16 (show_nat n) = Ok n"
  by (simp add: parse_u16_def parse_int_show_nat)

lemma show_nat_no_dot: "CHR ''.'' \<notin> set (show_nat n)"
  using show_nat_digits [of "CHR ''.''" n] by (auto simp: is_ascii_digit_def)

text \<open>The version is exactly three numbers of sixteen bits with dots between them.\<close>

lemma parse_version_show:
  assumes "a \<le> 65535" and "b \<le> 65535" and "c \<le> 65535"
  shows "parse_version (show_nat a @ ''.'' @ show_nat b @ ''.'' @ show_nat c) = Ok (a, b, c)"
proof -
  have "split_on (CHR ''.'') (show_nat a @ ''.'' @ show_nat b @ ''.'' @ show_nat c) = map show_nat [a, b, c]"
  proof -
    have d: "x \<noteq> CHR ''.''" if "x \<in> set (show_nat n)" for x n using that show_nat_no_dot [of n] by auto
    have step: "split_on (CHR ''.'') (show_nat n @ ''.'' @ t) = show_nat n # split_on (CHR ''.'') t" for n t
      using split_by_step [of "show_nat n" "\<lambda>x. x = CHR ''.''" "CHR ''.''" t] d by simp
    have "split_on (CHR ''.'') (show_nat c) = [show_nat c]" by (rule split_by_none) (rule d)
    then show ?thesis by (simp only: step list.map)
  qed
  then show ?thesis using assms by (simp add: parse_version_def parse_u16_show)
qed

section \<open>Properties\<close>


definition no_texts :: texts where
  "no_texts = \<lparr>tx_io = (\<lambda>_. []), tx_conv = (\<lambda>_. []), tx_debug_char = (\<lambda>c. [c]), tx_debug_str = (\<lambda>s. s)\<rparr>"

definition example_metadata :: InnerServerMetadata where
  "example_metadata = \<lparr>md_environment = [''monet_version'' \<mapsto> ''11.55.1''], md_version = (11, 55, 1), md_prehash_algo = ''SHA512''\<rparr>"

definition known_conn :: "script Conn" where
  "known_conn = example_conn\<lparr>cn_state := (cn_state example_conn)\<lparr>st_sql_metadata := Some example_metadata\<rparr>\<rparr>"


end
