(* ===== verification/Parms.thy ===== *)
theory Parms
  imports Framing_Sock Reply_Parser
begin

text \<open>
  Connection parameters, \<open>src/parms/parameters.rs\<close> and the errors of \<open>src/parms/mod.rs\<close>: the table of values
  indexed by parameter, its setters, and \<open>Validated::new\<close>, which checks the values and derives how to connect.

  Constructors carry a prefix where the names of the source clash: \<open>P\<close> for parameters, \<open>V\<close> for values, \<open>T\<close> for
  the types of parameters. The table is a list of 35 values as in the code; \<open>param_table\<close> is the contract of
  such a table, and the laws of the setters are proved from it. Strings are their UTF-8 bytes.
\<close>

section \<open>Model of the code: parameters and values\<close>

datatype Parm =
    PDatabase | PHost | PPort | PTls | PUser | PPassword | PAutocommit | PBinary | PCert | PCertHash |
    PClientCert | PClientKey | PLanguage | PReplySize | PSchema | PSock | PSockDir | PTimezone |
    PConnectTimeout | PReadTimeout | PWriteTimeout | POperationTimeout | PClientInfo |
    PClientApplication | PClientPrefix | PClientRemark | PMaxResponseSize | PMaxPrefetch |
    PTableSchema | PTable | PHash | PDebug | PLogfile

definition Parm_iter :: "Parm list" where
  "Parm_iter = [
     PDatabase, PHost, PPort, PTls, PUser, PPassword, PAutocommit, PBinary, PCert, PCertHash, PClientCert,
     PClientKey, PLanguage, PReplySize, PSchema, PSock, PSockDir, PTimezone, PConnectTimeout, PReadTimeout,
     PWriteTimeout, POperationTimeout, PClientInfo, PClientApplication, PClientPrefix, PClientRemark,
     PMaxResponseSize, PTableSchema, PTable, PHash, PDebug, PLogfile, PMaxPrefetch]"

fun Parm_as_str :: "Parm \<Rightarrow> bytes" where
  "Parm_as_str PDatabase = ''database''"
| "Parm_as_str PHost = ''host''"
| "Parm_as_str PPort = ''port''"
| "Parm_as_str PTls = ''tls''"
| "Parm_as_str PUser = ''user''"
| "Parm_as_str PPassword = ''password''"
| "Parm_as_str PAutocommit = ''autocommit''"
| "Parm_as_str PBinary = ''binary''"
| "Parm_as_str PCert = ''cert''"
| "Parm_as_str PCertHash = ''certhash''"
| "Parm_as_str PClientCert = ''clientcert''"
| "Parm_as_str PClientKey = ''clientkey''"
| "Parm_as_str PLanguage = ''language''"
| "Parm_as_str PReplySize = ''replysize''"
| "Parm_as_str PSchema = ''schema''"
| "Parm_as_str PSock = ''sock''"
| "Parm_as_str PSockDir = ''sockdir''"
| "Parm_as_str PTimezone = ''timezone''"
| "Parm_as_str PConnectTimeout = ''connect_timeout''"
| "Parm_as_str PReadTimeout = ''read_timeout''"
| "Parm_as_str PWriteTimeout = ''write_timeout''"
| "Parm_as_str POperationTimeout = ''operation_timeout''"
| "Parm_as_str PClientInfo = ''client_info''"
| "Parm_as_str PClientApplication = ''client_application''"
| "Parm_as_str PClientPrefix = ''client_prefix''"
| "Parm_as_str PClientRemark = ''client_remark''"
| "Parm_as_str PMaxResponseSize = ''max_response_size''"
| "Parm_as_str PTableSchema = ''tableschema''"
| "Parm_as_str PTable = ''table''"
| "Parm_as_str PHash = ''hash''"
| "Parm_as_str PDebug = ''debug''"
| "Parm_as_str PLogfile = ''logfile''"
| "Parm_as_str PMaxPrefetch = ''maxprefetch''"

text \<open>The discriminants of the enumeration, in the order of declaration.\<close>

fun Parm_index :: "Parm \<Rightarrow> nat" where
  "Parm_index PDatabase = 0"
| "Parm_index PHost = 1"
| "Parm_index PPort = 2"
| "Parm_index PTls = 3"
| "Parm_index PUser = 4"
| "Parm_index PPassword = 5"
| "Parm_index PAutocommit = 6"
| "Parm_index PBinary = 7"
| "Parm_index PCert = 8"
| "Parm_index PCertHash = 9"
| "Parm_index PClientCert = 10"
| "Parm_index PClientKey = 11"
| "Parm_index PLanguage = 12"
| "Parm_index PReplySize = 13"
| "Parm_index PSchema = 14"
| "Parm_index PSock = 15"
| "Parm_index PSockDir = 16"
| "Parm_index PTimezone = 17"
| "Parm_index PConnectTimeout = 18"
| "Parm_index PReadTimeout = 19"
| "Parm_index PWriteTimeout = 20"
| "Parm_index POperationTimeout = 21"
| "Parm_index PClientInfo = 22"
| "Parm_index PClientApplication = 23"
| "Parm_index PClientPrefix = 24"
| "Parm_index PClientRemark = 25"
| "Parm_index PMaxResponseSize = 26"
| "Parm_index PMaxPrefetch = 27"
| "Parm_index PTableSchema = 28"
| "Parm_index PTable = 29"
| "Parm_index PHash = 30"
| "Parm_index PDebug = 31"
| "Parm_index PLogfile = 32"

abbreviation PARM_TABLE_SIZE :: nat where
  "PARM_TABLE_SIZE \<equiv> 35"

definition is_core :: "Parm \<Rightarrow> bool" where
  "is_core p \<longleftrightarrow> p \<in> {PTls, PHost, PPort, PDatabase, PTableSchema, PTable}"

definition is_sensitive :: "Parm \<Rightarrow> bool" where
  "is_sensitive p \<longleftrightarrow> p \<in> {PUser, PPassword}"

definition Parm_ignored :: "bytes \<Rightarrow> bool" where
  "Parm_ignored name \<longleftrightarrow> CHR ''_'' \<in> set name"

datatype ParmType = TBool | TInt | TStr

definition parm_type :: "Parm \<Rightarrow> ParmType" where
  "parm_type p =
     (if p \<in> {PTls, PAutocommit, PClientInfo} then TBool
      else if p \<in> {PPort, PReplySize, PTimezone, PMaxPrefetch, PConnectTimeout, PReadTimeout, PWriteTimeout,
                   POperationTimeout, PMaxResponseSize} then TInt
      else TStr)"

text \<open>\<open>Parm::from_str\<close>: the names, and the second name of the reply size.\<close>

definition parm_names :: "(bytes \<times> Parm) list" where
  "parm_names = [
     (''database'', PDatabase), (''host'', PHost), (''port'', PPort), (''tls'', PTls), (''user'', PUser),
     (''password'', PPassword), (''autocommit'', PAutocommit), (''binary'', PBinary), (''cert'', PCert),
     (''certhash'', PCertHash), (''clientcert'', PClientCert), (''clientkey'', PClientKey),
     (''language'', PLanguage), (''replysize'', PReplySize), (''fetchsize'', PReplySize),
     (''schema'', PSchema), (''sock'', PSock), (''sockdir'', PSockDir), (''timezone'', PTimezone),
     (''connect_timeout'', PConnectTimeout), (''read_timeout'', PReadTimeout),
     (''write_timeout'', PWriteTimeout), (''operation_timeout'', POperationTimeout),
     (''client_info'', PClientInfo), (''client_application'', PClientApplication),
     (''client_prefix'', PClientPrefix), (''client_remark'', PClientRemark),
     (''max_response_size'', PMaxResponseSize), (''tableschema'', PTableSchema), (''table'', PTable),
     (''hash'', PHash), (''debug'', PDebug), (''logfile'', PLogfile), (''maxprefetch'', PMaxPrefetch)]"

definition Parm_from_str :: "bytes \<Rightarrow> Parm option" where
  "Parm_from_str name = map_of parm_names name"

definition parse_bool :: "bytes \<Rightarrow> bool option" where
  "parse_bool s =
     (if \<exists>y\<in>set [''yes'', ''true'', ''on'']. eq_ignore_ascii_case y s then Some True
      else if \<exists>n\<in>set [''no'', ''false'', ''off'']. eq_ignore_ascii_case n s then Some False
      else None)"

definition render_bool :: "bool \<Rightarrow> bytes" where
  "render_bool b = (if b then ''on'' else ''off'')"

datatype Value = VBool bool | VInt int | VStr bytes

definition parse_ok_i64 :: "bytes \<Rightarrow> int option" where
  "parse_ok_i64 s = (case parse_i64 s of Ok i \<Rightarrow> Some i | _ \<Rightarrow> None)"

fun bool_value :: "Value \<Rightarrow> bool option" where
  "bool_value (VBool b) = Some b"
| "bool_value (VInt i) = None"
| "bool_value (VStr s) = parse_bool s"

fun int_value :: "Value \<Rightarrow> int option" where
  "int_value (VBool b) = None"
| "int_value (VInt i) = Some i"
| "int_value (VStr s) = parse_ok_i64 s"

definition binary_value :: "Value \<Rightarrow> nat option" where
  "binary_value v = (case bool_value v of
       Some False \<Rightarrow> Some 0
     | Some True \<Rightarrow> Some 65535
     | None \<Rightarrow> (case int_value v of None \<Rightarrow> None | Some i \<Rightarrow> if 0 \<le> i \<and> i \<le> 65535 then Some (nat i) else None))"

fun str_value :: "Value \<Rightarrow> bytes" where
  "str_value (VBool b) = render_bool b"
| "str_value (VInt i) = show_int i"
| "str_value (VStr s) = s"

datatype ParmError =
    UnknownParameter bytes
  | InvalidValue Parm
  | InvalidBool Parm
  | InvalidInt Parm
  | MustBeString Parm
  | InvalidBinary
  | InvalidUrl bytes
  | InvalidPercentEncoding
  | InvalidPercentUtf8
  | HostSockConflict
  | OnlyWithTls Parm
  | ClientCertRequiresKey
  | NotAllowedAsQuery Parm
  | ClientInfoNewline Parm

definition verify_assign :: "Parm \<Rightarrow> Value \<Rightarrow> (unit, ParmError) outcome" where
  "verify_assign parm v = (case parm_type parm of
       TBool \<Rightarrow> if bool_value v = None then Err (InvalidBool parm) else Ok ()
     | TInt \<Rightarrow> if int_value v = None then Err (InvalidInt parm) else Ok ()
     | TStr \<Rightarrow> (case v of VStr _ \<Rightarrow> Ok () | _ \<Rightarrow> Err (MustBeString parm)))"

section \<open>Model of the code: the table\<close>

record Parameters =
  parms :: "Value list"
  user_changed :: bool
  password_changed :: bool
  timezone_set :: bool

definition default_parameter_value_by_index :: "nat \<Rightarrow> Value" where
  "default_parameter_value_by_index idx =
     (if idx = Parm_index PTls then VBool False
      else if idx = Parm_index PPort then VInt (- 1)
      else if idx = Parm_index PSockDir then VStr ''/tmp''
      else if idx = Parm_index PLanguage then VStr ''sql''
      else if idx = Parm_index PAutocommit then VBool True
      else if idx = Parm_index PTimezone then VInt 0
      else if idx = Parm_index PReplySize then VInt 200
      else if idx = Parm_index PMaxPrefetch then VInt 2500
      else if idx = Parm_index PBinary then VStr ''on''
      else if idx = Parm_index PClientInfo then VBool True
      else if idx = Parm_index PConnectTimeout then VInt 30
      else if idx = Parm_index PWriteTimeout then VInt 60
      else if idx = Parm_index PReadTimeout \<or> idx = Parm_index POperationTimeout then VInt 0
      else if idx = Parm_index PMaxResponseSize then VInt (1024 * 1024 * 1024)
      else VStr [])"

definition DEFAULT_PARAMETERS :: Parameters where
  "DEFAULT_PARAMETERS = \<lparr>parms = map default_parameter_value_by_index [0..<PARM_TABLE_SIZE],
     user_changed = False, password_changed = False, timezone_set = False\<rparr>"

definition Parameters_get :: "Parameters \<Rightarrow> Parm \<Rightarrow> Value" where
  "Parameters_get p parm = parms p ! Parm_index parm"

definition Parameters_put :: "Parm \<Rightarrow> Value \<Rightarrow> Parameters \<Rightarrow> Parameters" where
  "Parameters_put parm v p = p\<lparr>parms := (parms p)[Parm_index parm := v]\<rparr>"

definition Parameters_replace :: "Parm \<Rightarrow> Value \<Rightarrow> Parameters \<Rightarrow> (Value, ParmError) outcome \<times> Parameters" where
  "Parameters_replace parm v p =
     bindS (verify_assign parm v, p) (\<lambda>_ p.
       let p = (case parm of
                  PUser \<Rightarrow> p\<lparr>user_changed := True\<rparr>
                | PPassword \<Rightarrow> p\<lparr>password_changed := True\<rparr>
                | PTimezone \<Rightarrow> p\<lparr>timezone_set := True\<rparr>
                | _ \<Rightarrow> p)
       in (Ok (Parameters_get p parm), Parameters_put parm v p))"

definition Parameters_set :: "Parm \<Rightarrow> Value \<Rightarrow> Parameters \<Rightarrow> (unit, ParmError) outcome \<times> Parameters" where
  "Parameters_set parm v p = bindS (Parameters_replace parm v p) (\<lambda>_ p. (Ok (), p))"

text \<open>\<open>reset\<close> unwraps the result of \<open>set\<close>.\<close>

definition Parameters_reset :: "Parm \<Rightarrow> Parameters \<Rightarrow> (unit, ParmError) outcome \<times> Parameters" where
  "Parameters_reset parm p = (case Parameters_set parm (Parameters_get DEFAULT_PARAMETERS parm) p of
       (Ok _, p) \<Rightarrow> (Ok (), if parm = PTimezone then p\<lparr>timezone_set := False\<rparr> else p)
     | (_, p) \<Rightarrow> (Panic, p))"

definition Parameters_take :: "Parm \<Rightarrow> Parameters \<Rightarrow> (Value, ParmError) outcome \<times> Parameters" where
  "Parameters_take parm p = (case Parameters_replace parm (Parameters_get DEFAULT_PARAMETERS parm) p of
       (Ok v, p) \<Rightarrow> (Ok v, if parm = PTimezone then p\<lparr>timezone_set := False\<rparr> else p)
     | (_, p) \<Rightarrow> (Panic, p))"

definition Parameters_get_bool :: "Parm \<Rightarrow> Parameters \<Rightarrow> (bool, ParmError) outcome" where
  "Parameters_get_bool parm p = ok_or (InvalidBool parm) (bool_value (Parameters_get p parm))"

definition Parameters_get_int :: "Parm \<Rightarrow> Parameters \<Rightarrow> (int, ParmError) outcome" where
  "Parameters_get_int parm p = ok_or (InvalidInt parm) (int_value (Parameters_get p parm))"

definition Parameters_get_str :: "Parm \<Rightarrow> Parameters \<Rightarrow> (bytes, ParmError) outcome" where
  "Parameters_get_str parm p = Ok (str_value (Parameters_get p parm))"

definition set_named :: "bytes \<Rightarrow> Value \<Rightarrow> Parameters \<Rightarrow> (unit, ParmError) outcome \<times> Parameters" where
  "set_named parm_name v p = (case Parm_from_str parm_name of
       None \<Rightarrow> if Parm_ignored parm_name then (Ok (), p) else (Err (UnknownParameter parm_name), p)
     | Some parm \<Rightarrow> Parameters_set parm v p)"

definition is_default :: "Parm \<Rightarrow> Parameters \<Rightarrow> bool" where
  "is_default parm p = (let v = Parameters_get p parm in
     case Parameters_get DEFAULT_PARAMETERS parm of
       VBool b \<Rightarrow> bool_value v = Some b
     | VInt i \<Rightarrow> int_value v = Some i
     | VStr s \<Rightarrow> s = str_value v)"

definition boundary :: "Parameters \<Rightarrow> (unit, ParmError) outcome \<times> Parameters" where
  "boundary p = bindS (case (user_changed p, password_changed p) of
       (True, False) \<Rightarrow> Parameters_reset PPassword p
     | (False, True) \<Rightarrow> Parameters_reset PUser p
     | _ \<Rightarrow> (Ok (), p)) (\<lambda>_ p. (Ok (), p\<lparr>user_changed := False, password_changed := False\<rparr>))"

section \<open>Model of the code: typed setters\<close>

text \<open>The builder method \<open>with_x\<close> is \<open>set_x\<close> on an owned value.\<close>

type_synonym setting = "Parameters \<Rightarrow> (unit, ParmError) outcome \<times> Parameters"

definition Parameters_set_database :: "bytes \<Rightarrow> setting" where
  "Parameters_set_database v = Parameters_set PDatabase (VStr v)"

definition Parameters_set_host :: "bytes \<Rightarrow> setting" where
  "Parameters_set_host v = Parameters_set PHost (VStr v)"

definition Parameters_set_port :: "nat \<Rightarrow> setting" where
  "Parameters_set_port v = Parameters_set PPort (VInt (int v))"

definition Parameters_set_tls :: "bool \<Rightarrow> setting" where
  "Parameters_set_tls v = Parameters_set PTls (VBool v)"

definition Parameters_set_user :: "bytes \<Rightarrow> setting" where
  "Parameters_set_user v = Parameters_set PUser (VStr v)"

definition Parameters_set_password :: "bytes \<Rightarrow> setting" where
  "Parameters_set_password v = Parameters_set PPassword (VStr v)"

definition Parameters_set_autocommit :: "bool \<Rightarrow> setting" where
  "Parameters_set_autocommit v = Parameters_set PAutocommit (VBool v)"

definition Parameters_set_binary :: "Value \<Rightarrow> setting" where
  "Parameters_set_binary v = Parameters_set PBinary v"

definition Parameters_set_cert :: "bytes \<Rightarrow> setting" where
  "Parameters_set_cert v = Parameters_set PCert (VStr v)"

definition Parameters_set_certhash :: "bytes \<Rightarrow> setting" where
  "Parameters_set_certhash v = Parameters_set PCertHash (VStr v)"

definition Parameters_set_clientcert :: "bytes \<Rightarrow> setting" where
  "Parameters_set_clientcert v = Parameters_set PClientCert (VStr v)"

definition Parameters_set_clientkey :: "bytes \<Rightarrow> setting" where
  "Parameters_set_clientkey v = Parameters_set PClientKey (VStr v)"

definition Parameters_set_language :: "bytes \<Rightarrow> setting" where
  "Parameters_set_language v = Parameters_set PLanguage (VStr v)"

definition Parameters_set_replysize :: "int \<Rightarrow> setting" where
  "Parameters_set_replysize v = Parameters_set PReplySize (VInt v)"

definition Parameters_set_maxprefetch :: "int \<Rightarrow> setting" where
  "Parameters_set_maxprefetch v = Parameters_set PMaxPrefetch (VInt v)"

definition Parameters_set_schema :: "bytes \<Rightarrow> setting" where
  "Parameters_set_schema v = Parameters_set PSchema (VStr v)"

definition Parameters_set_sock :: "bytes \<Rightarrow> setting" where
  "Parameters_set_sock v = Parameters_set PSock (VStr v)"

definition Parameters_set_sockdir :: "bytes \<Rightarrow> setting" where
  "Parameters_set_sockdir v = Parameters_set PSockDir (VStr v)"

definition Parameters_set_timezone :: "int \<Rightarrow> setting" where
  "Parameters_set_timezone v = Parameters_set PTimezone (VInt v)"

definition Parameters_set_connect_timeout :: "int \<Rightarrow> setting" where
  "Parameters_set_connect_timeout v = Parameters_set PConnectTimeout (VInt v)"

definition Parameters_set_read_timeout :: "int \<Rightarrow> setting" where
  "Parameters_set_read_timeout v = Parameters_set PReadTimeout (VInt v)"

definition Parameters_set_write_timeout :: "int \<Rightarrow> setting" where
  "Parameters_set_write_timeout v = Parameters_set PWriteTimeout (VInt v)"

definition Parameters_set_operation_timeout :: "int \<Rightarrow> setting" where
  "Parameters_set_operation_timeout v = Parameters_set POperationTimeout (VInt v)"

definition Parameters_set_client_info :: "bytes \<Rightarrow> setting" where
  "Parameters_set_client_info v = Parameters_set PClientInfo (VStr v)"

definition Parameters_set_client_application :: "bytes \<Rightarrow> setting" where
  "Parameters_set_client_application v = Parameters_set PClientApplication (VStr v)"

definition Parameters_set_client_prefix :: "bytes \<Rightarrow> setting" where
  "Parameters_set_client_prefix v = Parameters_set PClientPrefix (VStr v)"

definition Parameters_set_client_remark :: "bytes \<Rightarrow> setting" where
  "Parameters_set_client_remark v = Parameters_set PClientRemark (VStr v)"

definition Parameters_set_max_response_size :: "int \<Rightarrow> setting" where
  "Parameters_set_max_response_size v = Parameters_set PMaxResponseSize (VInt v)"

section \<open>Model of the code: validation\<close>

datatype TlsVerify = VerifyOff | VerifyHash | VerifyCert | VerifySystem

record Validated =
  v_database :: bytes
  v_tls :: bool
  v_user :: bytes
  v_password :: bytes
  v_autocommit :: bool
  v_cert :: bytes
  v_language :: bytes
  v_replysize :: nat
  v_maxprefetch :: "nat option"
  v_schema :: bytes
  v_client_info :: bool
  v_client_application :: bytes
  v_client_prefix :: bytes
  v_client_remark :: bytes
  v_connect_timezone_seconds :: "int option"
  v_connect_scan :: bool
  v_connect_unix :: bytes
  v_connect_tcp :: bytes
  v_connect_port :: nat
  v_connect_tls_verify :: TlsVerify
  v_connect_certhash_digits :: bytes
  v_connect_clientkey :: bytes
  v_connect_clientcert :: bytes
  v_connect_binary :: nat
  v_connect_timeout :: "nat option"
  v_read_timeout :: "nat option"
  v_write_timeout :: "nat option"
  v_operation_timeout :: "nat option"
  v_max_response_size :: nat

definition name_char :: "byte \<Rightarrow> bool" where
  "name_char c \<longleftrightarrow> is_ascii_alphanumeric c \<or> c = CHR ''-'' \<or> c = CHR ''.'' \<or> c = CHR ''_''"

definition valid_name :: "Parm \<Rightarrow> bytes \<Rightarrow> (bytes, ParmError) outcome" where
  "valid_name parm name =
     (if \<not> list_all name_char name then Err (InvalidValue parm)
      else if starts_with name ''-'' then Err (InvalidValue parm)
      else Ok name)"

text \<open>The current instant is an argument; the platform cannot represent instants from \<open>instant_max\<close> on.\<close>

definition valid_timeout :: "nat \<Rightarrow> Parm \<Rightarrow> int \<Rightarrow> (nat option, ParmError) outcome" where
  "valid_timeout now parm seconds =
     (if seconds = 0 then Ok None
      else if 1 \<le> seconds \<and> seconds \<le> MAX_TIMEOUT_SECONDS then
        (let timeout = from_secs (nat seconds) in
         if instant_max \<le> now + timeout then Err (InvalidValue parm) else Ok (Some timeout))
      else Err (InvalidValue parm))"

definition is_hex_upper :: "byte \<Rightarrow> bool" where
  "is_hex_upper c \<longleftrightarrow> 65 \<le> byte_val c \<and> byte_val c \<le> 70"

definition is_hex_lower :: "byte \<Rightarrow> bool" where
  "is_hex_lower c \<longleftrightarrow> 97 \<le> byte_val c \<and> byte_val c \<le> 102"

fun certhash_digits :: "bytes \<Rightarrow> (bytes, ParmError) outcome" where
  "certhash_digits [] = Ok []"
| "certhash_digits (c # cs) =
     (if is_ascii_digit c \<or> is_hex_lower c then bindR (certhash_digits cs) (\<lambda>ds. Ok (c # ds))
      else if is_hex_upper c then bindR (certhash_digits cs) (\<lambda>ds. Ok (to_ascii_lowercase c # ds))
      else if c = CHR '':'' then certhash_digits cs
      else Err (InvalidValue PCertHash))"

definition valid_certhash :: "bytes \<Rightarrow> (bytes, ParmError) outcome" where
  "valid_certhash certhash = (case strip_prefix certhash ''sha256:'' of
       None \<Rightarrow> Err (InvalidValue PCertHash)
     | Some fingerprint \<Rightarrow> bindR (certhash_digits fingerprint) (\<lambda>digits.
         if \<not> (16 \<le> length digits \<and> length digits \<le> 64) then Err (InvalidValue PCertHash) else Ok digits))"

definition check :: "bool \<Rightarrow> 'e \<Rightarrow> (unit, 'e) outcome" where
  "check bad e = (if bad then Err e else Ok ())"

definition valid_port :: "int \<Rightarrow> (nat, ParmError) outcome" where
  "valid_port raw_port = (if raw_port = - 1 then Ok 50000
     else if 1 \<le> raw_port \<and> raw_port \<le> 65535 then Ok (nat raw_port) else Err (InvalidValue PPort))"

definition valid_timezone :: "bool \<Rightarrow> int \<Rightarrow> (int option, ParmError) outcome" where
  "valid_timezone is_set raw_timezone =
     (if is_set then
        bindR (ok_or (InvalidValue PTimezone) (checked i32 raw_timezone)) (\<lambda>minutes.
        bindR (ok_or (InvalidValue PTimezone) (checked i32 (minutes * 60))) (\<lambda>seconds. Ok (Some seconds)))
      else Ok None)"

text \<open>A positive size that fits \<open>usize\<close>.\<close>

definition valid_size :: "Parm \<Rightarrow> int \<Rightarrow> (nat, ParmError) outcome" where
  "valid_size parm raw = (if 0 < raw \<and> raw \<le> int usize_max then Ok (nat raw) else Err (InvalidValue parm))"

definition valid_maxprefetch :: "int \<Rightarrow> (nat option, ParmError) outcome" where
  "valid_maxprefetch raw = (if raw = - 1 then Ok None
     else if 0 \<le> raw then (if raw \<le> int usize_max then Ok (Some (nat raw)) else Err (InvalidValue PMaxPrefetch))
     else Err (InvalidValue PMaxPrefetch))"

text \<open>The values with the types of their parameters: the first half of \<open>Validated::new\<close>.\<close>

record raw_parms =
  raw_port :: int
  raw_tls :: bool
  raw_autocommit :: bool
  raw_replysize :: int
  raw_maxprefetch :: int
  raw_timezone :: int
  raw_connect_timeout :: int
  raw_read_timeout :: int
  raw_write_timeout :: int
  raw_operation_timeout :: int
  raw_max_response_size :: int
  raw_client_info :: bool

definition extract_parms :: "Parameters \<Rightarrow> (raw_parms, ParmError) outcome" where
  "extract_parms p =
     bindR (Parameters_get_int PPort p) (\<lambda>port.
     bindR (Parameters_get_bool PTls p) (\<lambda>tls.
     bindR (Parameters_get_bool PAutocommit p) (\<lambda>autocommit.
     bindR (Parameters_get_int PReplySize p) (\<lambda>replysize.
     bindR (Parameters_get_int PMaxPrefetch p) (\<lambda>maxprefetch.
     bindR (Parameters_get_int PTimezone p) (\<lambda>timezone.
     bindR (Parameters_get_int PConnectTimeout p) (\<lambda>connect_timeout.
     bindR (Parameters_get_int PReadTimeout p) (\<lambda>read_timeout.
     bindR (Parameters_get_int PWriteTimeout p) (\<lambda>write_timeout.
     bindR (Parameters_get_int POperationTimeout p) (\<lambda>operation_timeout.
     bindR (Parameters_get_int PMaxResponseSize p) (\<lambda>max_response_size.
     bindR (Parameters_get_bool PClientInfo p) (\<lambda>client_info.
       Ok \<lparr>raw_port = port, raw_tls = tls, raw_autocommit = autocommit, raw_replysize = replysize,
         raw_maxprefetch = maxprefetch, raw_timezone = timezone, raw_connect_timeout = connect_timeout,
         raw_read_timeout = read_timeout, raw_write_timeout = write_timeout, raw_operation_timeout = operation_timeout,
         raw_max_response_size = max_response_size, raw_client_info = client_info\<rparr>))))))))))))"

abbreviation str_of :: "Parameters \<Rightarrow> Parm \<Rightarrow> bytes" where
  "str_of p parm \<equiv> str_value (Parameters_get p parm)"

definition derive_unix :: "Parameters \<Rightarrow> bool \<Rightarrow> nat \<Rightarrow> bytes" where
  "derive_unix p tls connect_port =
     (if str_of p PSock \<noteq> [] then str_of p PSock
      else if tls then []
      else if str_of p PHost = [] then str_of p PSockDir @ ''/.s.monetdb.'' @ show_nat connect_port
      else [])"

definition derive_tcp :: "Parameters \<Rightarrow> bytes" where
  "derive_tcp p = (if str_of p PSock \<noteq> [] then [] else if str_of p PHost = [] then ''localhost'' else str_of p PHost)"

definition derive_tls_verify :: "Parameters \<Rightarrow> bool \<Rightarrow> bytes \<Rightarrow> TlsVerify" where
  "derive_tls_verify p tls certhash =
     (if \<not> tls then VerifyOff else if certhash \<noteq> [] then VerifyHash else if str_of p PCert \<noteq> [] then VerifyCert else VerifySystem)"

text \<open>The last step, from the checked values.\<close>

definition build_validated :: "Parameters \<Rightarrow> raw_parms \<Rightarrow> bytes \<Rightarrow> nat \<Rightarrow> nat \<Rightarrow> bytes \<Rightarrow> int option \<Rightarrow> nat option \<Rightarrow> nat option
    \<Rightarrow> nat option \<Rightarrow> nat option \<Rightarrow> nat \<Rightarrow> nat option \<Rightarrow> nat \<Rightarrow> Validated" where
  "build_validated p raw database connect_port connect_binary hash_digits connect_timezone_seconds connect_timeout
       read_timeout write_timeout operation_timeout replysize maxprefetch max_response_size =
     \<lparr>v_database = database, v_tls = raw_tls raw, v_user = str_of p PUser, v_password = str_of p PPassword,
      v_autocommit = raw_autocommit raw, v_cert = str_of p PCert, v_language = str_of p PLanguage,
      v_replysize = replysize, v_maxprefetch = maxprefetch, v_schema = str_of p PSchema,
      v_client_info = raw_client_info raw, v_client_application = str_of p PClientApplication,
      v_client_prefix = str_of p PClientPrefix, v_client_remark = str_of p PClientRemark,
      v_connect_timezone_seconds = connect_timezone_seconds,
      v_connect_scan = (database \<noteq> [] \<and> str_of p PSock = [] \<and> str_of p PHost = [] \<and> raw_port raw = - 1 \<and> \<not> raw_tls raw),
      v_connect_unix = derive_unix p (raw_tls raw) connect_port, v_connect_tcp = derive_tcp p, v_connect_port = connect_port,
      v_connect_tls_verify = derive_tls_verify p (raw_tls raw) hash_digits, v_connect_certhash_digits = hash_digits,
      v_connect_clientkey = str_of p PClientKey,
      v_connect_clientcert = (if str_of p PClientCert \<noteq> [] then str_of p PClientCert else str_of p PClientKey),
      v_connect_binary = connect_binary, v_connect_timeout = connect_timeout, v_read_timeout = read_timeout,
      v_write_timeout = write_timeout, v_operation_timeout = operation_timeout,
      v_max_response_size = max_response_size\<rparr>"

definition Validated_new :: "nat \<Rightarrow> Parameters \<Rightarrow> (Validated, ParmError) outcome" where
  "Validated_new now p =
     bindR (extract_parms p) (\<lambda>raw.
     let tls = raw_tls raw; client_info = raw_client_info raw in
     bindR (check (str_of p PHost \<noteq> [] \<and> str_of p PSock \<noteq> []) HostSockConflict) (\<lambda>_.
     bindR (ok_or InvalidBinary (binary_value (Parameters_get p PBinary))) (\<lambda>connect_binary.
     bindR (check (str_of p PSock \<noteq> [] \<and> tls) (OnlyWithTls PSock)) (\<lambda>_.
     bindR (if str_of p PCertHash = [] then Ok [] else valid_certhash (str_of p PCertHash)) (\<lambda>hash_digits.
     bindR (check (\<not> tls \<and> str_of p PCert \<noteq> []) (OnlyWithTls PCert)) (\<lambda>_.
     bindR (check (\<not> tls \<and> str_of p PCertHash \<noteq> []) (OnlyWithTls PCertHash)) (\<lambda>_.
     bindR (valid_name PDatabase (str_of p PDatabase)) (\<lambda>database.
     bindR (valid_name PTableSchema (str_of p PTableSchema)) (\<lambda>_.
     bindR (valid_name PTable (str_of p PTable)) (\<lambda>_.
     bindR (valid_port (raw_port raw)) (\<lambda>connect_port.
     bindR (check (str_of p PClientCert \<noteq> [] \<and> str_of p PClientKey = []) ClientCertRequiresKey) (\<lambda>_.
     bindR (check (client_info \<and> CHR 0x0a \<in> set (str_of p PClientApplication)) (ClientInfoNewline PClientApplication)) (\<lambda>_.
     bindR (check (client_info \<and> CHR 0x0a \<in> set (str_of p PClientPrefix)) (ClientInfoNewline PClientPrefix)) (\<lambda>_.
     bindR (check (client_info \<and> CHR 0x0a \<in> set (str_of p PClientRemark)) (ClientInfoNewline PClientRemark)) (\<lambda>_.
     bindR (check (str_of p PLanguage \<noteq> ''sql'') (InvalidValue PLanguage)) (\<lambda>_.
     bindR (valid_timezone (timezone_set p) (raw_timezone raw)) (\<lambda>connect_timezone_seconds.
     bindR (valid_timeout now PConnectTimeout (raw_connect_timeout raw)) (\<lambda>connect_timeout.
     bindR (valid_timeout now PReadTimeout (raw_read_timeout raw)) (\<lambda>read_timeout.
     bindR (valid_timeout now PWriteTimeout (raw_write_timeout raw)) (\<lambda>write_timeout.
     bindR (valid_timeout now POperationTimeout (raw_operation_timeout raw)) (\<lambda>operation_timeout.
     bindR (valid_size PReplySize (raw_replysize raw)) (\<lambda>replysize.
     bindR (valid_maxprefetch (raw_maxprefetch raw)) (\<lambda>maxprefetch.
     bindR (valid_size PMaxResponseSize (raw_max_response_size raw)) (\<lambda>max_response_size.
       Ok (build_validated p raw database connect_port connect_binary hash_digits connect_timezone_seconds connect_timeout
         read_timeout write_timeout operation_timeout replysize maxprefetch max_response_size)))))))))))))))))))))))))"

section \<open>The table\<close>

text \<open>The contract of a table of values by key, and what its clients get from it.\<close>

locale param_table =
  fixes get :: "'s \<Rightarrow> 'k \<Rightarrow> 'v" and put :: "'k \<Rightarrow> 'v \<Rightarrow> 's \<Rightarrow> 's" and ok :: "'s \<Rightarrow> bool"
  assumes get_put_same: "ok s \<Longrightarrow> get (put k v s) k = v"
    and get_put_other: "ok s \<Longrightarrow> k' \<noteq> k \<Longrightarrow> get (put k v s) k' = get s k'"
    and ok_put: "ok s \<Longrightarrow> ok (put k v s)"
begin

lemma get_put: "ok s \<Longrightarrow> get (put k v s) k' = (if k' = k then v else get s k')"
  by (simp add: get_put_same get_put_other)

definition put_all :: "('k \<times> 'v) list \<Rightarrow> 's \<Rightarrow> 's" where
  "put_all kvs s = fold (\<lambda>(k, v). put k v) kvs s"

lemma ok_put_all: "ok s \<Longrightarrow> ok (put_all kvs s)"
  by (induction kvs arbitrary: s) (auto simp: put_all_def ok_put)

lemma get_put_all: "ok s \<Longrightarrow> get (put_all kvs s) k = (case map_of (rev kvs) k of Some v \<Rightarrow> v | None \<Rightarrow> get s k)"
proof (induction kvs arbitrary: s)
  case (Cons kv kvs)
  then show ?case
    by (cases kv) (auto simp: put_all_def ok_put get_put map_add_def split: option.splits)
qed (simp add: put_all_def)

end

definition wf_params :: "Parameters \<Rightarrow> bool" where
  "wf_params p \<longleftrightarrow> length (parms p) = PARM_TABLE_SIZE"

lemma Parm_index_bound: "Parm_index q < PARM_TABLE_SIZE"
  by (cases q) simp_all

lemma Parm_index_inj: "Parm_index a = Parm_index b \<longleftrightarrow> a = b"
  by (cases a; cases b; simp)

text \<open>The derived \<open>Ord\<close>: the order of declaration.\<close>

instantiation Parm :: linorder
begin

definition less_eq_Parm :: "Parm \<Rightarrow> Parm \<Rightarrow> bool" where
  "p \<le> q \<longleftrightarrow> Parm_index p \<le> Parm_index q"

definition less_Parm :: "Parm \<Rightarrow> Parm \<Rightarrow> bool" where
  "p < q \<longleftrightarrow> Parm_index p < Parm_index q"

instance
  by standard (auto simp: less_eq_Parm_def less_Parm_def Parm_index_inj)

end

interpretation params: param_table Parameters_get Parameters_put wf_params
  using Parm_index_bound
  by unfold_locales (auto simp: wf_params_def Parameters_get_def Parameters_put_def Parm_index_inj)

lemma wf_default: "wf_params DEFAULT_PARAMETERS"
  by (simp add: wf_params_def DEFAULT_PARAMETERS_def)

lemma default_value: "Parameters_get DEFAULT_PARAMETERS q = default_parameter_value_by_index (Parm_index q)"
  using Parm_index_bound [of q] by (simp add: Parameters_get_def DEFAULT_PARAMETERS_def)

lemma default_flags: "\<not> user_changed DEFAULT_PARAMETERS" "\<not> password_changed DEFAULT_PARAMETERS" "\<not> timezone_set DEFAULT_PARAMETERS"
  by (simp_all add: DEFAULT_PARAMETERS_def)

lemma get_flags [simp]: "Parameters_get (p\<lparr>user_changed := b\<rparr>) q = Parameters_get p q"
  "Parameters_get (p\<lparr>password_changed := b\<rparr>) q = Parameters_get p q"
  "Parameters_get (p\<lparr>timezone_set := b\<rparr>) q = Parameters_get p q"
  "wf_params (p\<lparr>user_changed := b\<rparr>) = wf_params p" "wf_params (p\<lparr>password_changed := b\<rparr>) = wf_params p"
  "wf_params (p\<lparr>timezone_set := b\<rparr>) = wf_params p"
  by (simp_all add: Parameters_get_def wf_params_def)

lemma put_flags [simp]: "user_changed (Parameters_put q v p) = user_changed p" "password_changed (Parameters_put q v p) = password_changed p"
  "timezone_set (Parameters_put q v p) = timezone_set p"
  by (simp_all add: Parameters_put_def)

text \<open>Setting a parameter: refused without a change, or this one value and its flag change.\<close>

lemma set_cases:
  assumes "wf_params p"
  obtains (ok) p' where "verify_assign q v = Ok ()" "Parameters_set q v p = (Ok (), p')" "wf_params p'"
      "\<And>r. Parameters_get p' r = (if r = q then v else Parameters_get p r)"
      "user_changed p' = (user_changed p \<or> q = PUser)" "password_changed p' = (password_changed p \<or> q = PPassword)"
      "timezone_set p' = (timezone_set p \<or> q = PTimezone)"
    | (refused) e where "verify_assign q v = Err e" "Parameters_set q v p = (Err e, p)"
proof (cases "verify_assign q v")
  case (Ok u)
  define p1 where "p1 = (case q of PUser \<Rightarrow> p\<lparr>user_changed := True\<rparr> | PPassword \<Rightarrow> p\<lparr>password_changed := True\<rparr>
      | PTimezone \<Rightarrow> p\<lparr>timezone_set := True\<rparr> | _ \<Rightarrow> p)"
  have p1: "wf_params p1" "\<And>r. Parameters_get p1 r = Parameters_get p r" "user_changed p1 = (user_changed p \<or> q = PUser)"
    "password_changed p1 = (password_changed p \<or> q = PPassword)" "timezone_set p1 = (timezone_set p \<or> q = PTimezone)"
    using assms by (cases q; simp add: p1_def)+
  have "Parameters_set q v p = (Ok (), Parameters_put q v p1)"
    using Ok by (simp add: Parameters_set_def Parameters_replace_def p1_def [symmetric] Let_def)
  then show thesis using Ok p1 by (intro ok [of "Parameters_put q v p1"]) (simp_all add: params.get_put params.ok_put)
next
  case (Err e)
  then show thesis by (intro refused) (simp_all add: Parameters_set_def Parameters_replace_def)
qed (auto simp: verify_assign_def split: ParmType.splits if_splits Value.splits)

lemma default_assignable: "verify_assign q (Parameters_get DEFAULT_PARAMETERS q) = Ok ()"
  by (cases q) (simp_all add: default_value default_parameter_value_by_index_def verify_assign_def parm_type_def)

lemma reset_ok:
  assumes "wf_params p"
  obtains p' where "Parameters_reset q p = (Ok (), p')" "wf_params p'"
      "\<And>r. Parameters_get p' r = (if r = q then Parameters_get DEFAULT_PARAMETERS q else Parameters_get p r)"
  using assms
proof (cases rule: set_cases [where q = q and v = "Parameters_get DEFAULT_PARAMETERS q"])
  case (ok p')
  then show thesis
    by (intro that [of "if q = PTimezone then p'\<lparr>timezone_set := False\<rparr> else p'"]) (simp_all add: Parameters_reset_def)
qed (simp add: default_assignable)

lemma boundary_ok:
  assumes "wf_params p"
  obtains p' where "boundary p = (Ok (), p')" "wf_params p'" "\<not> user_changed p'" "\<not> password_changed p'"
      "\<And>r. Parameters_get p' r = (if r = PPassword \<and> user_changed p \<and> \<not> password_changed p
          \<or> r = PUser \<and> password_changed p \<and> \<not> user_changed p then Parameters_get DEFAULT_PARAMETERS r else Parameters_get p r)"
proof -
  consider (u) "user_changed p" "\<not> password_changed p" | (pw) "\<not> user_changed p" "password_changed p"
    | (same) "user_changed p = password_changed p" by blast
  then show thesis
  proof cases
    case u
    obtain p' where "Parameters_reset PPassword p = (Ok (), p')" "wf_params p'"
      "\<And>r. Parameters_get p' r = (if r = PPassword then Parameters_get DEFAULT_PARAMETERS PPassword else Parameters_get p r)"
      by (rule reset_ok [where q = PPassword, OF assms]) (rule that, assumption+)
    with u show thesis by (intro that [of "p'\<lparr>user_changed := False, password_changed := False\<rparr>"]) (auto simp: boundary_def)
  next
    case pw
    obtain p' where "Parameters_reset PUser p = (Ok (), p')" "wf_params p'"
      "\<And>r. Parameters_get p' r = (if r = PUser then Parameters_get DEFAULT_PARAMETERS PUser else Parameters_get p r)"
      by (rule reset_ok [where q = PUser, OF assms]) (rule that, assumption+)
    with pw show thesis by (intro that [of "p'\<lparr>user_changed := False, password_changed := False\<rparr>"]) (auto simp: boundary_def)
  next
    case same
    with assms show thesis by (intro that [of "p\<lparr>user_changed := False, password_changed := False\<rparr>"]) (auto simp: boundary_def)
  qed
qed

section \<open>Names\<close>

lemma Parm_names_roundtrip: "Parm_from_str (Parm_as_str q) = Some q"
  by (cases q) (simp_all add: Parm_from_str_def parm_names_def)

lemma Parm_iter_all: "set Parm_iter = UNIV" "distinct Parm_iter"
proof -
  have "q \<in> set Parm_iter" for q by (cases q) (simp_all add: Parm_iter_def)
  then show "set Parm_iter = UNIV" by auto
  show "distinct Parm_iter" by (simp add: Parm_iter_def)
qed

section \<open>Validated parameters\<close>

lemma check_Ok: "check b e = Ok u \<longleftrightarrow> \<not> b"
  by (simp add: check_def)

lemma valid_timeout_Ok: "valid_timeout now q s = Ok r \<Longrightarrow> r \<noteq> Some 0 \<and> (\<forall>t. r = Some t \<longrightarrow> t \<le> MAX_TIMEOUT \<and> now + t < instant_max)"
  by (auto simp: valid_timeout_def MAX_TIMEOUT_def Let_def split: if_splits)

lemma certhash_digits_Ok:
  "certhash_digits s = Ok ds \<Longrightarrow> list_all (\<lambda>c. is_ascii_digit c \<or> is_hex_lower c) ds"
proof (induction s arbitrary: ds)
  case (Cons c s)
  then show ?case
    by (auto simp: bindR_Ok_iff is_hex_lower_def is_hex_upper_def to_ascii_lowercase_def is_ascii_upper_def split: if_splits)
qed simp

lemma valid_certhash_Ok:
  "valid_certhash s = Ok ds \<Longrightarrow> 16 \<le> length ds \<and> length ds \<le> 64 \<and> list_all (\<lambda>c. is_ascii_digit c \<or> is_hex_lower c) ds"
  by (auto simp: valid_certhash_def bindR_Ok_iff certhash_digits_Ok split: option.splits if_splits)

text \<open>The checks a successful validation has passed.\<close>

lemma Validated_new_Ok:
  assumes "Validated_new now p = Ok v"
  obtains raw database port binary digits tz ct rt wt ot rs mp mr where
    "v = build_validated p raw database port binary digits tz ct rt wt ot rs mp mr" and "extract_parms p = Ok raw"
    and "str_of p PHost = [] \<or> str_of p PSock = []" and "binary_value (Parameters_get p PBinary) = Some binary"
    and "str_of p PSock = [] \<or> \<not> raw_tls raw"
    and "(if str_of p PCertHash = [] then Ok [] else valid_certhash (str_of p PCertHash)) = Ok digits"
    and "raw_tls raw \<or> str_of p PCertHash = []" and "valid_name PDatabase (str_of p PDatabase) = Ok database"
    and "valid_port (raw_port raw) = Ok port"
    and "raw_client_info raw \<Longrightarrow> CHR 0x0a \<notin> set (str_of p PClientApplication)"
    and "raw_client_info raw \<Longrightarrow> CHR 0x0a \<notin> set (str_of p PClientPrefix)"
    and "raw_client_info raw \<Longrightarrow> CHR 0x0a \<notin> set (str_of p PClientRemark)"
    and "valid_timeout now PConnectTimeout (raw_connect_timeout raw) = Ok ct" and "valid_timeout now PReadTimeout (raw_read_timeout raw) = Ok rt"
    and "valid_timeout now PWriteTimeout (raw_write_timeout raw) = Ok wt"
    and "valid_timeout now POperationTimeout (raw_operation_timeout raw) = Ok ot"
    and "valid_size PReplySize (raw_replysize raw) = Ok rs" and "valid_maxprefetch (raw_maxprefetch raw) = Ok mp"
    and "valid_size PMaxResponseSize (raw_max_response_size raw) = Ok mr" and "str_of p PLanguage = ''sql''"
  using assms [unfolded Validated_new_def Let_def bindR_Ok_iff check_Ok]
  by (elim exE conjE) (rule that, (blast | simp only: outcome.inject ok_or_Ok_iff)+)

text \<open>What later steps rely on.\<close>

lemma Validated_tls: "Validated_new now p = Ok v \<Longrightarrow> Parameters_get_bool PTls p = Ok (v_tls v)"
  by (erule Validated_new_Ok) (auto simp: extract_parms_def build_validated_def)

lemma Validated_unix: "Validated_new now p = Ok v \<Longrightarrow> v_tls v \<Longrightarrow> v_connect_unix v = []"
  by (erule Validated_new_Ok) (auto simp: build_validated_def derive_unix_def)

lemma Validated_sizes: "Validated_new now p = Ok v \<Longrightarrow> 0 < v_replysize v \<and> 0 < v_max_response_size v"
  by (erule Validated_new_Ok) (auto simp: build_validated_def valid_size_def split: if_splits)

lemma Validated_language: "Validated_new now p = Ok v \<Longrightarrow> v_language v = ''sql''"
  by (erule Validated_new_Ok) (simp add: build_validated_def)

section \<open>Properties\<close>

text \<open>C33. Validated parameters can be connected with: the port, the sizes and the timeouts are in the range of what they are
  used for; a way to connect always exists, and only one when a socket path or a host is given; TLS never goes over a Unix
  socket, and its verification is never switched off; a certificate hash has at least 16 lower-case hexadecimal digits
  and is the one that is verified; the database name needs no escaping, and no client information breaks its line.\<close>

theorem validated_connectable:
  assumes "Validated_new now p = Ok v"
  shows "1 \<le> v_connect_port v \<and> v_connect_port v \<le> 65535
    \<and> 0 < v_replysize v \<and> v_replysize v \<le> usize_max \<and> 0 < v_max_response_size v \<and> v_max_response_size v \<le> usize_max
    \<and> (\<forall>t\<in>{v_connect_timeout v, v_read_timeout v, v_write_timeout v, v_operation_timeout v}. t \<noteq> Some 0
         \<and> (\<forall>d. t = Some d \<longrightarrow> d \<le> MAX_TIMEOUT \<and> now + d < instant_max))
    \<and> (v_connect_unix v \<noteq> [] \<or> v_connect_tcp v \<noteq> [])
    \<and> (v_tls v \<longrightarrow> v_connect_unix v = [] \<and> v_connect_tcp v \<noteq> [] \<and> v_connect_tls_verify v \<noteq> VerifyOff)
    \<and> (str_of p PSock \<noteq> [] \<longrightarrow> v_connect_tcp v = []) \<and> (str_of p PHost \<noteq> [] \<longrightarrow> v_connect_unix v = [])
    \<and> (v_connect_certhash_digits v \<noteq> [] \<longrightarrow> 16 \<le> length (v_connect_certhash_digits v)
         \<and> list_all (\<lambda>c. is_ascii_digit c \<or> is_hex_lower c) (v_connect_certhash_digits v) \<and> v_connect_tls_verify v = VerifyHash)
    \<and> list_all name_char (v_database v) \<and> \<not> starts_with (v_database v) ''-''
    \<and> (v_client_info v \<longrightarrow> (\<forall>s\<in>{v_client_application v, v_client_prefix v, v_client_remark v}. CHR 0x0a \<notin> set s))"
  using assms
proof (cases rule: Validated_new_Ok)
  case (1 raw database port binary digits tz ct rt wt ot rs mp mr)
  have port: "1 \<le> port \<and> port \<le> 65535" using 1(9) by (auto simp: valid_port_def split: if_splits)
  have sizes: "0 < rs \<and> rs \<le> usize_max \<and> 0 < mr \<and> mr \<le> usize_max"
    using 1(17,19) by (auto simp: valid_size_def split: if_splits)
  have times: "\<forall>t\<in>{ct, rt, wt, ot}. t \<noteq> Some 0 \<and> (\<forall>d. t = Some d \<longrightarrow> d \<le> MAX_TIMEOUT \<and> now + d < instant_max)"
    using valid_timeout_Ok [OF 1(13)] valid_timeout_Ok [OF 1(14)] valid_timeout_Ok [OF 1(15)] valid_timeout_Ok [OF 1(16)] by simp
  have ways: "derive_unix p (raw_tls raw) port \<noteq> [] \<or> derive_tcp p \<noteq> []"
    "raw_tls raw \<longrightarrow> derive_unix p True port = [] \<and> derive_tcp p \<noteq> [] \<and> derive_tls_verify p True digits \<noteq> VerifyOff"
    "str_of p PSock \<noteq> [] \<longrightarrow> derive_tcp p = []" "str_of p PHost \<noteq> [] \<longrightarrow> derive_unix p (raw_tls raw) port = []"
    using 1(3,5) by (auto simp: derive_unix_def derive_tcp_def derive_tls_verify_def)
  have hash: "digits \<noteq> [] \<longrightarrow> 16 \<le> length digits \<and> list_all (\<lambda>c. is_ascii_digit c \<or> is_hex_lower c) digits
      \<and> derive_tls_verify p (raw_tls raw) digits = VerifyHash"
    using 1(6,7) valid_certhash_Ok [of "str_of p PCertHash" digits] by (auto simp: derive_tls_verify_def split: if_splits)
  have db: "list_all name_char database \<and> \<not> starts_with database ''-''" using 1(8) by (auto simp: valid_name_def split: if_splits)
  show ?thesis
    using port sizes times ways hash db 1(10-12) unfolding 1(1) build_validated_def by simp
qed

theorem validated_connectable_witness:
  "\<exists>v. Validated_new 0 DEFAULT_PARAMETERS = Ok v \<and> v_connect_port v = 50000 \<and> 0 < v_replysize v \<and> v_connect_tls_verify v = VerifyOff"
proof -
  have e: "extract_parms DEFAULT_PARAMETERS = Ok \<lparr>raw_port = - 1, raw_tls = False, raw_autocommit = True, raw_replysize = 200,
      raw_maxprefetch = 2500, raw_timezone = 0, raw_connect_timeout = 30, raw_read_timeout = 0, raw_write_timeout = 60,
      raw_operation_timeout = 0, raw_max_response_size = 1073741824, raw_client_info = True\<rparr>"
    by (simp add: extract_parms_def Parameters_get_int_def Parameters_get_bool_def default_value default_parameter_value_by_index_def)
  have "\<exists>v. Validated_new 0 DEFAULT_PARAMETERS = Ok v \<and> v_connect_port v = 50000 \<and> v_tls v = False"
    by (simp add: Validated_new_def e Let_def check_def default_value default_parameter_value_by_index_def binary_value_def
        parse_bool_def eq_ignore_ascii_case_def valid_name_def valid_port_def valid_timezone_def valid_timeout_def
        MAX_TIMEOUT_SECONDS_def instant_max_def valid_size_def valid_maxprefetch_def build_validated_def default_flags)
  then obtain v where v: "Validated_new 0 DEFAULT_PARAMETERS = Ok v" "v_connect_port v = 50000" "v_tls v = False" by blast
  moreover from v have "v_connect_tls_verify v = VerifyOff"
    by (cases rule: Validated_new_Ok [OF v(1)]) (simp add: build_validated_def derive_tls_verify_def)
  ultimately show ?thesis using validated_connectable [OF v(1)] by blast
qed

text \<open>User name and password belong together: when since the last boundary only one of them was set, the other goes
  back to its default, so that a password is never sent with a user name it was not given for; both stay as
  they are otherwise, and no other parameter changes.\<close>

theorem boundary_pairs_credentials:
  assumes "wf_params p"
  shows "\<exists>p'. boundary p = (Ok (), p') \<and> wf_params p' \<and> \<not> user_changed p' \<and> \<not> password_changed p'
    \<and> (\<forall>q. Parameters_get p' q =
        (if q = PPassword \<and> user_changed p \<and> \<not> password_changed p \<or> q = PUser \<and> password_changed p \<and> \<not> user_changed p
         then VStr [] else Parameters_get p q))"
proof -
  obtain p' where p': "boundary p = (Ok (), p')" "wf_params p'" "\<not> user_changed p'" "\<not> password_changed p'"
      "\<And>r. Parameters_get p' r = (if r = PPassword \<and> user_changed p \<and> \<not> password_changed p
          \<or> r = PUser \<and> password_changed p \<and> \<not> user_changed p then Parameters_get DEFAULT_PARAMETERS r else Parameters_get p r)"
    by (rule boundary_ok [OF assms]) (rule that, assumption+)
  have "Parameters_get DEFAULT_PARAMETERS PPassword = VStr []" "Parameters_get DEFAULT_PARAMETERS PUser = VStr []"
    by (simp_all add: default_value default_parameter_value_by_index_def)
  with p' show ?thesis by auto
qed

theorem boundary_pairs_credentials_witness:
  "\<exists>p'. boundary (DEFAULT_PARAMETERS\<lparr>user_changed := True\<rparr>) = (Ok (), p') \<and> Parameters_get p' PPassword = VStr []"
  using boundary_pairs_credentials [of "DEFAULT_PARAMETERS\<lparr>user_changed := True\<rparr>"] wf_default default_flags by auto

end
