(* ===== verification/Url.thy ===== *)
theory Url
  imports Parms Error_Text
begin

text \<open>
  URLs, \<open>src/parms/urlparser.rs\<close>, and the operations of \<open>Parameters\<close> that use them.

  The crate \<open>url\<close> is a parameter: a function from the text to the parts of the URL the code asks for, or the text of its
  error. A host that is an address is given with its text. Percent encoding, which is this code's own, and the standard
  library's parser for IPv6 addresses are modelled.
\<close>

section \<open>Model of the code: percent encoding\<close>

definition unhex :: "byte \<Rightarrow> (nat, ParmError) outcome" where
  "unhex digit =
     (if is_ascii_digit digit then Ok (byte_val digit - 48)
      else if is_hex_lower digit then Ok (byte_val digit - 97 + 10)
      else if is_hex_upper digit then Ok (byte_val digit - 65 + 10)
      else Err InvalidPercentEncoding)"

fun decode_loop :: "bytes \<Rightarrow> (bytes, ParmError) outcome" where
  "decode_loop [] = Ok []"
| "decode_loop (b # cs) =
     (if b \<noteq> CHR ''%'' then bindR (decode_loop cs) (\<lambda>buf. Ok (b # buf))
      else case cs of
          hi # lo # cs \<Rightarrow> bindR (unhex hi) (\<lambda>h. bindR (unhex lo) (\<lambda>l.
            bindR (decode_loop cs) (\<lambda>buf. Ok (byte_of (16 * h + l) # buf))))
        | _ \<Rightarrow> Err InvalidPercentEncoding)"

definition percent_decode :: "bytes \<Rightarrow> (bytes, ParmError) outcome" where
  "percent_decode s = (case first_index (\<lambda>c. c = CHR ''%'') s of
       None \<Rightarrow> Ok s
     | Some idx \<Rightarrow> bindR (decode_loop (drop idx s)) (\<lambda>buf.
         let buf = take idx s @ buf in if utf8_valid buf then Ok buf else Err InvalidPercentUtf8))"

definition is_safe :: "byte \<Rightarrow> bool" where
  "is_safe c \<longleftrightarrow> is_ascii_alphanumeric c \<or> c \<in> {CHR ''-'', CHR ''.'', CHR ''_'', CHR ''~''}"

definition hex_digit :: "nat \<Rightarrow> byte" where
  "hex_digit n = ''0123456789abcdef'' ! n"

fun percent_encode :: "bytes \<Rightarrow> bytes" where
  "percent_encode [] = []"
| "percent_encode (c # cs) =
     (if is_safe c then [c] else [CHR ''%'', hex_digit (byte_val c div 16), hex_digit (byte_val c mod 16)]) @ percent_encode cs"

section \<open>Model of the code: addresses\<close>

text \<open>The parser of the standard library, \<open>core::net::parser\<close>: each reader gives the rest of the text.\<close>

fun read_digits :: "(byte \<Rightarrow> nat option) \<Rightarrow> nat \<Rightarrow> nat \<Rightarrow> nat \<Rightarrow> nat \<Rightarrow> bytes \<Rightarrow> (nat \<times> nat \<times> bytes) option" where
  "read_digits dig radix bound n acc [] = Some (n, acc, [])"
| "read_digits dig radix bound n acc (c # cs) = (case dig c of
       None \<Rightarrow> Some (n, acc, c # cs)
     | Some d \<Rightarrow> if bound < acc * radix + d \<or> bound < acc * radix then None else read_digits dig radix bound (n + 1) (acc * radix + d) cs)"

definition dec_digit :: "byte \<Rightarrow> nat option" where
  "dec_digit c = (if is_ascii_digit c then Some (byte_val c - 48) else None)"

definition hex_val :: "byte \<Rightarrow> nat option" where
  "hex_val c = (case unhex c of Ok n \<Rightarrow> Some n | _ \<Rightarrow> None)"

definition read_number :: "(byte \<Rightarrow> nat option) \<Rightarrow> nat \<Rightarrow> nat \<Rightarrow> nat \<Rightarrow> bool \<Rightarrow> bytes \<Rightarrow> bytes option" where
  "read_number dig radix bound max_digits allow_zero_prefix s = (case read_digits dig radix bound 0 0 s of
       None \<Rightarrow> None
     | Some (n, v, rest) \<Rightarrow>
         if max_digits < n \<or> n = 0 then None
         else if \<not> allow_zero_prefix \<and> starts_with s ''0'' \<and> 1 < n then None
         else Some rest)"

definition read_separator :: "byte \<Rightarrow> nat \<Rightarrow> (bytes \<Rightarrow> bytes option) \<Rightarrow> bytes \<Rightarrow> bytes option" where
  "read_separator sep index rdr s = (if 0 < index then (case s of c # cs \<Rightarrow> if c = sep then rdr cs else None | [] \<Rightarrow> None) else rdr s)"

definition read_octet :: "bytes \<Rightarrow> bytes option" where
  "read_octet = read_number dec_digit 10 255 3 False"

definition read_ipv4_addr :: "bytes \<Rightarrow> bytes option" where
  "read_ipv4_addr s = Option.bind (read_separator (CHR ''.'') 0 read_octet s) (\<lambda>s.
     Option.bind (read_separator (CHR ''.'') 1 read_octet s) (\<lambda>s.
     Option.bind (read_separator (CHR ''.'') 2 read_octet s) (\<lambda>s. read_separator (CHR ''.'') 3 read_octet s)))"

text \<open>\<open>read_groups\<close>: how many of at most \<open>limit\<close> groups were read from group \<open>i\<close> on, and whether the last was an IPv4 address.\<close>

function read_groups :: "nat \<Rightarrow> nat \<Rightarrow> bytes \<Rightarrow> nat \<times> bool \<times> bytes" where
  "read_groups limit i s =
     (if limit \<le> i then (limit, False, s)
      else case (if i + 1 < limit then read_separator (CHR '':'') i read_ipv4_addr s else None) of
          Some rest \<Rightarrow> (i + 2, True, rest)
        | None \<Rightarrow> (case read_separator (CHR '':'') i (read_number hex_val 16 65535 4 True) s of
            Some rest \<Rightarrow> read_groups limit (i + 1) rest
          | None \<Rightarrow> (i, False, s)))"
  by pat_completeness auto
termination
  by (relation "measure (\<lambda>(limit, i, s). limit - i)") auto

declare read_groups.simps [simp del]

definition is_ipv6_addr :: "bytes \<Rightarrow> bool" where
  "is_ipv6_addr s = (case read_groups 8 0 s of (head_size, head_ipv4, rest) \<Rightarrow>
     if head_size = 8 then rest = []
     else if head_ipv4 then False
     else case strip_prefix rest ''::'' of
         None \<Rightarrow> False
       | Some rest \<Rightarrow> (case read_groups (8 - (head_size + 1)) 0 rest of (_, _, rest) \<Rightarrow> rest = []))"

section \<open>Model of the code: reading URLs\<close>

datatype url_host = Domain bytes | Ipv4 bytes | Ipv6 bytes

record parsed_url =
  u_username :: bytes
  u_password :: "bytes option"
  u_host :: "url_host option"
  u_host_str :: "bytes option"
  u_port :: "nat option"
  u_path :: bytes
  u_path_segments :: "bytes list option"
  u_query :: "bytes option"
  u_query_pairs :: "(bytes \<times> bytes) list"

type_synonym url_lib = "bytes \<Rightarrow> (parsed_url, bytes) outcome"

definition is_our_url :: "bytes \<Rightarrow> bool" where
  "is_our_url url \<longleftrightarrow> starts_with url ''monetdb://'' \<or> starts_with url ''monetdbs://'' \<or> starts_with url ''mapi:monetdb://''"

definition url_host_text :: "url_host option \<Rightarrow> (bytes, ParmError) outcome" where
  "url_host_text h = (case h of
       None \<Rightarrow> Ok []
     | Some (Domain name) \<Rightarrow> bindR (percent_decode name) (\<lambda>d.
         Ok (if d = ''localhost'' then [] else if d = ''localhost.'' then ''localhost'' else d))
     | Some (Ipv4 ip) \<Rightarrow> Ok ip
     | Some (Ipv6 ip) \<Rightarrow> Ok ip)"

fun set_path :: "texts \<Rightarrow> Parm list \<Rightarrow> bytes list \<Rightarrow> setting" where
  "set_path X qs [] p = (Ok (), p)"
| "set_path X [] (unexpected # segs) p = (Err (InvalidUrl (''invalid path component '' @ tx_debug_str X unexpected)), p)"
| "set_path X (q # qs) (seg # segs) p =
     bindS (percent_decode seg, p) (\<lambda>v p. bindS (Parameters_set q (VStr v) p) (\<lambda>_ p. set_path X qs segs p))"

fun set_query :: "(bytes \<times> bytes) list \<Rightarrow> setting" where
  "set_query [] p = (Ok (), p)"
| "set_query ((k, v) # kvs) p = (case Parm_from_str k of
       None \<Rightarrow> if Parm_ignored k then set_query kvs p else (Err (UnknownParameter k), p)
     | Some parm \<Rightarrow> if is_core parm then (Err (NotAllowedAsQuery parm), p)
         else bindS (Parameters_set parm (VStr v) p) (\<lambda>_ p. set_query kvs p))"

definition set_url_port :: "nat option \<Rightarrow> setting" where
  "set_url_port port p = Parameters_set PPort (case port of Some n \<Rightarrow> VInt (int n) | None \<Rightarrow> VInt (- 1)) p"

definition parse_monetdb_url :: "url_lib \<Rightarrow> texts \<Rightarrow> bool \<Rightarrow> bytes \<Rightarrow> setting" where
  "parse_monetdb_url U X use_tls url p =
     bindS (map_err InvalidUrl (U url), p) (\<lambda>parsed p.
     if u_username parsed \<noteq> [] \<or> u_password parsed \<noteq> None then
       (Err (InvalidUrl ''user information is not allowed after ://; use ?user= and &password=''), p)
     else
     bindS (Parameters_set_tls use_tls p) (\<lambda>_ p.
     bindS (url_host_text (u_host parsed), p) (\<lambda>host p.
     bindS (Parameters_set PHost (VStr host) p) (\<lambda>_ p.
     bindS (set_url_port (u_port parsed) p) (\<lambda>_ p.
     bindS (case u_path_segments parsed of
              None \<Rightarrow> (Ok (), p)
            | Some segs \<Rightarrow> set_path X [PDatabase, PTableSchema, PTable] segs p) (\<lambda>_ p.
       set_query (u_query_pairs parsed) p))))))"

text \<open>The query of a legacy URL is not decoded; only two of its names matter.\<close>

fun set_legacy_query :: "bytes list \<Rightarrow> setting" where
  "set_legacy_query [] p = (Ok (), p)"
| "set_legacy_query (x # xs) p =
     bindS (case split_once ''='' x of
         None \<Rightarrow> (Ok (), p)
       | Some (k, v) \<Rightarrow> if k = ''language'' then Parameters_set PLanguage (VStr v) p
           else if k = ''database'' then Parameters_set PDatabase (VStr v) p else (Ok (), p))
       (\<lambda>_ p. set_legacy_query xs p)"

definition legacy_database :: "texts \<Rightarrow> bytes list option \<Rightarrow> (bytes, ParmError) outcome" where
  "legacy_database X segs = (case segs of
       Some (db # unexpected # _) \<Rightarrow> Err (InvalidUrl (''invalid path component '' @ tx_debug_str X unexpected))
     | Some [db] \<Rightarrow> Ok db
     | _ \<Rightarrow> Ok [])"

definition parse_legacy_url :: "url_lib \<Rightarrow> texts \<Rightarrow> bytes \<Rightarrow> setting" where
  "parse_legacy_url U X url p =
     bindS (map_err InvalidUrl (U (drop 5 url)), p) (\<lambda>parsed p.
     if u_username parsed \<noteq> [] \<or> u_password parsed \<noteq> None then
       (Err (InvalidUrl ''no user name or password allowed after the ://, use ?user= and password= instead''), p)
     else
     bindS (case u_host_str parsed of
         Some host \<Rightarrow>
           bindS (Parameters_set PHost (VStr host) p) (\<lambda>_ p.
           bindS (Parameters_set PSock (VStr []) p) (\<lambda>_ p.
           bindS (legacy_database X (u_path_segments parsed), p) (\<lambda>database p.
             Parameters_set PDatabase (VStr database) p)))
       | None \<Rightarrow>
           bindS (Parameters_set PHost (VStr []) p) (\<lambda>_ p.
           bindS (Parameters_set PSock (VStr (u_path parsed)) p) (\<lambda>_ p.
             Parameters_set PDatabase (VStr []) p))) (\<lambda>_ p.
     bindS (set_url_port (u_port parsed) p) (\<lambda>_ p.
     case u_query parsed of
       None \<Rightarrow> (Ok (), p)
     | Some query \<Rightarrow> set_legacy_query (split_on (CHR ''&'') query) p)))"

definition parse_any_url :: "url_lib \<Rightarrow> texts \<Rightarrow> bytes \<Rightarrow> setting" where
  "parse_any_url U X url p =
     (if starts_with url ''monetdb://'' then parse_monetdb_url U X False url p
      else if starts_with url ''monetdbs://'' then parse_monetdb_url U X True url p
      else if starts_with url ''mapi:monetdb://'' then parse_legacy_url U X url p
      else (Err (InvalidUrl ''must start with monetdb://, monetdbs:// or mapi:monetdb://''), p))"

definition apply_url :: "url_lib \<Rightarrow> texts \<Rightarrow> bytes \<Rightarrow> setting" where
  "apply_url U X url p =
     (case bindS (boundary p) (\<lambda>_ updated. bindS (parse_any_url U X url updated) (\<lambda>_ updated. boundary updated)) of
        (Ok _, updated) \<Rightarrow> (Ok (), updated)
      | (res, _) \<Rightarrow> (res, p))"

definition from_url :: "url_lib \<Rightarrow> texts \<Rightarrow> bytes \<Rightarrow> (Parameters, ParmError) outcome" where
  "from_url U X url = (case apply_url U X url DEFAULT_PARAMETERS of (res, p) \<Rightarrow> bindR res (\<lambda>_. Ok p))"

definition Parameters_basic :: "url_lib \<Rightarrow> texts \<Rightarrow> bytes \<Rightarrow> bytes \<Rightarrow> bytes \<Rightarrow> (Parameters, ParmError) outcome" where
  "Parameters_basic U X database user password =
     (case bindS (if is_our_url database then apply_url U X database DEFAULT_PARAMETERS
                  else Parameters_set PDatabase (VStr database) DEFAULT_PARAMETERS) (\<lambda>_ p.
           bindS (if user \<noteq> [] then Parameters_set PUser (VStr user) p else (Ok (), p)) (\<lambda>_ p.
           bindS (if password \<noteq> [] then Parameters_set PPassword (VStr password) p else (Ok (), p)) (\<lambda>_ p.
             boundary p))) of
        (res, p) \<Rightarrow> bindR res (\<lambda>_. Ok p))"

section \<open>Model of the code: writing URLs\<close>

fun query_text :: "byte \<Rightarrow> Parameters \<Rightarrow> Parm list \<Rightarrow> bytes" where
  "query_text sep p [] = []"
| "query_text sep p (q # qs) =
     (if is_core q \<or> is_default q p then query_text sep p qs
      else [sep] @ Parm_as_str q @ ''='' @ percent_encode (str_of p q) @ query_text (CHR ''&'') p qs)"

definition host_text :: "Parameters \<Rightarrow> int option \<Rightarrow> bytes" where
  "host_text p port =
     (let host = str_of p PHost;
          host = (if host = ''localhost'' then [] else host);
          host = (if port \<noteq> None \<and> host = [] then ''localhost'' else host)
      in if is_ipv6_addr host then ''['' @ host @ '']'' else percent_encode host)"

definition path_text :: "Parameters \<Rightarrow> bytes" where
  "path_text p =
     (let database = str_of p PDatabase; tableschema = str_of p PTableSchema; table = str_of p PTable in
      (if database \<noteq> [] \<or> tableschema \<noteq> [] \<or> table \<noteq> [] then ''/'' @ percent_encode database else [])
      @ (if tableschema \<noteq> [] \<or> table \<noteq> [] then ''/'' @ percent_encode tableschema else [])
      @ (if table \<noteq> [] then ''/'' @ percent_encode table else []))"

definition url_from_parms :: "Parameters \<Rightarrow> Parm list \<Rightarrow> (bytes, ParmError) outcome" where
  "url_from_parms p selection =
     bindR (Parameters_get_bool PTls p) (\<lambda>tls.
     bindR (Parameters_get_int PPort p) (\<lambda>n.
     let port = (if n = - 1 \<or> n = 50000 then None else Some n) in
       Ok ((if tls then ''monetdbs'' else ''monetdb'') @ ''://'' @ host_text p port
         @ (case port of None \<Rightarrow> [] | Some n \<Rightarrow> '':'' @ show_int n) @ path_text p @ query_text (CHR ''?'') p selection)))"

definition url_with_credentials :: "Parameters \<Rightarrow> (bytes, ParmError) outcome" where
  "url_with_credentials p = url_from_parms p Parm_iter"

definition url_without_credentials :: "Parameters \<Rightarrow> (bytes, ParmError) outcome" where
  "url_without_credentials p = url_from_parms p (filter (\<lambda>q. \<not> is_sensitive q) Parm_iter)"

section \<open>Percent encoding\<close>

lemma unhex_hex_digit: "n < 16 \<Longrightarrow> unhex (hex_digit n) = Ok n"
proof -
  assume "n < 16"
  then have "n \<in> set [0..<16]" by simp
  then show ?thesis
    by (auto simp: hex_digit_def unhex_def is_ascii_digit_def is_hex_lower_def is_hex_upper_def upt_conv_Cons eval_nat_numeral)
qed

lemma high_digit: "byte_val c div 16 < 16"
  using byte_val_less [of c] less_mult_imp_div_less [of "byte_val c" 16 16] by simp

lemma decode_plain: "CHR ''%'' \<notin> set a \<Longrightarrow> decode_loop (a @ b) = bindR (decode_loop b) (\<lambda>d. Ok (a @ d))"
proof (induction a)
  case Nil
  show ?case by (cases "decode_loop b") simp_all
next
  case (Cons c a)
  then show ?case by (cases "decode_loop b") auto
qed

lemma is_safe_percent: "is_safe c \<Longrightarrow> c \<noteq> CHR ''%''"
  by (auto simp: is_safe_def is_ascii_alphanumeric_def is_ascii_digit_def is_ascii_lower_def is_ascii_upper_def)

lemma decode_encode: "decode_loop (percent_encode s @ t) = bindR (decode_loop t) (\<lambda>d. Ok (s @ d))"
proof (induction s)
  case Nil
  show ?case by (cases "decode_loop t") simp_all
next
  case (Cons c s)
  have h: "unhex (hex_digit (byte_val c div 16)) = Ok (byte_val c div 16)" "unhex (hex_digit (byte_val c mod 16)) = Ok (byte_val c mod 16)"
    using high_digit [of c] by (simp_all add: unhex_hex_digit)
  from Cons.IH h is_safe_percent [of c] show ?case
    by (cases "decode_loop t") auto
qed

lemma first_index_take: "first_index P s = Some i \<Longrightarrow> (\<forall>c\<in>set (take i s). \<not> P c) \<and> i \<le> length s"
  by (induction P s arbitrary: i rule: first_index.induct) (auto split: if_splits option.splits)

lemma first_index_none: "first_index P s = None \<Longrightarrow> \<forall>c\<in>set s. \<not> P c"
  by (induction P s rule: first_index.induct) (auto split: if_splits option.splits)

text \<open>The shortcut for text without a percent sign changes nothing but the check of the encoding.\<close>

lemma percent_decode_loop:
  assumes "decode_loop s = Ok d" and "utf8_valid d"
  shows "percent_decode s = Ok d"
proof (cases "first_index (\<lambda>c. c = CHR ''%'') s")
  case None
  then have "CHR ''%'' \<notin> set s" using first_index_none [OF None] by auto
  with decode_plain [of s "[]"] assms(1) show ?thesis by (simp add: percent_decode_def None)
next
  case (Some i)
  then have "CHR ''%'' \<notin> set (take i s)" using first_index_take [OF Some] by auto
  from decode_plain [OF this, of "drop i s"] assms(1) have "bindR (decode_loop (drop i s)) (\<lambda>d. Ok (take i s @ d)) = Ok d" by simp
  with assms(2) show ?thesis by (cases "decode_loop (drop i s)") (auto simp: percent_decode_def Some Let_def)
qed

section \<open>Properties\<close>

text \<open>Percent encoding is safe and loses nothing: the encoded text consists of unreserved characters and percent signs, so
  that no part of it can end a component of the URL, and decoding it gives the text back.\<close>

theorem percent_roundtrip:
  assumes "utf8_valid s"
  shows "percent_decode (percent_encode s) = Ok s \<and> (\<forall>c\<in>set (percent_encode s). is_safe c \<or> c = CHR ''%'')"
proof
  show "percent_decode (percent_encode s) = Ok s"
    using percent_decode_loop [OF _ assms] decode_encode [of s "[]"] by simp
  have "is_safe (hex_digit n)" if "n < 16" for n
  proof -
    have "n \<in> set [0..<16]" using that by simp
    then show ?thesis
      by (auto simp: hex_digit_def is_safe_def is_ascii_alphanumeric_def is_ascii_digit_def is_ascii_lower_def upt_conv_Cons eval_nat_numeral)
  qed
  then show "\<forall>c\<in>set (percent_encode s). is_safe c \<or> c = CHR ''%''"
    using high_digit by (induction s) auto
qed

theorem percent_roundtrip_witness: "percent_decode (percent_encode ''a&b=c?/+#'') = Ok ''a&b=c?/+#''"
  using percent_roundtrip [of "''a&b=c?/+#''"] by (simp add: utf8_step_def)

text \<open>The URL without credentials reveals nothing of them: it is the same for all user names and passwords.\<close>

theorem url_hides_credentials:
  assumes "\<forall>q. q \<noteq> PUser \<and> q \<noteq> PPassword \<longrightarrow> Parameters_get p' q = Parameters_get p q"
  shows "url_without_credentials p' = url_without_credentials p"
proof -
  have eq: "Parameters_get p' q = Parameters_get p q" if "\<not> is_sensitive q" for q
    using assms that by (auto simp: is_sensitive_def)
  have "query_text sep p' qs = query_text sep p qs" if "\<forall>q\<in>set qs. \<not> is_sensitive q" for sep qs
    using that by (induction qs arbitrary: sep) (auto simp: is_default_def eq)
  then have "query_text (CHR ''?'') p' (filter (\<lambda>q. \<not> is_sensitive q) Parm_iter)
      = query_text (CHR ''?'') p (filter (\<lambda>q. \<not> is_sensitive q) Parm_iter)" by simp
  moreover have "\<not> is_sensitive q" if "is_core q" for q using that by (auto simp: is_core_def is_sensitive_def)
  then have "Parameters_get p' q = Parameters_get p q" if "is_core q" for q using that eq by blast
  then have "Parameters_get p' PTls = Parameters_get p PTls" "Parameters_get p' PPort = Parameters_get p PPort"
    "Parameters_get p' PHost = Parameters_get p PHost" "Parameters_get p' PDatabase = Parameters_get p PDatabase"
    "Parameters_get p' PTableSchema = Parameters_get p PTableSchema" "Parameters_get p' PTable = Parameters_get p PTable"
    by (simp_all add: is_core_def)
  ultimately show ?thesis
    by (simp add: url_without_credentials_def url_from_parms_def Parameters_get_bool_def Parameters_get_int_def host_text_def path_text_def)
qed

theorem url_hides_credentials_witness:
  "url_without_credentials (Parameters_put PPassword (VStr ''secret'') DEFAULT_PARAMETERS) = url_without_credentials DEFAULT_PARAMETERS"
  by (rule url_hides_credentials) (simp add: params.get_put wf_default)

end
