(* ===== verification/Connect_Socket.thy ===== *)
theory Connect_Socket
  imports Conn Url
begin

text \<open>
  Opening a socket to the server: the first half of \<open>src/framing/connecting.rs\<close> and \<open>src/framing/tls/rustls.rs\<close>.

  The record \<open>net\<close> holds the operations of the operating system, of the standard library's threads and of the crates
  \<open>rustls\<close>, \<open>sha2\<close>, \<open>hex\<close> and \<open>gethostname\<close> that connecting uses. They act on a state \<open>'w\<close> of the outside world.
  Every stream the crate can talk over, TLS included, is a transport state \<open>'t\<close>. What is only logged is left out, and so is
  \<open>set_nodelay\<close>, whose failure is only logged.
\<close>

section \<open>Model of the code: errors\<close>

datatype ConnectError =
    CParm ParmError
  | CIO IoError
  | CTimeout
  | CUtf
  | InvalidChallenge bytes
  | UnsupportedHashAlgo bytes
  | TlsNotSupported
  | TlsDowngrade
  | TlsError bytes
  | OnlySqlSupported
  | TooManyRedirects
  | Rejected bytes
  | UnexpectedResponse bytes
  | UnixDomain
  | SocketAttempts ConnectError ConnectError

text \<open>\<open>From<io::Error>\<close>\<close>

definition ConnectError_from :: "IoError \<Rightarrow> ConnectError" where
  "ConnectError_from e = (if io_kind e = TimedOut then CTimeout else CIO e)"

abbreviation connect_io :: "('a, IoError) outcome \<Rightarrow> ('a, ConnectError) outcome" where
  "connect_io \<equiv> map_err ConnectError_from"

section \<open>Model of the code: the outside world\<close>

text \<open>What becomes of a worker thread that is given some time for a call.\<close>

datatype worker_fate = Delivered | Late | Stopped | NotSpawned IoError

text \<open>The configuration of a TLS client, as \<open>wrap_inner\<close> builds it.\<close>

datatype tls_verifier = PlatformVerifier | RootCertificates "bytes list" | HashVerifier bytes

record tls_config =
  tc_versions :: "bytes list"
  tc_verifier :: tls_verifier
  tc_client_auth :: "(bytes list \<times> bytes) option"
  tc_alpn :: "bytes list"

text \<open>The crate \<open>rustls\<close>; errors are their texts. \<open>tls_client\<close> makes the client connection and its stream over the socket.\<close>

record ('t, 'w) tls_lib =
  tls_platform_verifier :: "(unit, bytes) outcome"
  tls_pem_certificates :: "bytes \<Rightarrow> 'w \<Rightarrow> (bytes list, bytes) outcome"
  tls_add_root :: "bytes \<Rightarrow> (unit, bytes) outcome"
  tls_pem_key :: "bytes \<Rightarrow> 'w \<Rightarrow> (bytes, bytes) outcome"
  tls_client_auth :: "bytes list \<Rightarrow> bytes \<Rightarrow> (unit, bytes) outcome"
  tls_server_name :: "bytes \<Rightarrow> (unit, bytes) outcome"
  tls_client :: "tls_config \<Rightarrow> bytes \<Rightarrow> 't ServerSock \<Rightarrow> ('t, bytes) outcome"

record ('t, 'a, 'w) net =
  net_now :: "'w \<Rightarrow> nat \<times> 'w"
  net_worker :: "nat \<Rightarrow> 'w \<Rightarrow> worker_fate \<times> 'w"
  net_unix :: "(bytes \<Rightarrow> 'w \<Rightarrow> ('t, IoError) outcome \<times> 'w) option"
  net_resolve :: "bytes \<Rightarrow> nat \<Rightarrow> 'w \<Rightarrow> ('a list, IoError) outcome \<times> 'w"
  net_tcp :: "'a \<Rightarrow> nat option \<Rightarrow> 'w \<Rightarrow> ('t, IoError) outcome \<times> 'w"
  net_clone :: "'t \<Rightarrow> (unit, IoError) outcome"
  net_tls :: "('t, 'w) tls_lib option"
  net_offset :: "(int, bytes) outcome option"
  net_digest :: "bytes \<Rightarrow> bytes \<Rightarrow> bytes"
  net_hex :: "bytes \<Rightarrow> bytes"
  net_hostname :: bytes
  net_program :: bytes
  net_pid :: nat
  net_public_name :: bytes
  net_texts :: texts

section \<open>Model of the code: the deadline\<close>

type_synonym ConnectionDeadline = "nat option"

definition ConnectionDeadline_new :: "('t, 'a, 'w) net \<Rightarrow> nat option \<Rightarrow> 'w \<Rightarrow> ConnectionDeadline \<times> 'w" where
  "ConnectionDeadline_new N timeout w = (case net_now N w of (now, w) \<Rightarrow>
     (case timeout of
        None \<Rightarrow> None
      | Some timeout \<Rightarrow> if instant_max \<le> now + timeout then None else Some (now + timeout), w))"

definition ConnectionDeadline_remaining ::
  "('t, 'a, 'w) net \<Rightarrow> ConnectionDeadline \<Rightarrow> 'w \<Rightarrow> (nat option, ConnectError) outcome \<times> 'w" where
  "ConnectionDeadline_remaining N deadline w = (case deadline of
       None \<Rightarrow> (Ok None, w)
     | Some deadline \<Rightarrow> (case net_now N w of (now, w) \<Rightarrow>
         (if deadline < now then Err CTimeout else Ok (Some (deadline - now)), w)))"

definition run_io_with_deadline :: "('t, 'a, 'w) net \<Rightarrow> ConnectionDeadline \<Rightarrow> bytes \<Rightarrow> ('w \<Rightarrow> ('x, IoError) outcome \<times> 'w)
    \<Rightarrow> 'w \<Rightarrow> ('x, ConnectError) outcome \<times> 'w" where
  "run_io_with_deadline N deadline thread_name operation w =
     bindS (ConnectionDeadline_remaining N deadline w) (\<lambda>remaining w. case remaining of
         None \<Rightarrow> (case operation w of (res, w) \<Rightarrow> (connect_io res, w))
       | Some remaining \<Rightarrow> (case net_worker N remaining w of
             (NotSpawned e, w) \<Rightarrow> (Err (ConnectError_from e), w)
           | (Delivered, w) \<Rightarrow> (case operation w of (res, w) \<Rightarrow> (connect_io res, w))
           | (Late, w) \<Rightarrow> (Err CTimeout, w)
           | (Stopped, w) \<Rightarrow>
               (Err (ConnectError_from (IoText OtherKind (thread_name @ '' worker stopped without a result''))), w)))"

section \<open>Model of the code: TLS\<close>

definition load_certificates :: "('t, 'w) tls_lib \<Rightarrow> texts \<Rightarrow> bytes \<Rightarrow> 'w \<Rightarrow> (bytes list, bytes) outcome" where
  "load_certificates R X path w =
     bindR (tls_pem_certificates R path w) (\<lambda>certificates.
       if certificates = [] then Err (''certificate file '' @ tx_debug_str X path @ '' contains no certificates'')
       else Ok certificates)"

fun add_roots :: "('t, 'w) tls_lib \<Rightarrow> bytes list \<Rightarrow> bytes list \<Rightarrow> (bytes list, bytes) outcome" where
  "add_roots R roots [] = Ok roots"
| "add_roots R roots (c # cs) = bindR (tls_add_root R c) (\<lambda>_. add_roots R (roots @ [c]) cs)"

definition load_roots :: "('t, 'w) tls_lib \<Rightarrow> texts \<Rightarrow> bytes \<Rightarrow> 'w \<Rightarrow> (bytes list, bytes) outcome" where
  "load_roots R X path w = bindR (load_certificates R X path w) (\<lambda>certificates. add_roots R [] certificates)"

definition load_private_key :: "('t, 'w) tls_lib \<Rightarrow> bytes \<Rightarrow> 'w \<Rightarrow> (bytes, bytes) outcome" where
  "load_private_key R path w = tls_pem_key R path w"

definition tls_verification :: "('t, 'w) tls_lib \<Rightarrow> texts \<Rightarrow> Validated \<Rightarrow> 'w \<Rightarrow> (tls_verifier, bytes) outcome" where
  "tls_verification R X v w = (case v_connect_tls_verify v of
       VerifySystem \<Rightarrow> bindR (tls_platform_verifier R) (\<lambda>_. Ok PlatformVerifier)
     | VerifyCert \<Rightarrow> bindR (load_roots R X (v_cert v) w) (\<lambda>roots. Ok (RootCertificates roots))
     | VerifyHash \<Rightarrow> Ok (HashVerifier (v_connect_certhash_digits v))
     | VerifyOff \<Rightarrow> Err ''TLS verification mode is off'')"

definition tls_authentication :: "('t, 'w) tls_lib \<Rightarrow> texts \<Rightarrow> Validated \<Rightarrow> 'w \<Rightarrow> ((bytes list \<times> bytes) option, bytes) outcome" where
  "tls_authentication R X v w =
     (if v_connect_clientkey v = [] then Ok None
      else bindR (load_certificates R X (v_connect_clientcert v) w) (\<lambda>certificates.
           bindR (load_private_key R (v_connect_clientkey v) w) (\<lambda>key.
           bindR (tls_client_auth R certificates key) (\<lambda>_. Ok (Some (certificates, key))))))"

definition wrap_inner :: "('t, 'w) tls_lib \<Rightarrow> texts \<Rightarrow> Validated \<Rightarrow> 't ServerSock \<Rightarrow> 'w \<Rightarrow> ('t ServerSock, bytes) outcome" where
  "wrap_inner R X v sock w =
     bindR (tls_verification R X v w) (\<lambda>verifier.
     bindR (tls_authentication R X v w) (\<lambda>client_auth.
     let config = \<lparr>tc_versions = [''TLS13''], tc_verifier = verifier, tc_client_auth = client_auth, tc_alpn = [''mapi/9'']\<rparr> in
     bindR (tls_server_name R (v_connect_tcp v)) (\<lambda>_.
     bindR (tls_client R config (v_connect_tcp v) sock) (\<lambda>stream.
       Ok (ServerSock_wrap stream (control sock))))))"

definition wrap_with_rustls :: "('t, 'w) tls_lib \<Rightarrow> texts \<Rightarrow> Validated \<Rightarrow> 't ServerSock \<Rightarrow> 'w \<Rightarrow> ('t ServerSock, ConnectError) outcome" where
  "wrap_with_rustls R X v sock w = map_err TlsError (wrap_inner R X v sock w)"

text \<open>The certificate check of \<open>HashVerifier\<close>: whether the certificate is accepted.\<close>

definition verify_server_cert :: "('t, 'a, 'w) net \<Rightarrow> bytes \<Rightarrow> bytes \<Rightarrow> bool" where
  "verify_server_cert N required_prefix end_entity \<longleftrightarrow>
     starts_with (net_hex N (net_digest N ''SHA256'' end_entity)) required_prefix"

section \<open>Model of the code: sockets\<close>

definition Timeouts_from_validated :: "Validated \<Rightarrow> Timeouts" where
  "Timeouts_from_validated v = \<lparr>t_read = v_read_timeout v, t_write = v_write_timeout v, t_operation = v_operation_timeout v\<rparr>"

definition connect_unix_socket :: "('t, 'a, 'w) net \<Rightarrow> ('t, 'z) env_scheme \<Rightarrow> Validated \<Rightarrow> ConnectionDeadline \<Rightarrow> 'w
    \<Rightarrow> ('t ServerSock, ConnectError) outcome \<times> 'w" where
  "connect_unix_socket N E v deadline w = (case net_unix N of
       None \<Rightarrow> (Err UnixDomain, w)
     | Some connect \<Rightarrow>
         bindS (run_io_with_deadline N deadline ''monetdb-unix-connect'' (connect (v_connect_unix v)) w) (\<lambda>s w.
         bindS (connect_io (ServerSock_from_unix (net_clone N s) s (Timeouts_from_validated v) deadline), w) (\<lambda>sock w.
         case write_all (ServerSock_write (env_T E)) (env_F E) ''0'' sock of (res, sock) \<Rightarrow>
           (bindR (connect_io res) (\<lambda>_. Ok sock), w))))"

definition resolve_tcp_addresses :: "('t, 'a, 'w) net \<Rightarrow> bytes \<Rightarrow> nat \<Rightarrow> ConnectionDeadline \<Rightarrow> 'w
    \<Rightarrow> ('a list, ConnectError) outcome \<times> 'w" where
  "resolve_tcp_addresses N host port deadline w =
     run_io_with_deadline N deadline ''monetdb-dns-resolution'' (net_resolve N host port) w"

text \<open>The last argument before the state is the error of the last attempt.\<close>

fun connect_tcp_addresses :: "('t, 'a, 'w) net \<Rightarrow> 'a list \<Rightarrow> ConnectionDeadline \<Rightarrow> ('a \<Rightarrow> nat option \<Rightarrow> 'w \<Rightarrow> ('t, IoError) outcome \<times> 'w)
    \<Rightarrow> IoError option \<Rightarrow> 'w \<Rightarrow> ('t option, ConnectError) outcome \<times> 'w" where
  "connect_tcp_addresses N [] deadline connect err w =
     ((case err of Some e \<Rightarrow> Err (ConnectError_from e) | None \<Rightarrow> Ok None), w)"
| "connect_tcp_addresses N (address # addresses) deadline connect err w =
     bindS (ConnectionDeadline_remaining N deadline w) (\<lambda>remaining w. case connect address remaining w of
         (Err e, w) \<Rightarrow> connect_tcp_addresses N addresses deadline connect (Some e) w
       | (Ok value, w) \<Rightarrow> (Ok (Some value), w)
       | (Panic, w) \<Rightarrow> (Panic, w)
       | (NoFuel, w) \<Rightarrow> (NoFuel, w))"

definition connect_tcp_socket :: "('t, 'a, 'w) net \<Rightarrow> Validated \<Rightarrow> ConnectionDeadline \<Rightarrow> 'w
    \<Rightarrow> ('t ServerSock, ConnectError) outcome \<times> 'w" where
  "connect_tcp_socket N v deadline w =
     bindS (resolve_tcp_addresses N (v_connect_tcp v) (v_connect_port v) deadline w) (\<lambda>addresses w.
     bindS (connect_tcp_addresses N addresses deadline (net_tcp N) None w) (\<lambda>connected w. case connected of
         None \<Rightarrow> (Err (ConnectError_from (IoText NotFound (''no ip addresses for '' @ [CHR 0x27] @ v_connect_tcp v @ [CHR 0x27]))), w)
       | Some s \<Rightarrow> (connect_io (ServerSock_from_tcp (net_clone N s) s (Timeouts_from_validated v) deadline), w)))"

definition wrap_tls :: "('t, 'a, 'w) net \<Rightarrow> ('t, 'z) env_scheme \<Rightarrow> Validated \<Rightarrow> 't ServerSock \<Rightarrow> 'w
    \<Rightarrow> ('t ServerSock, ConnectError) outcome" where
  "wrap_tls N E v sock w =
     (if \<not> v_tls v then
        (case write_all (ServerSock_write (env_T E)) (env_F E) (replicate 8 (byte_of 0)) sock of (res, sock) \<Rightarrow>
           bindR (connect_io res) (\<lambda>_. Ok sock))
      else case net_tls N of
          Some R \<Rightarrow> wrap_with_rustls R (net_texts N) v sock w
        | None \<Rightarrow> Err TlsNotSupported)"

definition connect_over_tcp :: "('t, 'a, 'w) net \<Rightarrow> ('t, 'z) env_scheme \<Rightarrow> Validated \<Rightarrow> ConnectionDeadline
    \<Rightarrow> ConnectError option \<Rightarrow> 'w \<Rightarrow> ('t ServerSock, ConnectError) outcome \<times> 'w" where
  "connect_over_tcp N E v deadline unix_error w =
     (if v_connect_tcp v \<noteq> [] then
        (case connect_tcp_socket N v deadline w of
           (Ok s, w) \<Rightarrow> (wrap_tls N E v s w, w)
         | (Err tcp, w) \<Rightarrow> (Err (case unix_error of Some unix \<Rightarrow> SocketAttempts unix tcp | None \<Rightarrow> tcp), w)
         | (Panic, w) \<Rightarrow> (Panic, w)
         | (NoFuel, w) \<Rightarrow> (NoFuel, w))
      else (Err (case unix_error of Some unix \<Rightarrow> unix
              | None \<Rightarrow> ConnectError_from (IoText InvalidInput ''no connection address configured'')), w))"

definition connect_socket :: "('t, 'a, 'w) net \<Rightarrow> ('t, 'z) env_scheme \<Rightarrow> Validated \<Rightarrow> ConnectionDeadline \<Rightarrow> 'w
    \<Rightarrow> ('t ServerSock, ConnectError) outcome \<times> 'w" where
  "connect_socket N E v deadline w =
     (if v_connect_unix v \<noteq> [] then
        (case connect_unix_socket N E v deadline w of
           (Err e, w) \<Rightarrow> connect_over_tcp N E v deadline (Some e) w
         | (res, w) \<Rightarrow> (res, w))
      else connect_over_tcp N E v deadline None w)"

section \<open>A small world\<close>

text \<open>For the examples: a clock that advances with every reading, one address, a given stream behind it, no Unix domain
  sockets and no TLS; the digest of a text is the text itself.\<close>

definition hex_text :: "bytes \<Rightarrow> bytes" where
  "hex_text s = concat (map (\<lambda>c. [hex_digit (byte_val c div 16), hex_digit (byte_val c mod 16)]) s)"

definition example_texts :: texts where
  "example_texts = \<lparr>tx_io = (\<lambda>_. ''i/o error''), tx_conv = (\<lambda>_. ''conversion error''), tx_debug_char = (\<lambda>c. [c]), tx_debug_str = (\<lambda>s. s)\<rparr>"

definition example_script :: script where
  "example_script = \<lparr>clock = 0, events = [], allowances = [], sent = []\<rparr>"

definition example_net :: "script \<Rightarrow> (script, nat, nat) net" where
  "example_net stream = \<lparr>net_now = (\<lambda>w. (w, w + 1)), net_worker = (\<lambda>_ w. (Delivered, w)), net_unix = None,
     net_resolve = (\<lambda>_ _ w. (Ok [0], w)), net_tcp = (\<lambda>_ _ w. (Ok stream, w)), net_clone = (\<lambda>_. Ok ()), net_tls = None,
     net_offset = None, net_digest = (\<lambda>_ s. s), net_hex = hex_text, net_hostname = ''host'', net_program = ''prog'', net_pid = 7,
     net_public_name = ''monetdb-rust'', net_texts = example_texts\<rparr>"

lemma hex_digit_not: "n < 16 \<Longrightarrow> hex_digit n \<noteq> CHR '':''"
proof -
  assume "n < 16"
  then have "n \<in> set [0..<16]" by simp
  then show ?thesis by (auto simp: hex_digit_def upt_conv_Cons eval_nat_numeral)
qed

lemma hex_text_no_colon: "CHR '':'' \<notin> set (hex_text s)"
  using high_digit hex_digit_not [of "byte_val _ mod 16"] hex_digit_not [of "byte_val _ div 16"]
  by (induction s) (auto simp: hex_text_def dest: sym)

end
