(* ===== verification/Challenge_Response.thy ===== *)
theory Challenge_Response
  imports Connect_Socket
begin

text \<open>
  The server's challenge and the answer to it: the second half of \<open>src/framing/connecting.rs\<close> and
  \<open>src/util/hash_algorithms.rs\<close>. The settings of the session go into the answer as handshake options when the server
  understands them, and otherwise into delayed commands.

  The hash functions and \<open>hex::encode\<close> are operations of \<open>net\<close>.
\<close>

section \<open>Model of the code: hash algorithms\<close>

definition algos :: "bytes list" where
  "algos = [''RIPEMD160'', ''SHA512'', ''SHA384'', ''SHA256'', ''SHA224'']"

text \<open>The hasher of an algorithm is \<open>net_digest\<close> of its name.\<close>

definition find_algo :: "bytes \<Rightarrow> bytes option" where
  "find_algo comma_separated_names = List.find (\<lambda>name. name \<in> set algos) (split_on (CHR '','') comma_separated_names)"

section \<open>Model of the code: the challenge\<close>

record Challenge =
  ch_salt :: bytes
  ch_server_type :: bytes
  ch_response_algos :: bytes
  ch_endian :: Endian
  ch_prehash_algo :: bytes
  ch_sql_handshake_option_level :: nat
  ch_binary :: nat
  ch_clientinfo :: bool

text \<open>\<open>parts.next()\<close>, with the complaint about its absence.\<close>

fun next_field :: "bytes \<Rightarrow> bytes list \<Rightarrow> (bytes \<times> bytes list, ConnectError) outcome" where
  "next_field msg [] = Err (InvalidChallenge msg)"
| "next_field msg (p # ps) = Ok (p, ps)"

definition parse_level :: "nat \<Rightarrow> bytes \<Rightarrow> bytes \<Rightarrow> (nat, ConnectError) outcome" where
  "parse_level bound msg s = map_err (\<lambda>_. InvalidChallenge msg) (bindR (parse_int 0 (int bound) s) (\<lambda>v. Ok (nat v)))"

definition challenge_option :: "bytes \<Rightarrow> nat \<times> nat \<times> bool \<Rightarrow> (nat \<times> nat \<times> bool, ConnectError) outcome" where
  "challenge_option opt r = (case r of (level, binary, clientinfo) \<Rightarrow>
     case strip_prefix opt ''sql='' of
       Some s \<Rightarrow> bindR (parse_level 255 ''invalid handshake options level'' s) (\<lambda>n. Ok (n, binary, clientinfo))
     | None \<Rightarrow> (case strip_prefix opt ''BINARY='' of
         Some s \<Rightarrow> bindR (parse_level 65535 ''invalid binary level'' s) (\<lambda>n. Ok (level, n, clientinfo))
       | None \<Rightarrow> (case strip_prefix opt ''OOBINTR='' of
           Some s \<Rightarrow> bindR (parse_level 65535 ''invalid oobintr level'' s) (\<lambda>_. Ok (level, binary, clientinfo))
         | None \<Rightarrow> Ok (level, binary, clientinfo \<or> opt = ''CLIENTINFO''))))"

fun challenge_options :: "bytes list \<Rightarrow> nat \<times> nat \<times> bool \<Rightarrow> (nat \<times> nat \<times> bool, ConnectError) outcome" where
  "challenge_options [] r = Ok r"
| "challenge_options (opt # opts) r = bindR (challenge_option opt r) (challenge_options opts)"

definition parse_endian :: "bytes \<Rightarrow> (Endian, ConnectError) outcome" where
  "parse_endian s = (if s = ''BIG'' then Ok Big else if s = ''LIT'' then Ok Lit else Err (InvalidChallenge ''invalid endian''))"

definition trim_end_colons :: "bytes \<Rightarrow> bytes" where
  "trim_end_colons s = rev (dropWhile (\<lambda>c. c = CHR '':'') (rev s))"

definition Challenge_new :: "bytes \<Rightarrow> (Challenge, ConnectError) outcome" where
  "Challenge_new line =
     (let parts = split_on (CHR '':'') (trim_end_colons line) in
      bindR (next_field ''salt missing'' parts) (\<lambda>(salt, parts).
      bindR (next_field ''server_type missing'' parts) (\<lambda>(server_type, parts).
      bindR (next_field ''protocol missing'' parts) (\<lambda>(protocol, parts).
      if protocol \<noteq> ''9'' then Err (InvalidChallenge ''unknown protocol'') else
      bindR (next_field ''hashes missing'' parts) (\<lambda>(response_algos, parts).
      bindR (next_field ''endian missing'' parts) (\<lambda>(e, parts).
      bindR (parse_endian e) (\<lambda>endian.
      bindR (next_field ''password hash algo missing'' parts) (\<lambda>(prehash_algo, parts).
      bindR (challenge_options (concat (map (split_on (CHR '','')) parts)) (0, 0, False)) (\<lambda>(level, binary, clientinfo).
        Ok \<lparr>ch_salt = salt, ch_server_type = server_type, ch_response_algos = response_algos, ch_endian = endian,
             ch_prehash_algo = prehash_algo, ch_sql_handshake_option_level = level, ch_binary = binary,
             ch_clientinfo = clientinfo\<rparr>)))))))))"

section \<open>Model of the code: information on the client\<close>

record ClientInfo =
  ci_client_hostname :: bytes
  ci_application_name :: bytes
  ci_client_library :: bytes
  ci_client_remark :: bytes
  ci_client_pid :: nat

definition ClientInfo_default :: "('t, 'a, 'w) net \<Rightarrow> ClientInfo" where
  "ClientInfo_default N = \<lparr>ci_client_hostname = net_hostname N, ci_application_name = net_program N,
     ci_client_library = net_public_name N, ci_client_remark = [], ci_client_pid = net_pid N\<rparr>"

definition ClientInfo_items :: "ClientInfo \<Rightarrow> (bytes \<times> bytes) list" where
  "ClientInfo_items info = map (\<lambda>(k, _, v). (k, v)) (filter (\<lambda>(_, keep, _). keep)
     [(''ClientHostname'', ci_client_hostname info \<noteq> [], ci_client_hostname info),
      (''ApplicationName'', ci_application_name info \<noteq> [], ci_application_name info),
      (''ClientLibrary'', ci_client_library info \<noteq> [], ci_client_library info),
      (''ClientRemark'', ci_client_remark info \<noteq> [], ci_client_remark info),
      (''ClientPid'', True, show_nat (ci_client_pid info))])"

text \<open>The pieces the formatter of \<open>SqlForm\<close> writes.\<close>

fun SqlForm_items :: "bytes \<Rightarrow> (bytes \<times> bytes) list \<Rightarrow> bytes list" where
  "SqlForm_items pre [] = []"
| "SqlForm_items pre ((k, v) # items) = [pre, k, ''='', v, [CHR 0x0a]] @ SqlForm_items [] items"

definition SqlForm_fmt :: "ClientInfo \<Rightarrow> bytes list" where
  "SqlForm_fmt info = SqlForm_items ''Xclientinfo '' (ClientInfo_items info)"

definition client_info :: "('t, 'a, 'w) net \<Rightarrow> Validated \<Rightarrow> ClientInfo" where
  "client_info N v =
     (let info = ClientInfo_default N;
          info = (if v_client_application v \<noteq> [] then info\<lparr>ci_application_name := v_client_application v\<rparr> else info);
          info = (if v_client_prefix v \<noteq> [] then info\<lparr>ci_client_library := v_client_prefix v @ '' / '' @ net_public_name N\<rparr> else info)
      in (if v_client_remark v \<noteq> [] then info\<lparr>ci_client_remark := v_client_remark v\<rparr> else info))"

section \<open>Model of the code: settings\<close>

text \<open>\<open>MapiBuf\<close> never fails; \<open>connect_buf\<close> puts its result where a connect result is expected.\<close>

definition connect_buf :: "('a, FramingError) outcome \<Rightarrow> ('a, ConnectError) outcome" where
  "connect_buf m = connect_io (lift_buf m)"

record arrangement =
  ar_response :: bytes
  ar_sep :: bytes
  ar_delayed :: DelayedCommands

definition arrange :: "nat \<Rightarrow> nat \<Rightarrow> bytes \<Rightarrow> int \<Rightarrow> bytes list \<Rightarrow> arrangement \<Rightarrow> (arrangement, ConnectError) outcome" where
  "arrange level_limit lvl key val cmd a =
     (if lvl < level_limit then
        Ok (a\<lparr>ar_response := ar_response a @ ar_sep a @ key @ ''='' @ show_int val, ar_sep := '',''\<rparr>)
      else bindR (connect_buf (add key cmd (ar_delayed a))) (\<lambda>d. Ok (a\<lparr>ar_delayed := d\<rparr>)))"

definition arrange_autocommit :: "nat \<Rightarrow> Validated \<Rightarrow> arrangement \<times> ServerState \<Rightarrow> (arrangement \<times> ServerState, ConnectError) outcome" where
  "arrange_autocommit limit v r = (case r of (a, state) \<Rightarrow>
     if st_autocommit state \<noteq> v_autocommit v then
       let x = (if v_autocommit v then 1 else 0) in
       bindR (arrange limit 1 ''auto_commit'' x [''Xauto_commit '', show_int x] a) (\<lambda>a.
         Ok (a, state\<lparr>st_autocommit := v_autocommit v\<rparr>))
     else Ok (a, state))"

text \<open>\<open>v as i64\<close>\<close>

definition as_i64 :: "nat \<Rightarrow> int" where
  "as_i64 n = (if int n \<le> 9223372036854775807 then int n else int n - 18446744073709551616)"

definition arrange_reply_size :: "nat \<Rightarrow> Validated \<Rightarrow> arrangement \<times> ServerState \<Rightarrow> (arrangement \<times> ServerState, ConnectError) outcome" where
  "arrange_reply_size limit v r = (case r of (a, state) \<Rightarrow>
     if st_reply_size state \<noteq> v_replysize v then
       bindR (arrange limit 2 ''reply_size'' (as_i64 (v_replysize v)) [''Xreply_size '', show_nat (v_replysize v)] a) (\<lambda>a.
         Ok (a, state\<lparr>st_reply_size := v_replysize v\<rparr>))
     else Ok (a, state))"

definition arrange_size_header :: "nat \<Rightarrow> arrangement \<times> ServerState \<Rightarrow> (arrangement \<times> ServerState, ConnectError) outcome" where
  "arrange_size_header limit r = (case r of (a, state) \<Rightarrow>
     bindR (arrange limit 3 ''size_header'' 1 [''Xsizeheader 1''] a) (\<lambda>a. Ok (a, state)))"

text \<open>What the crate \<open>time\<close> finds out about the local offset is part of the outside world, if the crate is built in.\<close>

definition timezone_offset_east_of_utc :: "(int, bytes) outcome \<Rightarrow> int" where
  "timezone_offset_east_of_utc current_local_offset = (case current_local_offset of Ok offset \<Rightarrow> offset | _ \<Rightarrow> 0)"

definition session_offset :: "('t, 'a, 'w) net \<Rightarrow> Validated \<Rightarrow> int" where
  "session_offset N v = (case v_connect_timezone_seconds v of
       Some tz_seconds \<Rightarrow> tz_seconds
     | None \<Rightarrow> (case net_offset N of Some current \<Rightarrow> timezone_offset_east_of_utc current | None \<Rightarrow> 0))"

definition truncated_minutes :: "int \<Rightarrow> int" where
  "truncated_minutes seconds = sgn seconds * (\<bar>seconds\<bar> div 60)"

definition pad2 :: "nat \<Rightarrow> bytes" where
  "pad2 n = (if n < 10 then ''0'' else []) @ show_nat n"

definition time_zone_command :: "int \<Rightarrow> bytes list" where
  "time_zone_command mins =
     (let sign = (if mins < 0 then ''-'' else ''+''); a = nat \<bar>mins\<bar> in
      [''sSET TIME ZONE INTERVAL '' @ [CHR 0x27], sign, pad2 (a div 60), '':'', pad2 (a mod 60), [CHR 0x27] @ '' HOUR TO MINUTE;''])"

definition arrange_time_zone :: "nat \<Rightarrow> int \<Rightarrow> arrangement \<times> ServerState \<Rightarrow> (arrangement \<times> ServerState, ConnectError) outcome" where
  "arrange_time_zone limit seconds_east r = (case r of (a, state) \<Rightarrow>
     if st_time_zone_seconds state \<noteq> seconds_east then
       let mins = truncated_minutes seconds_east in
       bindR (arrange limit 5 ''time_zone'' seconds_east (time_zone_command mins) a) (\<lambda>a.
         Ok (a, state\<lparr>st_time_zone_seconds := (if 5 < limit then seconds_east else mins * 60)\<rparr>))
     else Ok (a, state))"

text \<open>\<open>replace\<close> of a quote by two.\<close>

fun double_quotes :: "bytes \<Rightarrow> bytes" where
  "double_quotes [] = []"
| "double_quotes (c # cs) = (if c = CHR 0x22 then [CHR 0x22, CHR 0x22] else [c]) @ double_quotes cs"

definition arrange_schema :: "Validated \<Rightarrow> arrangement \<times> ServerState \<Rightarrow> (arrangement \<times> ServerState, ConnectError) outcome" where
  "arrange_schema v r = (case r of (a, state) \<Rightarrow>
     if v_schema v \<noteq> [] then
       bindR (connect_buf (add ''schema'' [''sSET SCHEMA '' @ [CHR 0x22], double_quotes (v_schema v), [CHR 0x22] @ '';''] (ar_delayed a)))
         (\<lambda>d. Ok (a\<lparr>ar_delayed := d\<rparr>, state))
     else Ok (a, state))"

definition arrange_settings :: "('t, 'a, 'w) net \<Rightarrow> Validated \<Rightarrow> nat \<Rightarrow> arrangement \<times> ServerState
    \<Rightarrow> (arrangement \<times> ServerState, ConnectError) outcome" where
  "arrange_settings N v limit r =
     bindR (arrange_autocommit limit v r) (\<lambda>r.
     bindR (arrange_reply_size limit v r) (\<lambda>r.
     bindR (arrange_size_header limit r) (\<lambda>r.
     bindR (arrange_time_zone limit (session_offset N v) r) (arrange_schema v))))"

definition add_client_info :: "('t, 'a, 'w) net \<Rightarrow> Validated \<Rightarrow> DelayedCommands \<Rightarrow> (DelayedCommands, ConnectError) outcome" where
  "add_client_info N v d =
     bindR (connect_buf (append_all (SqlForm_fmt (client_info N v)) (dc_buffer d))) (\<lambda>mb.
     bindR (connect_buf (MapiBuf_end mb)) (\<lambda>mb.
       Ok \<lparr>dc_buffer = mb, dc_responses = dc_responses d @ [\<lparr>er_description = ''ClientInfo'', er_ignore_server_error = True\<rparr>]\<rparr>))"

section \<open>Model of the code: the answer\<close>

fun Endian_fmt :: "Endian \<Rightarrow> bytes" where
  "Endian_fmt Big = ''BIG''"
| "Endian_fmt Lit = ''LIT''"

text \<open>The byte order of the client is that of a little-endian platform.\<close>

definition Endian_NATIVE :: Endian where
  "Endian_NATIVE = Lit"

definition login_credentials :: "Validated \<Rightarrow> Challenge \<Rightarrow> bytes \<times> bytes" where
  "login_credentials v chal = (if ch_server_type chal = ''merovingian'' then (''merovingian'', []) else (v_user v, v_password v))"

definition prehash :: "('t, 'a, 'w) net \<Rightarrow> bytes \<Rightarrow> bytes \<Rightarrow> bytes" where
  "prehash N algo password = (case strip_prefix password [CHR 0x01] of
       Some hex_digits \<Rightarrow> hex_digits
     | None \<Rightarrow> net_hex N (net_digest N algo password))"

definition challenge_response :: "('t, 'a, 'w) net \<Rightarrow> Validated \<Rightarrow> Challenge \<Rightarrow> (bytes \<times> ServerState \<times> DelayedCommands, ConnectError) outcome" where
  "challenge_response N v chal = (case login_credentials v chal of (user, password) \<Rightarrow>
     bindR (ok_or (UnsupportedHashAlgo (ch_prehash_algo chal)) (find_algo (ch_prehash_algo chal))) (\<lambda>prehash_algo_name.
     let prehashed_password = prehash N prehash_algo_name password in
     bindR (ok_or (UnsupportedHashAlgo (ch_response_algos chal)) (find_algo (ch_response_algos chal))) (\<lambda>algo_name.
     let hashed_password = net_hex N (net_digest N algo_name (prehashed_password @ ch_salt chal));
         response = Endian_fmt Endian_NATIVE @ '':'' @ user @ '':{'' @ algo_name @ ''}'' @ hashed_password @ '':'' @ v_language v
           @ '':'' @ v_database v @ '':FILETRANS:'';
         state = ServerState_new prehash_algo_name (ch_endian chal) (min (ch_binary chal) (v_connect_binary v)) (v_max_response_size v);
         a = \<lparr>ar_response = response, ar_sep = [], ar_delayed = DelayedCommands_new\<rparr>
     in
     bindR (if v_language v = ''sql'' then arrange_settings N v (ch_sql_handshake_option_level chal) (a, state) else Ok (a, state)) (\<lambda>(a, state).
     bindR (if ch_clientinfo chal \<and> v_client_info v then add_client_info N v (ar_delayed a) else Ok (ar_delayed a)) (\<lambda>delayed.
       Ok (ar_response a @ '':'', state, delayed))))))"

section \<open>A reference server\<close>

text \<open>
  What a server makes of an answer and of the delayed commands: the settings of its session. It starts from the defaults of
  the protocol, reads the options of the answer and then the commands, in order. It is written from the protocol's
  side: it reads the texts the client sends.
\<close>

record session =
  ss_autocommit :: bool
  ss_reply_size :: nat
  ss_size_header :: bool
  ss_time_zone :: int
  ss_schema :: "bytes option"

definition session_default :: session where
  "session_default = \<lparr>ss_autocommit = True, ss_reply_size = 100, ss_size_header = False, ss_time_zone = 0, ss_schema = None\<rparr>"

definition cut :: "byte \<Rightarrow> bytes \<Rightarrow> bytes \<times> bytes" where
  "cut c s = (takeWhile (\<lambda>d. d \<noteq> c) s, tl (dropWhile (\<lambda>d. d \<noteq> c) s))"

definition read_int :: "bytes \<Rightarrow> int" where
  "read_int s = (if starts_with s ''-'' then - int (digits_val 0 (tl s)) else int (digits_val 0 s))"

definition server_option :: "bytes \<Rightarrow> session \<Rightarrow> session" where
  "server_option opt s = (case cut (CHR ''='') opt of (k, x) \<Rightarrow>
     if k = ''auto_commit'' then s\<lparr>ss_autocommit := read_int x \<noteq> 0\<rparr>
     else if k = ''reply_size'' then s\<lparr>ss_reply_size := nat (read_int x)\<rparr>
     else if k = ''size_header'' then s\<lparr>ss_size_header := read_int x \<noteq> 0\<rparr>
     else if k = ''time_zone'' then s\<lparr>ss_time_zone := read_int x\<rparr>
     else s)"

text \<open>An interval \<open>+hh:mm\<close> in seconds, and a quoted identifier.\<close>

definition read_interval :: "bytes \<Rightarrow> int" where
  "read_interval s = (case cut (CHR '':'') (tl s) of (h, rest) \<Rightarrow> case cut (CHR 0x27) rest of (m, _) \<Rightarrow>
     (if starts_with s ''-'' then - 1 else 1) * 60 * int (60 * digits_val 0 h + digits_val 0 m))"

fun read_quoted :: "bytes \<Rightarrow> bytes" where
  "read_quoted [] = []"
| "read_quoted (c # cs) =
     (if c = CHR 0x22 then (case cs of d # ds \<Rightarrow> if d = CHR 0x22 then CHR 0x22 # read_quoted ds else [] | [] \<Rightarrow> [])
      else c # read_quoted cs)"

definition server_command :: "bytes \<Rightarrow> session \<Rightarrow> session" where
  "server_command c s =
     (case strip_prefix c ''Xauto_commit '' of Some x \<Rightarrow> s\<lparr>ss_autocommit := read_int x \<noteq> 0\<rparr> | None \<Rightarrow>
     (case strip_prefix c ''Xreply_size '' of Some x \<Rightarrow> s\<lparr>ss_reply_size := nat (read_int x)\<rparr> | None \<Rightarrow>
     (case strip_prefix c ''Xsizeheader '' of Some x \<Rightarrow> s\<lparr>ss_size_header := read_int x \<noteq> 0\<rparr> | None \<Rightarrow>
     (case strip_prefix c (''sSET TIME ZONE INTERVAL '' @ [CHR 0x27]) of Some x \<Rightarrow> s\<lparr>ss_time_zone := read_interval x\<rparr> | None \<Rightarrow>
     (case strip_prefix c (''sSET SCHEMA '' @ [CHR 0x22]) of Some x \<Rightarrow> s\<lparr>ss_schema := Some (read_quoted x)\<rparr> | None \<Rightarrow> s)))))"

definition server_session :: "bytes \<Rightarrow> bytes list \<Rightarrow> session" where
  "server_session options commands =
     fold server_command commands (fold server_option (if options = [] then [] else split_on (CHR '','') options) session_default)"

section \<open>The server reads what the client writes\<close>

lemma cut_append: "c \<notin> set a \<Longrightarrow> cut c (a @ c # b) = (a, b)"
  by (simp add: cut_def takeWhile_append dropWhile_append)

lemma digit_not: "is_ascii_digit c \<Longrightarrow> c \<noteq> CHR ''-'' \<and> c \<noteq> CHR '','' \<and> c \<noteq> CHR '':'' \<and> c \<noteq> CHR 0x27 \<and> c \<noteq> CHR ''=''"
  by (auto simp: is_ascii_digit_def)

lemma show_nat_no_minus: "\<not> starts_with (show_nat n) ''-''"
  using show_nat_digits [of _ n] digit_not by (cases "show_nat n") auto

lemma read_int_show_int [simp]: "read_int (show_int i) = i"
  by (auto simp: read_int_def show_int_def show_nat_no_minus)

lemma show_int_0: "show_int 0 = ''0''"
  by code_simp

lemma read_int_show_nat [simp]: "read_int (show_nat n) = int n"
  by (simp add: read_int_def show_nat_no_minus)

lemma show_int_chars: "c \<in> set (show_int i) \<Longrightarrow> c = CHR ''-'' \<or> is_ascii_digit c"
  by (auto simp: show_int_def show_nat_digits split: if_splits)

lemma digits_pad2 [simp]: "digits_val 0 (pad2 n) = n"
  by (simp add: pad2_def)

lemma pad2_digits: "c \<in> set (pad2 n) \<Longrightarrow> is_ascii_digit c"
  using show_nat_digits [of c n] by (auto simp: pad2_def is_ascii_digit_def split: if_splits)

lemma read_interval_command:
  "read_interval ((if mins < 0 then ''-'' else ''+'') @ pad2 (nat \<bar>mins\<bar> div 60) @ '':'' @ pad2 (nat \<bar>mins\<bar> mod 60) @ [CHR 0x27] @ t)
     = mins * 60"
proof -
  let ?a = "nat \<bar>mins\<bar>"
  have "CHR '':'' \<notin> set (pad2 (?a div 60))" "CHR 0x27 \<notin> set (pad2 (?a mod 60))"
    using pad2_digits digit_not by blast+
  then have "cut (CHR '':'') (pad2 (?a div 60) @ CHR '':'' # pad2 (?a mod 60) @ CHR 0x27 # t) = (pad2 (?a div 60), pad2 (?a mod 60) @ CHR 0x27 # t)"
    "cut (CHR 0x27) (pad2 (?a mod 60) @ CHR 0x27 # t) = (pad2 (?a mod 60), t)"
    by (simp_all add: cut_append)
  moreover have "60 * (?a div 60) + ?a mod 60 = ?a" by simp
  ultimately show ?thesis by (auto simp: read_interval_def simp del: of_nat_add of_nat_mult)
qed

lemma read_quoted_double: "read_quoted (double_quotes s @ CHR 0x22 # CHR '';'' # t) = s"
  by (induction s) auto

lemma strip_prefix_append [simp]: "strip_prefix (p @ s) p = Some s"
  by (simp add: strip_prefix_def)

section \<open>Settings end up in one of the two places\<close>

text \<open>The settings that differ from the defaults: level, option and its value, command.\<close>

definition autocommit_setting :: "Validated \<Rightarrow> (nat \<times> (bytes \<times> int) \<times> bytes) list" where
  "autocommit_setting v = (if v_autocommit v then [] else [(1, (''auto_commit'', 0), ''Xauto_commit 0'')])"

definition reply_size_setting :: "Validated \<Rightarrow> (nat \<times> (bytes \<times> int) \<times> bytes) list" where
  "reply_size_setting v = (if v_replysize v = 100 then []
     else [(2, (''reply_size'', as_i64 (v_replysize v)), ''Xreply_size '' @ show_nat (v_replysize v))])"

definition size_header_setting :: "(nat \<times> (bytes \<times> int) \<times> bytes) list" where
  "size_header_setting = [(3, (''size_header'', 1), ''Xsizeheader 1'')]"

definition time_zone_setting :: "int \<Rightarrow> (nat \<times> (bytes \<times> int) \<times> bytes) list" where
  "time_zone_setting off = (if off = 0 then []
     else [(5, (''time_zone'', off), concat (time_zone_command (truncated_minutes off)))])"

definition settings :: "('t, 'a, 'w) net \<Rightarrow> Validated \<Rightarrow> (nat \<times> (bytes \<times> int) \<times> bytes) list" where
  "settings N v = autocommit_setting v @ reply_size_setting v @ size_header_setting @ time_zone_setting (session_offset N v)"

lemmas setting_defs = settings_def autocommit_setting_def reply_size_setting_def size_header_setting_def time_zone_setting_def

definition option_text :: "bytes \<times> int \<Rightarrow> bytes" where
  "option_text kv = fst kv @ ''='' @ show_int (snd kv)"

fun options_text :: "(bytes \<times> int) list \<Rightarrow> bytes" where
  "options_text [] = []"
| "options_text [kv] = option_text kv"
| "options_text (kv # kvs) = option_text kv @ '','' @ options_text kvs"

lemma options_text_snoc: "options_text (kvs @ [kv]) = options_text kvs @ (if kvs = [] then [] else '','') @ option_text kv"
  by (induction kvs rule: options_text.induct) simp_all

lemma option_text_nonempty [simp]: "option_text kv \<noteq> []"
  by (simp add: option_text_def)

lemma options_text_nonempty: "options_text kvs = [] \<longleftrightarrow> kvs = []"
  by (cases kvs rule: options_text.cases) simp_all

lemma option_text_no_comma: "CHR '','' \<notin> set (fst kv) \<Longrightarrow> CHR '','' \<notin> set (option_text kv)"
  using show_int_chars [of "CHR '',''" "snd kv"] digit_not by (auto simp: option_text_def)

lemma split_options:
  assumes "\<forall>kv\<in>set kvs. CHR '','' \<notin> set (fst kv)" and "kvs \<noteq> []"
  shows "split_on (CHR '','') (options_text kvs) = map option_text kvs"
  using assms
proof (induction kvs rule: options_text.induct)
  case (2 kv)
  then have "CHR '','' \<notin> set (option_text kv)" using option_text_no_comma [of kv] by simp
  then show ?case by (auto intro!: split_by_none)
next
  case (3 kv kv' kvs)
  have "split_on (CHR '','') (option_text kv @ CHR '','' # options_text (kv' # kvs)) = option_text kv # split_on (CHR '','') (options_text (kv' # kvs))"
    using option_text_no_comma [of kv] 3(2) by (intro split_by_step) auto
  with 3 show ?case by simp
qed simp

definition arranged :: "bytes \<Rightarrow> arrangement \<Rightarrow> (bytes \<times> int) list \<Rightarrow> delayed list \<Rightarrow> bool" where
  "arranged base a opts cmds \<longleftrightarrow> ar_response a = base @ options_text opts \<and> ar_sep a = (if opts = [] then [] else '','')
     \<and> dc_holds (ar_delayed a) cmds"

abbreviation in_options :: "nat \<Rightarrow> (nat \<times> (bytes \<times> int) \<times> bytes) list \<Rightarrow> (bytes \<times> int) list" where
  "in_options limit xs \<equiv> map (fst \<circ> snd) (filter (\<lambda>x. fst x < limit) xs)"

abbreviation in_commands :: "nat \<Rightarrow> (nat \<times> (bytes \<times> int) \<times> bytes) list \<Rightarrow> delayed list" where
  "in_commands limit xs \<equiv> map (\<lambda>x. (fst (fst (snd x)), snd (snd x), False)) (filter (\<lambda>x. \<not> fst x < limit) xs)"

definition placed :: "nat \<Rightarrow> bytes \<Rightarrow> arrangement \<Rightarrow> (nat \<times> (bytes \<times> int) \<times> bytes) list \<Rightarrow> bool" where
  "placed limit base a xs \<longleftrightarrow> arranged base a (in_options limit xs) (in_commands limit xs)"

text \<open>One setting, by its level.\<close>

lemma arrange_placed:
  assumes "placed limit base a xs" and "concat cmd = text" and "text \<noteq> []"
  shows "\<exists>a'. arrange limit lvl key val cmd a = Ok a' \<and> placed limit base a' (xs @ [(lvl, (key, val), text)])"
proof (cases "lvl < limit")
  case True
  then show ?thesis using assms by (auto simp: arrange_def placed_def arranged_def options_text_snoc option_text_def)
next
  case False
  then show ?thesis
    using assms add_inner_holds [of "ar_delayed a" "[]" "in_commands limit xs" cmd key False]
    by (auto simp: arrange_def placed_def arranged_def add_def connect_buf_def)
qed

definition schema_commands :: "Validated \<Rightarrow> delayed list" where
  "schema_commands v = (if v_schema v = [] then []
     else [(''schema'', ''sSET SCHEMA '' @ [CHR 0x22] @ double_quotes (v_schema v) @ [CHR 0x22] @ '';'', False)])"

lemma concat_time_zone: "concat (time_zone_command mins) \<noteq> []"
  by (simp add: time_zone_command_def Let_def)

lemma arrange_autocommit_placed:
  assumes "placed limit base a xs" and "st_autocommit state"
  shows "\<exists>a'. arrange_autocommit limit v (a, state) = Ok (a', state\<lparr>st_autocommit := v_autocommit v\<rparr>)
     \<and> placed limit base a' (xs @ autocommit_setting v)"
  using arrange_placed [OF assms(1), of "[''Xauto_commit '', show_int 0]" "''Xauto_commit 0''" 1 "''auto_commit''" 0] assms
  by (auto simp: arrange_autocommit_def autocommit_setting_def show_int_0)

lemma arrange_reply_size_placed:
  assumes "placed limit base a xs" and "st_reply_size state = 100"
  shows "\<exists>a'. arrange_reply_size limit v (a, state) = Ok (a', state\<lparr>st_reply_size := v_replysize v\<rparr>)
     \<and> placed limit base a' (xs @ reply_size_setting v)"
proof -
  have "state = state\<lparr>st_reply_size := 100\<rparr>" using assms(2) by (cases state) simp
  then show ?thesis
    using arrange_placed [OF assms(1), of "[''Xreply_size '', show_nat (v_replysize v)]" "''Xreply_size '' @ show_nat (v_replysize v)" 2
        "''reply_size''" "as_i64 (v_replysize v)"] assms
    by (auto simp: arrange_reply_size_def reply_size_setting_def)
qed

lemma arrange_size_header_placed:
  assumes "placed limit base a xs"
  shows "\<exists>a'. arrange_size_header limit (a, state) = Ok (a', state) \<and> placed limit base a' (xs @ size_header_setting)"
  using arrange_placed [OF assms, of "[''Xsizeheader 1'']" "''Xsizeheader 1''" 3 "''size_header''" 1]
  by (auto simp: arrange_size_header_def size_header_setting_def)

lemma arrange_time_zone_placed:
  assumes "placed limit base a xs" and "st_time_zone_seconds state = 0"
  shows "\<exists>a'. arrange_time_zone limit off (a, state)
       = Ok (a', state\<lparr>st_time_zone_seconds := (if 5 < limit then off else truncated_minutes off * 60)\<rparr>)
     \<and> placed limit base a' (xs @ time_zone_setting off)"
proof (cases "off = 0")
  case True
  moreover have "state = state\<lparr>st_time_zone_seconds := 0\<rparr>" using assms(2) by (cases state) simp
  ultimately show ?thesis using assms by (simp add: arrange_time_zone_def time_zone_setting_def truncated_minutes_def)
next
  case False
  let ?c = "time_zone_command (truncated_minutes off)"
  from arrange_placed [OF assms(1) refl concat_time_zone, of 5 "''time_zone''" off "truncated_minutes off"] False assms(2)
  show ?thesis by (auto simp: arrange_time_zone_def time_zone_setting_def Let_def)
qed

lemma arrange_schema_placed:
  assumes "placed limit base a xs"
  shows "\<exists>a'. arrange_schema v (a, state) = Ok (a', state) \<and> arranged base a' (in_options limit xs) (in_commands limit xs @ schema_commands v)"
  using assms add_inner_holds [of "ar_delayed a" "[]" "in_commands limit xs"
      "[''sSET SCHEMA '' @ [CHR 0x22], double_quotes (v_schema v), [CHR 0x22] @ '';'']" "''schema''" False]
  by (auto simp: arrange_schema_def schema_commands_def placed_def arranged_def add_def connect_buf_def)

lemma arrange_settings_holds:
  assumes "arranged base a [] []" and st: "st_autocommit state" "st_reply_size state = 100" "st_time_zone_seconds state = 0"
  shows "\<exists>a'. arrange_settings N v limit (a, state) = Ok (a', state\<lparr>st_autocommit := v_autocommit v, st_reply_size := v_replysize v,
        st_time_zone_seconds := (if 5 < limit then session_offset N v else truncated_minutes (session_offset N v) * 60)\<rparr>)
      \<and> arranged base a' (in_options limit (settings N v)) (in_commands limit (settings N v) @ schema_commands v)"
proof -
  have "placed limit base a []" using assms(1) by (simp add: placed_def)
  from arrange_autocommit_placed [OF this st(1), of v] obtain a1 where a1:
    "arrange_autocommit limit v (a, state) = Ok (a1, state\<lparr>st_autocommit := v_autocommit v\<rparr>)" "placed limit base a1 ([] @ autocommit_setting v)" by blast
  from arrange_reply_size_placed [OF a1(2), of "state\<lparr>st_autocommit := v_autocommit v\<rparr>" v] st(2) obtain a2 where a2:
    "arrange_reply_size limit v (a1, state\<lparr>st_autocommit := v_autocommit v\<rparr>)
       = Ok (a2, state\<lparr>st_autocommit := v_autocommit v, st_reply_size := v_replysize v\<rparr>)"
    "placed limit base a2 (([] @ autocommit_setting v) @ reply_size_setting v)" by auto
  from arrange_size_header_placed [OF a2(2), of "state\<lparr>st_autocommit := v_autocommit v, st_reply_size := v_replysize v\<rparr>"]
  obtain a3 where a3: "arrange_size_header limit (a2, state\<lparr>st_autocommit := v_autocommit v, st_reply_size := v_replysize v\<rparr>)
       = Ok (a3, state\<lparr>st_autocommit := v_autocommit v, st_reply_size := v_replysize v\<rparr>)"
    "placed limit base a3 ((([] @ autocommit_setting v) @ reply_size_setting v) @ size_header_setting)" by blast
  from arrange_time_zone_placed [OF a3(2), of "state\<lparr>st_autocommit := v_autocommit v, st_reply_size := v_replysize v\<rparr>" "session_offset N v"] st(3)
  obtain a4 where a4: "arrange_time_zone limit (session_offset N v) (a3, state\<lparr>st_autocommit := v_autocommit v, st_reply_size := v_replysize v\<rparr>)
       = Ok (a4, state\<lparr>st_autocommit := v_autocommit v, st_reply_size := v_replysize v, st_time_zone_seconds :=
           (if 5 < limit then session_offset N v else truncated_minutes (session_offset N v) * 60)\<rparr>)"
    "placed limit base a4 (settings N v)" by (auto simp: settings_def)
  show ?thesis using arrange_schema_placed [OF a4(2), of v] a1(1) a2(1) a3(1) a4(1) by (simp add: arrange_settings_def)
qed

text \<open>What the reference server makes of them.\<close>

lemma server_option_text:
  "CHR ''='' \<notin> set k \<Longrightarrow> server_option (option_text (k, x)) s =
     (if k = ''auto_commit'' then s\<lparr>ss_autocommit := x \<noteq> 0\<rparr>
      else if k = ''reply_size'' then s\<lparr>ss_reply_size := nat x\<rparr>
      else if k = ''size_header'' then s\<lparr>ss_size_header := x \<noteq> 0\<rparr>
      else if k = ''time_zone'' then s\<lparr>ss_time_zone := x\<rparr> else s)"
  using cut_append [of "CHR ''=''" k "show_int x"] by (simp add: server_option_def option_text_def)

lemma server_commands:
  "server_command ''Xauto_commit 0'' s = s\<lparr>ss_autocommit := False\<rparr>"
  "server_command (''Xreply_size '' @ show_nat n) s = s\<lparr>ss_reply_size := n\<rparr>"
  "server_command ''Xsizeheader 1'' s = s\<lparr>ss_size_header := True\<rparr>"
  "server_command (concat (time_zone_command mins)) s = s\<lparr>ss_time_zone := mins * 60\<rparr>"
  "server_command (''sSET SCHEMA '' @ [CHR 0x22] @ double_quotes sch @ [CHR 0x22] @ '';'') s = s\<lparr>ss_schema := Some sch\<rparr>"
  using read_interval_command [of mins "'' HOUR TO MINUTE;''"] read_quoted_double [of sch "[]"]
  by (simp_all add: server_command_def strip_prefix_def read_int_def time_zone_command_def Let_def show_nat_no_minus)

lemma settings_reach_server:
  assumes "int (v_replysize v) \<le> 9223372036854775807"
  shows "server_session (options_text (in_options limit (settings N v)))
      (map (fst \<circ> snd) (in_commands limit (settings N v) @ schema_commands v))
    = \<lparr>ss_autocommit = v_autocommit v, ss_reply_size = v_replysize v, ss_size_header = True,
       ss_time_zone = (if 5 < limit then session_offset N v else truncated_minutes (session_offset N v) * 60),
       ss_schema = (if v_schema v = [] then None else Some (v_schema v))\<rparr>"
proof -
  let ?opts = "in_options limit (settings N v)"
  have "\<forall>kv\<in>set ?opts. CHR '','' \<notin> set (fst kv)" by (auto simp: setting_defs)
  then have "(if options_text ?opts = [] then [] else split_on (CHR '','') (options_text ?opts)) = map option_text ?opts"
    using split_options [of ?opts] by (simp only: options_text_nonempty) auto
  moreover have "as_i64 (v_replysize v) = int (v_replysize v)" using assms by (simp add: as_i64_def)
  moreover have "truncated_minutes 0 = 0" by (simp add: truncated_minutes_def)
  ultimately show ?thesis
    by (simp only: server_session_def) (auto simp: setting_defs schema_commands_def server_option_text server_commands [unfolded append.simps] session_default_def)
qed

text \<open>Information on the client is one more command, which changes no setting.\<close>

lemma SqlForm_items_end: "items \<noteq> [] \<Longrightarrow> ends_with (concat (SqlForm_items pre items)) [CHR 0x0a]"
proof (induction pre items rule: SqlForm_items.induct)
  case (2 pre k v items)
  then show ?case by (cases "items = []") (auto simp: suffix_def)
qed simp

lemma ClientInfo_items_nonempty [simp]: "ClientInfo_items info \<noteq> []"
  by (auto simp: ClientInfo_items_def)

lemma client_info_text: "\<exists>t. concat (SqlForm_fmt info) = ''Xclientinfo '' @ t"
  by (cases "ClientInfo_items info") (auto simp: SqlForm_fmt_def)

lemma add_client_info_holds:
  assumes "dc_holds d cs"
  shows "\<exists>d'. add_client_info N v d = Ok d' \<and> dc_holds d' (cs @ [(''ClientInfo'', concat (SqlForm_fmt (client_info N v)), True)])"
proof -
  let ?text = "SqlForm_fmt (client_info N v)" let ?msgs = "map (\<lambda>c. terminated (fst (snd c))) cs"
  have h: "mb_holds (dc_buffer d) ?msgs []" "dc_responses d = map expected cs" using assms by (simp_all add: dc_waits_def)
  from append_all_holds [OF h(1), of ?text] obtain mb where mb: "append_all ?text (dc_buffer d) = Ok mb" "mb_holds mb ?msgs (concat ?text)" by auto
  from MapiBuf_end_holds [OF mb(2)] obtain mb' where mb': "MapiBuf_end mb = Ok mb'" "mb_holds mb' (?msgs @ [concat ?text]) []" by blast
  have "terminated (concat ?text) = concat ?text" by (simp add: terminated_def SqlForm_fmt_def SqlForm_items_end)
  with h mb(1) mb' show ?thesis by (simp add: add_client_info_def connect_buf_def dc_waits_def expected_def)
qed

lemma server_client_info: "server_command (concat (SqlForm_fmt info)) s = s"
  using client_info_text [of info] by (auto simp: server_command_def strip_prefix_def)

lemma server_session_snoc: "server_session options (cs @ [c]) = server_command c (server_session options cs)"
  by (simp add: server_session_def)

lemma find_algo_known: "find_algo names = Some a \<Longrightarrow> a \<in> set algos"
  by (auto simp: find_algo_def find_Some_iff)

lemma algos_no_colon: "a \<in> set algos \<Longrightarrow> CHR '':'' \<notin> set a"
  by (auto simp: algos_def)

lemma options_no_colon: "CHR '':'' \<notin> set (options_text (in_options limit (settings N v)))"
proof -
  have "CHR '':'' \<notin> set (options_text kvs)" if "\<forall>kv\<in>set kvs. CHR '':'' \<notin> set (fst kv)" for kvs
    using that
  proof (induction kvs rule: options_text.induct)
    case (2 kv)
    then show ?case using show_int_chars [of "CHR '':''" "snd kv"] digit_not by (auto simp: option_text_def)
  next
    case (3 kv kv' kvs)
    then show ?case using show_int_chars [of "CHR '':''" "snd kv"] digit_not by (auto simp: option_text_def)
  qed simp
  then show ?thesis by (auto simp: setting_defs)
qed

lemma optional_client_info:
  assumes "dc_holds d cs"
  shows "\<exists>d' cs'. (if b then add_client_info N v d else Ok d) = Ok d' \<and> dc_holds d' cs'
    \<and> (\<forall>opts. server_session opts (map (fst \<circ> snd) cs') = server_session opts (map (fst \<circ> snd) cs))"
proof (cases b)
  case True
  obtain d' where d': "add_client_info N v d = Ok d'"
    "dc_holds d' (cs @ [(''ClientInfo'', concat (SqlForm_fmt (client_info N v)), True)])"
    using add_client_info_holds [OF assms, of N v] by blast
  have "server_session opts (map (fst \<circ> snd) (cs @ [(''ClientInfo'', concat (SqlForm_fmt (client_info N v)), True)]))
      = server_session opts (map (fst \<circ> snd) cs)" for opts
    by (simp add: server_session_snoc server_client_info)
  with d' True show ?thesis by auto
next
  case False
  with assms show ?thesis by auto
qed

lemma split_colon: "CHR '':'' \<notin> set p \<Longrightarrow> split_on (CHR '':'') (p @ '':'' @ t) = p # split_on (CHR '':'') t"
  using split_by_step [of p "\<lambda>c. c = CHR '':''" "CHR '':''" t] by auto

lemma response_fields:
  assumes "CHR '':'' \<notin> set user" and "CHR '':'' \<notin> set algo" and "CHR '':'' \<notin> set hash" and "CHR '':'' \<notin> set db" and "CHR '':'' \<notin> set opts"
  shows "split_on (CHR '':'') (''LIT'' @ '':'' @ user @ '':{'' @ algo @ ''}'' @ hash @ '':'' @ ''sql'' @ '':'' @ db @ '':FILETRANS:'' @ opts @ '':'')
    = [''LIT'', user, ''{'' @ algo @ ''}'' @ hash, ''sql'', db, ''FILETRANS'', opts, []]"
proof -
  let ?h = "''{'' @ algo @ ''}'' @ hash"
  have "CHR '':'' \<notin> set ''LIT''" "CHR '':'' \<notin> set ?h" "CHR '':'' \<notin> set ''sql''" "CHR '':'' \<notin> set ''FILETRANS''"
    using assms by simp_all
  with assms have "split_on (CHR '':'') (''LIT'' @ '':'' @ user @ '':'' @ ?h @ '':'' @ ''sql'' @ '':'' @ db @ '':'' @ ''FILETRANS'' @ '':'' @ opts @ '':'' @ [])
    = [''LIT'', user, ?h, ''sql'', db, ''FILETRANS'', opts, []]"
    by (simp only: split_colon not_False_eq_True split_by.simps)
  then show ?thesis by simp
qed

lemma truncated_minutes_close: "\<bar>truncated_minutes s * 60 - s\<bar> < 60"
proof -
  have "\<bar>s\<bar> div 60 * 60 + \<bar>s\<bar> mod 60 = \<bar>s\<bar>" "0 \<le> \<bar>s\<bar> mod 60" "\<bar>s\<bar> mod 60 < 60" by simp_all
  then have "\<bar>\<bar>s\<bar> div 60 * 60 - \<bar>s\<bar>\<bar> < 60" by linarith
  then show ?thesis by (cases "0 < s"; cases "s = 0") (auto simp: truncated_minutes_def)
qed

text \<open>The answer in full, with the commands that go after it.\<close>

definition session_state :: "('t, 'a, 'w) net \<Rightarrow> Validated \<Rightarrow> Challenge \<Rightarrow> bytes \<Rightarrow> ServerState" where
  "session_state N v chal pre = (ServerState_new pre (ch_endian chal) (min (ch_binary chal) (v_connect_binary v)) (v_max_response_size v))
     \<lparr>st_autocommit := v_autocommit v, st_reply_size := v_replysize v, st_time_zone_seconds :=
        (if 5 < ch_sql_handshake_option_level chal then session_offset N v else truncated_minutes (session_offset N v) * 60)\<rparr>"

lemma challenge_response_Ok:
  assumes "find_algo (ch_prehash_algo chal) = Some pre" and "find_algo (ch_response_algos chal) = Some algo"
    and "v_language v = ''sql''" and cred: "login_credentials v chal = (user, password)"
  obtains delayed cmds where
    "challenge_response N v chal = Ok (''LIT'' @ '':'' @ user @ '':{'' @ algo @ ''}''
        @ net_hex N (net_digest N algo (prehash N pre password @ ch_salt chal)) @ '':'' @ ''sql'' @ '':'' @ v_database v @ '':FILETRANS:''
        @ options_text (in_options (ch_sql_handshake_option_level chal) (settings N v)) @ '':'', session_state N v chal pre, delayed)"
    and "dc_holds delayed cmds"
    and "\<And>opts. server_session opts (map (fst \<circ> snd) cmds)
      = server_session opts (map (fst \<circ> snd) (in_commands (ch_sql_handshake_option_level chal) (settings N v) @ schema_commands v))"
proof -
  let ?limit = "ch_sql_handshake_option_level chal"
  let ?base = "''LIT'' @ '':'' @ user @ '':{'' @ algo @ ''}'' @ net_hex N (net_digest N algo (prehash N pre password @ ch_salt chal))
    @ '':'' @ ''sql'' @ '':'' @ v_database v @ '':FILETRANS:''"
  let ?st = "ServerState_new pre (ch_endian chal) (min (ch_binary chal) (v_connect_binary v)) (v_max_response_size v)"
  let ?a = "\<lparr>ar_response = ?base, ar_sep = [], ar_delayed = DelayedCommands_new\<rparr>"
  let ?cs = "in_commands ?limit (settings N v) @ schema_commands v"
  have "arranged ?base ?a [] []" by (simp add: arranged_def dc_holds_new)
  from arrange_settings_holds [OF this, of ?st N v ?limit] obtain a where
    a: "arrange_settings N v ?limit (?a, ?st) = Ok (a, session_state N v chal pre)"
      "ar_response a = ?base @ options_text (in_options ?limit (settings N v))" "dc_holds (ar_delayed a) ?cs"
    by (auto simp: ServerState_new_def arranged_def session_state_def)
  from optional_client_info [OF a(3), of "ch_clientinfo chal \<and> v_client_info v" N v] obtain delayed cmds where
    d: "(if ch_clientinfo chal \<and> v_client_info v then add_client_info N v (ar_delayed a) else Ok (ar_delayed a)) = Ok delayed"
    "dc_holds delayed cmds" "\<And>opts. server_session opts (map (fst \<circ> snd) cmds) = server_session opts (map (fst \<circ> snd) ?cs)" by blast
  have "challenge_response N v chal = Ok (?base @ options_text (in_options ?limit (settings N v)) @ '':'', session_state N v chal pre, delayed)"
    using a(1,2) d(1) assms(1-3) cred by (simp add: challenge_response_def Let_def Endian_NATIVE_def)
  then show thesis using d(3) by (intro that [OF _ d(2)]) (simp_all only: append_assoc)
qed

text \<open>C13. Logging in: when both hash algorithms are known and the user name has no colon, the answer splits at its colons into
  the eight fields of the protocol, with the user name, the salted hash and the database in their places; and a server that
  reads its options field and then the delayed commands ends up with exactly the session the client's state
  records: autocommit mode and reply size as requested, size headers on, the requested time zone (up to a whole minute where the
  server takes no option for it) and the requested schema. Which options the server understands makes no
  difference. The hypothesis on \<open>hex::encode\<close> is that it writes no colon.\<close>

theorem login_settings_agree:
  assumes "find_algo (ch_prehash_algo chal) = Some pre" and "find_algo (ch_response_algos chal) = Some algo"
    and "v_language v = ''sql''" and "CHR '':'' \<notin> set (v_user v)" and "CHR '':'' \<notin> set (v_database v)"
    and "\<forall>d. CHR '':'' \<notin> set (net_hex N d)" and "int (v_replysize v) \<le> 9223372036854775807"
  shows "\<exists>response state delayed options cmds. challenge_response N v chal = Ok (response, state, delayed)
    \<and> split_on (CHR '':'') response = [''LIT'', fst (login_credentials v chal),
        ''{'' @ algo @ ''}'' @ net_hex N (net_digest N algo (prehash N pre (snd (login_credentials v chal)) @ ch_salt chal)),
        ''sql'', v_database v, ''FILETRANS'', options, []]
    \<and> dc_holds delayed cmds
    \<and> server_session options (map (fst \<circ> snd) cmds) = \<lparr>ss_autocommit = st_autocommit state, ss_reply_size = st_reply_size state,
        ss_size_header = True, ss_time_zone = st_time_zone_seconds state,
        ss_schema = (if v_schema v = [] then None else Some (v_schema v))\<rparr>
    \<and> st_autocommit state = v_autocommit v \<and> st_reply_size state = v_replysize v
    \<and> \<bar>st_time_zone_seconds state - session_offset N v\<bar> < 60
    \<and> st_max_response_size state = v_max_response_size v"
proof -
  let ?limit = "ch_sql_handshake_option_level chal" let ?off = "session_offset N v" let ?st = "session_state N v chal pre"
  let ?opts = "options_text (in_options ?limit (settings N v))"
  obtain user password where cred: "login_credentials v chal = (user, password)" by (cases "login_credentials v chal")
  let ?hash = "net_hex N (net_digest N algo (prehash N pre password @ ch_salt chal))"
  obtain delayed cmds where d: "challenge_response N v chal = Ok (''LIT'' @ '':'' @ user @ '':{'' @ algo @ ''}'' @ ?hash @ '':'' @ ''sql''
        @ '':'' @ v_database v @ '':FILETRANS:'' @ ?opts @ '':'', ?st, delayed)" "dc_holds delayed cmds"
      "\<And>opts. server_session opts (map (fst \<circ> snd) cmds)
        = server_session opts (map (fst \<circ> snd) (in_commands ?limit (settings N v) @ schema_commands v))"
    by (rule challenge_response_Ok [OF assms(1-3) cred]) (rule that, assumption+)
  have "CHR '':'' \<notin> set user"
    using cred [symmetric] assms(4) by (cases "ch_server_type chal = ''merovingian''") (simp_all add: login_credentials_def)
  moreover have "CHR '':'' \<notin> set algo" using assms(2) find_algo_known algos_no_colon by blast
  ultimately have fs: "split_on (CHR '':'') (''LIT'' @ '':'' @ user @ '':{'' @ algo @ ''}'' @ ?hash @ '':'' @ ''sql'' @ '':'' @ v_database v
      @ '':FILETRANS:'' @ ?opts @ '':'') = [''LIT'', user, ''{'' @ algo @ ''}'' @ ?hash, ''sql'', v_database v, ''FILETRANS'', ?opts, []]"
    using response_fields [of user algo ?hash "v_database v" ?opts, OF _ _ _ assms(5) options_no_colon] assms(6) by blast
  have "server_session ?opts (map (fst \<circ> snd) cmds) = \<lparr>ss_autocommit = st_autocommit ?st, ss_reply_size = st_reply_size ?st,
        ss_size_header = True, ss_time_zone = st_time_zone_seconds ?st, ss_schema = (if v_schema v = [] then None else Some (v_schema v))\<rparr>"
    unfolding d(3) settings_reach_server [OF assms(7)] by (simp add: session_state_def)
  moreover have "st_autocommit ?st = v_autocommit v" "st_reply_size ?st = v_replysize v" "\<bar>st_time_zone_seconds ?st - ?off\<bar> < 60"
      "st_max_response_size ?st = v_max_response_size v"
    using truncated_minutes_close [of ?off] by (simp_all add: session_state_def ServerState_new_def)
  ultimately show ?thesis using d(1,2) fs unfolding cred fst_conv snd_conv by blast
qed

definition example_validated :: Validated where
  "example_validated = \<lparr>v_database = ''demo'', v_tls = False, v_user = ''monetdb'', v_password = ''secret'', v_autocommit = False,
     v_cert = [], v_language = ''sql'', v_replysize = 200, v_maxprefetch = None, v_schema = ''my '' @ [CHR 0x22] @ ''schema'',
     v_client_info = True, v_client_application = [], v_client_prefix = [], v_client_remark = [], v_connect_timezone_seconds = Some 5400,
     v_connect_scan = False, v_connect_unix = [], v_connect_tcp = ''localhost'', v_connect_port = 50000, v_connect_tls_verify = VerifyOff,
     v_connect_certhash_digits = [], v_connect_clientkey = [], v_connect_clientcert = [], v_connect_binary = 0, v_connect_timeout = None,
     v_read_timeout = None, v_write_timeout = None, v_operation_timeout = None, v_max_response_size = 1000\<rparr>"

definition example_challenge :: Challenge where
  "example_challenge = \<lparr>ch_salt = ''salt'', ch_server_type = ''mserver'', ch_response_algos = ''SHA1,SHA256'', ch_endian = Lit,
     ch_prehash_algo = ''SHA512'', ch_sql_handshake_option_level = 2, ch_binary = 1, ch_clientinfo = True\<rparr>"

theorem login_settings_agree_witness:
  "\<exists>response state delayed options cmds.
    challenge_response (example_net example_script) example_validated example_challenge = Ok (response, state, delayed)
    \<and> dc_holds delayed cmds \<and> server_session options (map (fst \<circ> snd) cmds) = \<lparr>ss_autocommit = False, ss_reply_size = 200,
        ss_size_header = True, ss_time_zone = st_time_zone_seconds state, ss_schema = Some (''my '' @ [CHR 0x22] @ ''schema'')\<rparr>"
proof -
  have algo: "find_algo (ch_prehash_algo example_challenge) = Some ''SHA512''" "find_algo (ch_response_algos example_challenge) = Some ''SHA256''"
    by (simp_all add: find_algo_def algos_def example_challenge_def)
  have v: "v_language example_validated = ''sql''" "CHR '':'' \<notin> set (v_user example_validated)" "CHR '':'' \<notin> set (v_database example_validated)"
    and h: "\<forall>d. CHR '':'' \<notin> set (net_hex (example_net example_script) d)" and r: "int (v_replysize example_validated) \<le> 9223372036854775807"
    and w: "\<not> v_autocommit example_validated" "v_replysize example_validated = 200" "v_schema example_validated = ''my '' @ [CHR 0x22] @ ''schema''"
    by (simp_all add: example_validated_def example_net_def hex_text_no_colon)
  show ?thesis using login_settings_agree [OF algo v h r] by (simp only: w) fastforce
qed

section \<open>Reading a challenge\<close>

text \<open>What a server can put into the options of a challenge, and how it renders a challenge.\<close>

datatype server_opt = OptSql nat | OptBinary nat | OptOobintr nat | OptClientinfo | OptOther bytes

fun render_opt :: "server_opt \<Rightarrow> bytes" where
  "render_opt (OptSql n) = ''sql='' @ show_nat n"
| "render_opt (OptBinary n) = ''BINARY='' @ show_nat n"
| "render_opt (OptOobintr n) = ''OOBINTR='' @ show_nat n"
| "render_opt OptClientinfo = ''CLIENTINFO''"
| "render_opt (OptOther s) = s"

fun opt_ok :: "server_opt \<Rightarrow> bool" where
  "opt_ok (OptSql n) = (n \<le> 255)"
| "opt_ok (OptBinary n) = (n \<le> 65535)"
| "opt_ok (OptOobintr n) = (n \<le> 65535)"
| "opt_ok OptClientinfo = True"
| "opt_ok (OptOther s) = (s \<noteq> [] \<and> CHR '':'' \<notin> set s \<and> CHR '','' \<notin> set s \<and> s \<noteq> ''CLIENTINFO''
     \<and> \<not> starts_with s ''sql='' \<and> \<not> starts_with s ''BINARY='' \<and> \<not> starts_with s ''OOBINTR='')"

fun opt_effect :: "server_opt \<Rightarrow> nat \<times> nat \<times> bool \<Rightarrow> nat \<times> nat \<times> bool" where
  "opt_effect (OptSql n) (l, b, c) = (n, b, c)"
| "opt_effect (OptBinary n) (l, b, c) = (l, n, c)"
| "opt_effect OptClientinfo (l, b, c) = (l, b, True)"
| "opt_effect _ (l, b, c) = (l, b, c)"

definition render_challenge :: "Challenge \<Rightarrow> server_opt list \<Rightarrow> bytes" where
  "render_challenge ch opts = concat (map (\<lambda>f. f @ '':'')
     ([ch_salt ch, ch_server_type ch, ''9'', ch_response_algos ch, Endian_fmt (ch_endian ch), ch_prehash_algo ch] @ map render_opt opts))"

lemma parse_level_show: "n \<le> bound \<Longrightarrow> parse_level bound msg (show_nat n) = Ok n"
  by (simp add: parse_level_def parse_int_show_nat)

lemma challenge_option_render: "opt_ok opt \<Longrightarrow> challenge_option (render_opt opt) r = Ok (opt_effect opt r)"
  by (cases r; cases opt) (auto simp: challenge_option_def strip_prefix_def parse_level_show)

lemma challenge_options_render: "list_all opt_ok opts \<Longrightarrow> challenge_options (map render_opt opts) r = Ok (fold opt_effect opts r)"
  by (induction opts arbitrary: r) (simp_all add: challenge_option_render)

lemma render_opt_plain: "opt_ok opt \<Longrightarrow> CHR '':'' \<notin> set (render_opt opt) \<and> CHR '','' \<notin> set (render_opt opt) \<and> render_opt opt \<noteq> []"
  using show_nat_digits [of "CHR '':''"] show_nat_digits [of "CHR '',''"] digit_not by (cases opt) auto

lemma split_colons:
  "\<forall>f\<in>set fs. CHR '':'' \<notin> set f \<Longrightarrow> CHR '':'' \<notin> set l \<Longrightarrow>
     split_on (CHR '':'') (concat (map (\<lambda>f. f @ '':'') fs) @ l) = fs @ [l]"
proof (induction fs)
  case Nil
  then show ?case by (auto intro!: split_by_none)
next
  case (Cons f fs)
  then show ?case using split_colon [of f "concat (map (\<lambda>f. f @ '':'') fs) @ l"] by simp
qed

lemma trim_end_colon: "l \<noteq> [] \<Longrightarrow> CHR '':'' \<notin> set l \<Longrightarrow> trim_end_colons (s @ l @ '':'') = s @ l"
  by (cases l rule: rev_cases) (auto simp: trim_end_colons_def)

lemma split_challenge:
  assumes "\<forall>f\<in>set fs. CHR '':'' \<notin> set f" and "fs \<noteq> []" and "last fs \<noteq> []"
  shows "split_on (CHR '':'') (trim_end_colons (concat (map (\<lambda>f. f @ '':'') fs))) = fs"
proof -
  obtain gs l where fs: "fs = gs @ [l]" using assms(2) by (cases fs rule: rev_cases) auto
  then have "trim_end_colons (concat (map (\<lambda>f. f @ '':'') fs)) = concat (map (\<lambda>f. f @ '':'') gs) @ l"
    using assms trim_end_colon [of l "concat (map (\<lambda>f. f @ '':'') gs)"] by simp
  then show ?thesis using split_colons [of gs l] assms fs by simp
qed

lemma split_commas: "list_all opt_ok opts \<Longrightarrow> concat (map (split_on (CHR '','') \<circ> render_opt) opts) = map render_opt opts"
  using render_opt_plain by (induction opts) (auto intro!: split_by_none)

text \<open>C32. Reading a challenge: every challenge a server renders, with the known options in any order and unknown ones
  between them, is read back with its fields and with what the options say, the last one where one is repeated.\<close>

theorem challenge_roundtrip:
  assumes "\<forall>f\<in>{ch_salt ch, ch_server_type ch, ch_response_algos ch, ch_prehash_algo ch}. CHR '':'' \<notin> set f" and "ch_prehash_algo ch \<noteq> []"
    and "list_all opt_ok opts"
    and "(ch_sql_handshake_option_level ch, ch_binary ch, ch_clientinfo ch) = fold opt_effect opts (0, 0, False)"
  shows "Challenge_new (render_challenge ch opts) = Ok ch"
proof -
  let ?fs = "[ch_salt ch, ch_server_type ch, ''9'', ch_response_algos ch, Endian_fmt (ch_endian ch), ch_prehash_algo ch]"
  have opts: "CHR '':'' \<notin> set (render_opt opt) \<and> render_opt opt \<noteq> []" if "opt \<in> set opts" for opt
    using that assms(3) render_opt_plain by (auto simp: list_all_iff)
  have "CHR '':'' \<notin> set (Endian_fmt (ch_endian ch))" by (cases "ch_endian ch") simp_all
  then have plain: "\<forall>f\<in>set (?fs @ map render_opt opts). CHR '':'' \<notin> set f" using assms(1) opts by auto
  have "last (?fs @ map render_opt opts) \<noteq> []" using assms(2) opts by (cases opts rule: rev_cases) auto
  from split_challenge [OF plain _ this]
  have "split_on (CHR '':'') (trim_end_colons (render_challenge ch opts)) = ?fs @ map render_opt opts"
    by (simp add: render_challenge_def)
  moreover have "parse_endian (Endian_fmt (ch_endian ch)) = Ok (ch_endian ch)" by (cases "ch_endian ch") (simp_all add: parse_endian_def)
  ultimately show ?thesis
    using challenge_options_render [OF assms(3), of "(0, 0, False)"] assms(4) [symmetric] split_commas [OF assms(3)]
    by (simp add: Challenge_new_def Let_def)
qed

theorem challenge_roundtrip_witness:
  "Challenge_new (render_challenge example_challenge [OptSql 6, OptOther ''x'', OptBinary 1, OptOobintr 1, OptClientinfo, OptSql 2]) = Ok example_challenge"
  by (rule challenge_roundtrip) (auto simp: example_challenge_def)

end
