(* ===== verification/Connecting.thy ===== *)
theory Connecting
  imports Challenge_Response Transport_Invariant
begin

text \<open>
  Establishing a connection: logging in, following redirects and restarts (\<open>src/framing/connecting.rs\<close>), and
  \<open>Connection::new\<close> and \<open>Connection::connect_url\<close> of \<open>src/conn.rs\<close>.

  A validation reads the clock once. The loop of \<open>establish_connection\<close> makes at most ten turns in the code too, so the model needs no fuel
  of its own.
\<close>

section \<open>Model of the code: logging in\<close>

datatype 't Login = Redirect bytes | Restart "'t ServerSock" | Complete "'t ServerSock" ServerState

definition process_redirects :: "'t ServerSock \<Rightarrow> ServerState \<Rightarrow> bytes \<Rightarrow> ('t Login, ConnectError) outcome" where
  "process_redirects sock state reply =
     (let reply = trim_ascii reply in
      if reply = [] \<or> starts_with reply ''=OK'' then Ok (Complete sock state)
      else if starts_with reply ''^'' then
        (let redirect = tl (hd (split_on (CHR 0x0a) reply)) in
         if starts_with redirect ''mapi:merovingian://proxy'' then Ok (Restart sock) else Ok (Redirect redirect))
      else case strip_prefix reply ''!'' of
          Some msg \<Rightarrow> Err (Rejected msg)
        | None \<Rightarrow> if starts_with reply ''#'' then Ok (Complete sock state) else Err (UnexpectedResponse reply))"

definition login :: "('t, 'a, 'w) net \<Rightarrow> ('t, 'z) env_scheme \<Rightarrow> Validated \<Rightarrow> 't ServerSock
    \<Rightarrow> ('t Login \<times> DelayedCommands, ConnectError) outcome" where
  "login N E v sock =
     (case to_limited_string (ServerSock_read (env_T E)) (env_F E) (env_pol E) sock [] 5000 of (res, server_message) \<Rightarrow>
      bindR (connect_io res) (\<lambda>sock.
      bindR (Challenge_new server_message) (\<lambda>chal.
      bindR (challenge_response N v chal) (\<lambda>(response, state, delayed).
      bindR (connect_buf (MapiBuf_append response MapiBuf_new)) (\<lambda>mbuf.
      case MapiBuf_write_reset (env_debug E) (ServerSock_write (env_T E)) (env_F E) mbuf sock of (res, _, sock) \<Rightarrow>
      bindR (connect_io res) (\<lambda>_.
      case to_limited_string (ServerSock_read (env_T E)) (env_F E) (env_pol E) sock [] 5000 of (res, server_message) \<Rightarrow>
      bindR (connect_io res) (\<lambda>sock.
      bindR (process_redirects sock state server_message) (\<lambda>login. Ok (login, delayed)))))))))"

section \<open>Model of the code: the loop\<close>

definition validate :: "('t, 'a, 'w) net \<Rightarrow> Parameters \<Rightarrow> 'w \<Rightarrow> (Validated, ConnectError) outcome \<times> 'w" where
  "validate N p w = (case net_now N w of (now, w) \<Rightarrow> (map_err CParm (Validated_new now p), w))"

definition apply_redirect :: "url_lib \<Rightarrow> ('t, 'a, 'w) net \<Rightarrow> Parameters \<Rightarrow> bytes \<Rightarrow> 'w \<Rightarrow> (Parameters, ConnectError) outcome \<times> 'w" where
  "apply_redirect U N p url w =
     bindS (validate N p w) (\<lambda>before w.
     case apply_url U (net_texts N) url p of (res, p) \<Rightarrow>
     bindS (map_err CParm res, w) (\<lambda>_ w.
       if v_tls before then bindS (validate N p w) (\<lambda>after w. if \<not> v_tls after then (Err TlsDowngrade, w) else (Ok p, w))
       else (Ok p, w)))"

type_synonym 't established = "'t ServerSock \<times> ServerState \<times> DelayedCommands \<times> Timeouts"

definition complete_login :: "('t, 'a, 'w) net \<Rightarrow> ('t, 'z) env_scheme \<Rightarrow> Validated \<Rightarrow> 't ServerSock \<Rightarrow> ServerState \<Rightarrow> DelayedCommands
    \<Rightarrow> ('t established, ConnectError) outcome" where
  "complete_login N E v sock state delayed = (case send_delayed E delayed sock of
       (Ok sock, delayed) \<Rightarrow>
         let timeouts = Timeouts_from_validated v in
         Ok (ServerSock_set_connection_deadline timeouts None sock, state, delayed, timeouts)
     | (Err error, delayed) \<Rightarrow> (case error of
           IO e \<Rightarrow> Err (CIO e)
         | _ \<Rightarrow> Err (UnexpectedResponse (CursorError_fmt (net_texts N) error)))
     | (Panic, delayed) \<Rightarrow> Panic
     | (NoFuel, delayed) \<Rightarrow> NoFuel)"

text \<open>The parameters and the socket of a turn: a new one, unless the server restarted the login on the last one.\<close>

definition turn_socket :: "('t, 'a, 'w) net \<Rightarrow> ('t, 'z) env_scheme \<Rightarrow> ConnectionDeadline \<Rightarrow> Parameters \<Rightarrow> 't ServerSock option \<Rightarrow> 'w
    \<Rightarrow> (Validated \<times> 't ServerSock, ConnectError) outcome \<times> 'w" where
  "turn_socket N E deadline p restarted w =
     bindS (validate N p w) (\<lambda>validated w.
     bindS (case restarted of Some sock \<Rightarrow> (Ok sock, w) | None \<Rightarrow> connect_socket N E validated deadline w) (\<lambda>sock w.
       (Ok (validated, sock), w)))"

datatype 't turn = Done "'t established" | Again Parameters "'t ServerSock option"

definition connect_turn :: "url_lib \<Rightarrow> ('t, 'a, 'w) net \<Rightarrow> ('t, 'z) env_scheme \<Rightarrow> ConnectionDeadline \<Rightarrow> Parameters \<Rightarrow> 't ServerSock option \<Rightarrow> 'w
    \<Rightarrow> ('t turn, ConnectError) outcome \<times> 'w" where
  "connect_turn U N E deadline p restarted w =
     bindS (turn_socket N E deadline p restarted w) (\<lambda>(validated, sock) w.
     bindS (login N E validated sock, w) (\<lambda>(login, delayed) w. case login of
         Complete sock state \<Rightarrow> (bindR (complete_login N E validated sock state delayed) (\<lambda>x. Ok (Done x)), w)
       | Redirect url \<Rightarrow> bindS (apply_redirect U N p url w) (\<lambda>p w. (Ok (Again p None), w))
       | Restart sock \<Rightarrow> (Ok (Again p (Some sock)), w)))"

fun establish_loop :: "nat \<Rightarrow> url_lib \<Rightarrow> ('t, 'a, 'w) net \<Rightarrow> ('t, 'z) env_scheme \<Rightarrow> ConnectionDeadline \<Rightarrow> Parameters \<Rightarrow> 't ServerSock option \<Rightarrow> 'w
    \<Rightarrow> ('t established, ConnectError) outcome \<times> 'w" where
  "establish_loop 0 U N E deadline p restarted w = (Err TooManyRedirects, w)"
| "establish_loop (Suc n) U N E deadline p restarted w =
     bindS (connect_turn U N E deadline p restarted w) (\<lambda>t w. case t of
         Done x \<Rightarrow> (Ok x, w)
       | Again p restarted \<Rightarrow> establish_loop n U N E deadline p restarted w)"

definition establish_connection :: "url_lib \<Rightarrow> ('t, 'a, 'w) net \<Rightarrow> ('t, 'z) env_scheme \<Rightarrow> Parameters \<Rightarrow> 'w
    \<Rightarrow> ('t established, ConnectError) outcome \<times> 'w" where
  "establish_connection U N E p w =
     bindS (validate N p w) (\<lambda>validated w.
     case ConnectionDeadline_new N (v_connect_timeout validated) w of (deadline, w) \<Rightarrow>
       establish_loop 10 U N E deadline p None w)"

definition Connection_new :: "url_lib \<Rightarrow> ('t, 'a, 'w) net \<Rightarrow> ('t, 'z) env_scheme \<Rightarrow> Parameters \<Rightarrow> 'w
    \<Rightarrow> ('t Conn, ConnectError) outcome \<times> 'w" where
  "Connection_new U N E p w =
     bindS (validate N p w) (\<lambda>validated w.
     bindS (establish_connection U N E p w) (\<lambda>(sock, state, delayed, timeouts) w.
       (Ok (Conn_new (v_maxprefetch validated) sock state delayed timeouts), w)))"

definition connect_url :: "url_lib \<Rightarrow> ('t, 'a, 'w) net \<Rightarrow> ('t, 'z) env_scheme \<Rightarrow> bytes \<Rightarrow> 'w
    \<Rightarrow> ('t Conn, ConnectError) outcome \<times> 'w" where
  "connect_url U N E url w =
     bindS (map_err CParm (from_url U (net_texts N) url), w) (\<lambda>p w. Connection_new U N E p w)"

section \<open>TLS stays on\<close>

text \<open>The states of the loop that are reached from its start.\<close>

inductive attempted :: "url_lib \<Rightarrow> ('t, 'a, 'w) net \<Rightarrow> ('t, 'z) env_scheme \<Rightarrow> ConnectionDeadline \<Rightarrow> Parameters \<Rightarrow> 'w
    \<Rightarrow> Parameters \<Rightarrow> 't ServerSock option \<Rightarrow> 'w \<Rightarrow> bool" for U N E deadline p w where
  start: "attempted U N E deadline p w p None w"
| again: "attempted U N E deadline p w p1 r1 w1 \<Longrightarrow> connect_turn U N E deadline p1 r1 w1 = (Ok (Again p2 r2), w2)
    \<Longrightarrow> attempted U N E deadline p w p2 r2 w2"

lemma validate_Ok: "validate N p w = (Ok v, w') \<Longrightarrow> \<exists>now. Validated_new now p = Ok v"
  by (auto simp: validate_def split: prod.splits)

lemma wrap_tls_stream:
  "wrap_tls N E v s w = Ok sock \<Longrightarrow> v_tls v \<Longrightarrow> \<exists>R config. net_tls N = Some R \<and> tls_client R config (v_connect_tcp v) s = Ok (inner sock)"
  by (auto simp: wrap_tls_def wrap_with_rustls_def wrap_inner_def ServerSock_wrap_def Let_def split: option.splits)

lemma connect_socket_tls:
  assumes "connect_socket N E v deadline w = (Ok sock, w')" and "v_tls v" and "v_connect_unix v = []"
  shows "\<exists>R config s. net_tls N = Some R \<and> tls_client R config (v_connect_tcp v) s = Ok (inner sock)"
proof -
  have "connect_over_tcp N E v deadline None w = (Ok sock, w')" using assms(1,3) by (simp add: connect_socket_def)
  then obtain s w1 where "wrap_tls N E v s w1 = Ok sock"
    by (auto simp: connect_over_tcp_def split: if_splits prod.splits outcome.splits)
  from wrap_tls_stream [OF this assms(2)] show ?thesis by blast
qed

text \<open>A login keeps the kind of stream.\<close>

lemma write_reset_keeps:
  "socket_invariant T J \<Longrightarrow> J s \<Longrightarrow> MapiBuf_write_reset debug (ServerSock_write T) F mb s = (res, mb', s') \<Longrightarrow> J s'"
  using socket_invariant.write_all_keeps [of T J s F]
  by (auto simp: MapiBuf_write_reset_def split: outcome.splits prod.splits) (metis snd_conv)+

lemma process_redirects_sock:
  "process_redirects sock state reply = Ok (Restart s) \<Longrightarrow> s = sock"
  "process_redirects sock state reply = Ok (Complete s st) \<Longrightarrow> s = sock \<and> st = state"
  by (auto simp: process_redirects_def Let_def split: if_splits option.splits)

lemma login_Ok:
  assumes "login N E v sock = Ok (l, delayed)"
  obtains chal response state s1 mbuf s2 mb s3 m1 m2 where
    "to_limited_string (ServerSock_read (env_T E)) (env_F E) (env_pol E) sock [] 5000 = (Ok s1, m1)"
    and "Challenge_new m1 = Ok chal" and "challenge_response N v chal = Ok (response, state, delayed)"
    and "MapiBuf_append response MapiBuf_new = Ok mbuf"
    and "MapiBuf_write_reset (env_debug E) (ServerSock_write (env_T E)) (env_F E) mbuf s1 = (Ok (), mb, s2)"
    and "to_limited_string (ServerSock_read (env_T E)) (env_F E) (env_pol E) s2 [] 5000 = (Ok s3, m2)"
    and "process_redirects s3 state m2 = Ok l"
proof -
  let ?read = "\<lambda>s. to_limited_string (ServerSock_read (env_T E)) (env_F E) (env_pol E) s [] 5000"
  obtain r1 m1 where e1: "?read sock = (r1, m1)" by (rule prod.exhaust)
  with assms obtain s1 chal response state mbuf where l: "r1 = Ok s1" "Challenge_new m1 = Ok chal"
      "challenge_response N v chal = Ok (response, state, delayed)" "MapiBuf_append response MapiBuf_new = Ok mbuf"
    by (auto simp: login_def connect_buf_def case_prod_beta)
  obtain r2 mb s2 where e2: "MapiBuf_write_reset (env_debug E) (ServerSock_write (env_T E)) (env_F E) mbuf s1 = (r2, mb, s2)" by (rule prod_cases3)
  obtain r3 m2 where e3: "?read s2 = (r3, m2)" by (rule prod.exhaust)
  from assms e1 l e2 e3 obtain s3 where "r2 = Ok ()" "r3 = Ok s3" "process_redirects s3 state m2 = Ok l"
    by (auto simp: login_def connect_buf_def)
  with e1 e2 e3 l show thesis by (intro that) auto
qed

lemma login_keeps:
  assumes "socket_invariant (env_T E) J" and "J sock" and "login N E v sock = Ok (l, delayed)"
    and "l = Restart s \<or> l = Complete s state"
  shows "J s"
proof -
  note message_keeps = reader_invariant.to_limited_string_keeps [OF socket_invariant.axioms(1) [OF assms(1)]]
  from assms(3) obtain s1 m1 mb s2 mb' s3 m2 st where
    l: "to_limited_string (ServerSock_read (env_T E)) (env_F E) (env_pol E) sock [] 5000 = (Ok s1, m1)"
      "MapiBuf_write_reset (env_debug E) (ServerSock_write (env_T E)) (env_F E) mb s1 = (Ok (), mb', s2)"
      "to_limited_string (ServerSock_read (env_T E)) (env_F E) (env_pol E) s2 [] 5000 = (Ok s3, m2)"
      "process_redirects s3 st m2 = Ok l" by (rule login_Ok) blast
  have "J s1" using message_keeps [OF l(1)] assms(2) by blast
  then have "J s2" using write_reset_keeps [OF assms(1) _ l(2)] by blast
  then have "J s3" using message_keeps [OF l(3)] by blast
  then show ?thesis using l(4) assms(4) process_redirects_sock by blast
qed

lemma turn_socket_Ok:
  assumes "turn_socket N E deadline p r w = (Ok (v, sock), w')"
  obtains now w1 where "Validated_new now p = Ok v"
    "(case r of Some sock \<Rightarrow> (Ok sock, w1) | None \<Rightarrow> connect_socket N E v deadline w1) = (Ok sock, w')"
  using assms validate_Ok by (fastforce simp: turn_socket_def bindS_Ok_iff)

lemma apply_redirect_Ok:
  assumes "apply_redirect U N p url w = (Ok p', w')"
  obtains v w1 where "validate N p w = (Ok v, w1)" and "v_tls v \<Longrightarrow> \<exists>v' w2. validate N p' w1 = (Ok v', w2) \<and> v_tls v'"
proof -
  obtain r q where a: "apply_url U (net_texts N) url p = (r, q)" by (rule prod.exhaust)
  obtain v w1 where v: "validate N p w = (Ok v, w1)"
    using assms unfolding apply_redirect_def bindS_Ok_iff by blast
  have r: "bindS (map_err CParm r, w1) (\<lambda>_ w. if v_tls v then bindS (validate N q w) (\<lambda>after w. if \<not> v_tls after then (Err TlsDowngrade, w) else (Ok q, w))
       else (Ok q, w)) = (Ok p', w')"
    using assms by (simp add: apply_redirect_def v a)
  have "\<exists>v' w2. validate N p' w1 = (Ok v', w2) \<and> v_tls v'" if "v_tls v"
    using r that by (simp add: bindS_Ok_iff) (metis Pair_inject outcome.distinct(1) outcome.inject(1))
  with v show thesis by (rule that)
qed

lemma apply_redirect_tls:
  assumes "apply_redirect U N p url w = (Ok p', w')" and "Parameters_get_bool PTls p = Ok True"
  shows "Parameters_get_bool PTls p' = Ok True"
proof -
  obtain v w1 where v: "validate N p w = (Ok v, w1)" "v_tls v \<Longrightarrow> \<exists>v' w2. validate N p' w1 = (Ok v', w2) \<and> v_tls v'"
    by (rule apply_redirect_Ok [OF assms(1)]) (rule that, assumption+)
  obtain now where "Validated_new now p = Ok v" using validate_Ok [OF v(1)] by blast
  from Validated_tls [OF this] assms(2) have "v_tls v" by simp
  with v(2) obtain v' w2 where v': "validate N p' w1 = (Ok v', w2)" "v_tls v'" by blast
  obtain now' where "Validated_new now' p' = Ok v'" using validate_Ok [OF v'(1)] by blast
  from Validated_tls [OF this] v'(2) show ?thesis by simp
qed

lemma connect_turn_login:
  "connect_turn U N E deadline p r w = (Ok t, w') \<Longrightarrow>
     \<exists>v sock w1 l delayed. turn_socket N E deadline p r w = (Ok (v, sock), w1) \<and> login N E v sock = Ok (l, delayed)"
  by (auto simp: connect_turn_def bindS_Ok_iff)

lemma connect_turn_Again:
  assumes "connect_turn U N E deadline p r w = (Ok (Again p' r'), w')"
  obtains v sock w1 l delayed where "turn_socket N E deadline p r w = (Ok (v, sock), w1)" and "login N E v sock = Ok (l, delayed)"
    and "(\<exists>url. l = Redirect url \<and> apply_redirect U N p url w1 = (Ok p', w') \<and> r' = None) \<or> (\<exists>s. l = Restart s \<and> p' = p \<and> r' = Some s)"
proof -
  obtain v sock w1 l delayed where t: "turn_socket N E deadline p r w = (Ok (v, sock), w1)" "login N E v sock = Ok (l, delayed)"
    using connect_turn_login [OF assms] by blast
  with assms show thesis by (intro that [OF t]) (cases l, auto simp: connect_turn_def bindS_Ok_iff)
qed

lemma connect_turn_Done:
  assumes "connect_turn U N E deadline p r w = (Ok (Done x), w')"
  obtains v sock s state delayed where "turn_socket N E deadline p r w = (Ok (v, sock), w')" and "login N E v sock = Ok (Complete s state, delayed)"
    and "complete_login N E v s state delayed = Ok x"
proof -
  obtain v sock w1 l delayed where t: "turn_socket N E deadline p r w = (Ok (v, sock), w1)" "login N E v sock = Ok (l, delayed)"
    using connect_turn_login [OF assms] by blast
  with assms obtain s state where "l = Complete s state" "w1 = w'" "complete_login N E v s state delayed = Ok x"
    by (cases l) (auto simp: connect_turn_def bindS_Ok_iff)
  with t show thesis by (intro that) auto
qed

text \<open>Streams for which \<open>secure\<close> holds: those a TLS client makes, whatever is done with them.\<close>

definition secure_streams :: "('t, 'a, 'w) net \<Rightarrow> ('t, 'z) env_scheme \<Rightarrow> ('t \<Rightarrow> bool) \<Rightarrow> bool" where
  "secure_streams N E secure \<longleftrightarrow> transport_invariant (env_T E) secure
     \<and> (\<forall>R config name s t. net_tls N = Some R \<longrightarrow> tls_client R config name s = Ok t \<longrightarrow> secure t)"

lemma turn_socket_secure:
  assumes "secure_streams N E secure" and "Parameters_get_bool PTls p = Ok True" and "\<forall>s. r = Some s \<longrightarrow> secure (inner s)"
    and "turn_socket N E deadline p r w = (Ok (v, sock), w')"
  shows "v_tls v \<and> secure (inner sock)"
proof -
  obtain now w1 where t: "Validated_new now p = Ok v"
    "(case r of Some sock \<Rightarrow> (Ok sock, w1) | None \<Rightarrow> connect_socket N E v deadline w1) = (Ok sock, w')"
    by (rule turn_socket_Ok [OF assms(4)])
  have v: "v_tls v" using Validated_tls [OF t(1)] assms(2) by simp
  show ?thesis
  proof (cases r)
    case None
    then have "connect_socket N E v deadline w1 = (Ok sock, w')" using t(2) by simp
    from connect_socket_tls [OF this v Validated_unix [OF t(1) v]] assms(1) v show ?thesis by (auto simp: secure_streams_def)
  next
    case (Some s)
    with t(2) assms(3) v show ?thesis by auto
  qed
qed

text \<open>What holds of parameters and sockets over all attempts.\<close>

definition attempts_keep :: "url_lib \<Rightarrow> ('t, 'a, 'w) net \<Rightarrow> ('t, 'z) env_scheme \<Rightarrow> (Parameters \<Rightarrow> bool) \<Rightarrow> ('t ServerSock \<Rightarrow> bool) \<Rightarrow> bool" where
  "attempts_keep U N E Q J \<longleftrightarrow> socket_invariant (env_T E) J
     \<and> (\<forall>deadline p r w v sock w'. Q p \<longrightarrow> (\<forall>s. r = Some s \<longrightarrow> J s) \<longrightarrow> turn_socket N E deadline p r w = (Ok (v, sock), w') \<longrightarrow> J sock)
     \<and> (\<forall>p url w p' w'. Q p \<longrightarrow> apply_redirect U N p url w = (Ok p', w') \<longrightarrow> Q p')"

lemma attempted_keeps:
  assumes "attempted U N E deadline p w p' r' w'" and k: "attempts_keep U N E Q J" and "Q p"
  shows "Q p' \<and> (\<forall>s. r' = Some s \<longrightarrow> J s)"
  using assms(1)
proof induction
  case start
  then show ?case using assms(3) by simp
next
  case (again p1 r1 w1 p2 r2 w2)
  from again(2) obtain v sock w3 l delayed where t: "turn_socket N E deadline p1 r1 w1 = (Ok (v, sock), w3)" "login N E v sock = Ok (l, delayed)"
      "(\<exists>url. l = Redirect url \<and> apply_redirect U N p1 url w3 = (Ok p2, w2) \<and> r2 = None) \<or> (\<exists>s. l = Restart s \<and> p2 = p1 \<and> r2 = Some s)"
    by (rule connect_turn_Again)
  have "J sock" using k t(1) again.IH unfolding attempts_keep_def by blast
  moreover have "socket_invariant (env_T E) J" using k by (simp add: attempts_keep_def)
  ultimately have "J s" if "l = Restart s" for s using login_keeps [OF _ _ t(2)] that by blast
  with t(3) again.IH k show ?case unfolding attempts_keep_def by blast
qed

lemma complete_login_Ok:
  assumes "complete_login N E v sock state delayed = Ok x"
  obtains s d where "send_delayed E delayed sock = (Ok s, d)"
    and "x = (ServerSock_set_connection_deadline (Timeouts_from_validated v) None s, state, d, Timeouts_from_validated v)"
  using assms
  by (cases "send_delayed E delayed sock"; cases "fst (send_delayed E delayed sock)")
     (auto simp: complete_login_def Let_def split: CursorError.splits)

lemma complete_login_keeps:
  assumes "socket_invariant (env_T E) J" and "J sock" and "complete_login N E v sock state delayed = Ok x"
  obtains s where "J s" and "fst x = ServerSock_set_connection_deadline (Timeouts_from_validated v) None s"
proof -
  obtain s d where s: "send_delayed E delayed sock = (Ok s, d)"
    "x = (ServerSock_set_connection_deadline (Timeouts_from_validated v) None s, state, d, Timeouts_from_validated v)"
    using assms(3) by (rule complete_login_Ok)
  have "J s" using s(1) socket_invariant.write_all_keeps [OF assms(1,2), of "env_F E"]
    by (auto simp: send_delayed_def split: outcome.splits prod.splits) (metis snd_conv)
  then show thesis using that s(2) by simp
qed

text \<open>The result of the loop comes from one of its states.\<close>

lemma establish_loop_Ok:
  "establish_loop n U N E deadline p1 r1 w1 = (Ok x, w') \<Longrightarrow> attempted U N E deadline p w p1 r1 w1 \<Longrightarrow>
     \<exists>p2 r2 w2 w3. attempted U N E deadline p w p2 r2 w2 \<and> connect_turn U N E deadline p2 r2 w2 = (Ok (Done x), w3)"
proof (induction n arbitrary: p1 r1 w1)
  case (Suc n)
  from Suc.prems(1) obtain t w2 where t: "connect_turn U N E deadline p1 r1 w1 = (Ok t, w2)" by (auto simp: bindS_Ok_iff)
  show ?case
  proof (cases t)
    case (Again p2 r2)
    then show ?thesis using Suc.IH [of p2 r2 w2] Suc.prems t attempted.again [OF Suc.prems(2), of p2 r2 w2] by simp
  qed (use Suc.prems t in auto)
qed simp

lemma establish_keeps:
  assumes "establish_connection U N E p w = (Ok (sock, rest), w')" and k: "attempts_keep U N E Q J" and "Q p"
  obtains s v where "J s" and "sock = ServerSock_set_connection_deadline (Timeouts_from_validated v) None s"
proof -
  have inv: "socket_invariant (env_T E) J" using k by (simp add: attempts_keep_def)
  from assms(1) obtain deadline w0 where "establish_loop 10 U N E deadline p None w0 = (Ok (sock, rest), w')"
    by (auto simp: establish_connection_def bindS_Ok_iff case_prod_beta)
  from establish_loop_Ok [OF this attempted.start] obtain p2 r2 w2 w3 where
    a: "attempted U N E deadline p w0 p2 r2 w2" "connect_turn U N E deadline p2 r2 w2 = (Ok (Done (sock, rest)), w3)" by blast
  from a(2) obtain v s0 s state delayed where d: "turn_socket N E deadline p2 r2 w2 = (Ok (v, s0), w3)"
      "login N E v s0 = Ok (Complete s state, delayed)" "complete_login N E v s state delayed = Ok (sock, rest)"
    by (rule connect_turn_Done)
  have "J s0" using attempted_keeps [OF a(1) k assms(3)] d(1) k unfolding attempts_keep_def by blast
  then have "J s" by (rule login_keeps [OF inv _ d(2) disjI2 [OF refl]])
  then obtain s' where "J s'" "sock = ServerSock_set_connection_deadline (Timeouts_from_validated v) None s'"
    by (rule complete_login_keeps [OF inv _ d(3)]) simp
  then show thesis by (rule that)
qed

text \<open>A socket is live as long as nobody has shut it down; connecting gives live sockets.\<close>

definition live :: "'t ServerSock \<Rightarrow> bool" where
  "live s \<longleftrightarrow> sc_raw (control s) \<noteq> None"

lemma live_invariant: "socket_invariant T live"
  using sock_both.socket_invariant_axioms [of T "\<lambda>c. sc_raw c \<noteq> None"] by (simp add: live_def [abs_def])

lemma live_write: "write_all (ServerSock_write T) f buf s = (res, s') \<Longrightarrow> live s \<Longrightarrow> live s'"
  using socket_invariant.write_all_keeps [OF live_invariant, of s T f buf] by simp

lemma live_new: "live (ServerSock_with_control t (SocketControl_new raw ts))"
  by (simp add: live_def ServerSock_with_control_def SocketControl_new_def)

lemma connect_over_tcp_live:
  assumes "connect_over_tcp N E v deadline e w = (Ok sock, w')"
  shows "live sock"
proof -
  from assms obtain s w1 where s: "connect_tcp_socket N v deadline w = (Ok s, w1)" "wrap_tls N E v s w1 = Ok sock"
    by (auto simp: connect_over_tcp_def split: if_splits prod.splits outcome.splits)
  have l: "live s" using s(1) by (auto simp: connect_tcp_socket_def bindS_Ok_iff ServerSock_from_tcp_def live_new split: option.splits)
  show ?thesis
  proof (cases "v_tls v")
    case True
    with s(2) obtain R where "wrap_inner R (net_texts N) v s w1 = Ok sock"
      by (auto simp: wrap_tls_def wrap_with_rustls_def split: option.splits)
    then have "control sock = control s" by (auto simp: wrap_inner_def Let_def ServerSock_wrap_def)
    with l show ?thesis by (simp add: live_def)
  next
    case False
    with s(2) l show ?thesis by (auto simp: wrap_tls_def split: prod.splits intro: live_write)
  qed
qed

lemma turn_socket_live:
  assumes "turn_socket N E deadline p r w = (Ok (v, sock), w')" and "\<forall>s. r = Some s \<longrightarrow> live s"
  shows "live sock"
proof -
  obtain now w1 where t: "(case r of Some sock \<Rightarrow> (Ok sock, w1) | None \<Rightarrow> connect_socket N E v deadline w1) = (Ok sock, w')"
    by (rule turn_socket_Ok [OF assms(1)]) 
  have unix: "live s" if "connect_unix_socket N E v deadline w1 = (Ok s, w2)" for s w2
    using that live_write [OF prod.collapse [symmetric] live_new]
    by (fastforce simp: connect_unix_socket_def bindS_Ok_iff ServerSock_from_unix_def case_prod_beta split: option.splits)
  show ?thesis
  proof (cases r)
    case None
    with t unix connect_over_tcp_live show ?thesis
      by (fastforce simp: connect_socket_def split: if_splits prod.splits outcome.splits)
  next
    case (Some s)
    with t assms(2) show ?thesis by auto
  qed
qed

lemma established_live: "establish_connection U N E p w = (Ok (sock, rest), w') \<Longrightarrow> live sock"
proof -
  assume e: "establish_connection U N E p w = (Ok (sock, rest), w')"
  have "attempts_keep U N E (\<lambda>_. True) live" using turn_socket_live by (auto simp: attempts_keep_def live_invariant)
  then show ?thesis
    by (rule establish_keeps [OF e]) (auto simp: live_def ServerSock_set_connection_deadline_def SocketControl_set_connection_deadline_def)
qed

text \<open>C6. A connection that asks for TLS never falls back to plain text: whatever the server answers, including any chain of redirects
  and restarts, every socket \<open>establish_connection\<close> logs in on, and the one it returns, is a stream made by the TLS
  client, and the parameters of every attempt have TLS on. So the password hash is never written to a plain connection. The
  hypothesis on streams is that what the TLS client makes is secure and stays so whatever is read and written.\<close>

theorem tls_never_downgraded:
  assumes "secure_streams N E secure" and "Parameters_get_bool PTls p = Ok True"
  shows "(\<forall>deadline w0 p' r' w' v sock w''. attempted U N E deadline p w0 p' r' w' \<longrightarrow>
      turn_socket N E deadline p' r' w' = (Ok (v, sock), w'') \<longrightarrow> v_tls v \<and> secure (inner sock))
    \<and> (\<forall>sock rest w'. establish_connection U N E p w = (Ok (sock, rest), w') \<longrightarrow> secure (inner sock))"
proof -
  have inv: "socket_invariant (env_T E) (\<lambda>s. secure (inner s))" using assms(1) by (simp add: secure_streams_def transport_invariant.socket)
  have k: "attempts_keep U N E (\<lambda>p. Parameters_get_bool PTls p = Ok True) (\<lambda>s. secure (inner s))"
    unfolding attempts_keep_def using inv turn_socket_secure [OF assms(1)] by (metis apply_redirect_tls)
  have "v_tls v \<and> secure (inner sock)"
    if "attempted U N E deadline p w0 p' r' w'" "turn_socket N E deadline p' r' w' = (Ok (v, sock), w'')" for deadline w0 p' r' w' v sock w''
    using attempted_keeps [OF that(1) k assms(2)] turn_socket_secure [OF assms(1) _ _ that(2)] by blast
  moreover have "secure (inner sock)" if "establish_connection U N E p w = (Ok (sock, rest), w')" for sock rest w'
    by (rule establish_keeps [OF that k assms(2)]) (simp add: ServerSock_set_connection_deadline_def)
  ultimately show ?thesis by blast
qed

text \<open>For the example: a world whose TLS client marks its streams.\<close>

definition example_tls :: "(script, nat) tls_lib" where
  "example_tls = \<lparr>tls_platform_verifier = Ok (), tls_pem_certificates = (\<lambda>_ _. Ok [''cert'']), tls_add_root = (\<lambda>_. Ok ()),
     tls_pem_key = (\<lambda>_ _. Ok ''key''), tls_client_auth = (\<lambda>_ _. Ok ()), tls_server_name = (\<lambda>_. Ok ()),
     tls_client = (\<lambda>_ _ s. Ok (example_script\<lparr>sent := ''tls''\<rparr>))\<rparr>"

definition example_tls_net :: "(script, nat, nat) net" where
  "example_tls_net = (example_net example_script)\<lparr>net_tls := Some example_tls\<rparr>"

definition example_tls_parms :: Parameters where
  "example_tls_parms = Parameters_put PTls (VBool True) DEFAULT_PARAMETERS"

lemma example_tls_get: "Parameters_get example_tls_parms q = (if q = PTls then VBool True else default_parameter_value_by_index (Parm_index q))"
  by (simp add: example_tls_parms_def params.get_put wf_default default_value)

lemma example_tls_secure: "secure_streams example_tls_net (script_env 100) (\<lambda>s. prefix ''tls'' (sent s))"
  using script_sent.transport_invariant_axioms [of "''tls''"]
  by (auto simp: secure_streams_def script_env_def example_tls_net_def example_tls_def)

lemma example_tls_validated: "\<exists>v. Validated_new 0 example_tls_parms = Ok v \<and> v_connect_tcp v = ''localhost'' \<and> v_connect_tls_verify v = VerifySystem
   \<and> v_connect_unix v = [] \<and> v_connect_clientkey v = [] \<and> v_tls v"
proof -
  have e: "extract_parms example_tls_parms = Ok \<lparr>raw_port = - 1, raw_tls = True, raw_autocommit = True, raw_replysize = 200,
      raw_maxprefetch = 2500, raw_timezone = 0, raw_connect_timeout = 30, raw_read_timeout = 0, raw_write_timeout = 60,
      raw_operation_timeout = 0, raw_max_response_size = 1073741824, raw_client_info = True\<rparr>"
    by (simp add: extract_parms_def Parameters_get_int_def Parameters_get_bool_def example_tls_get default_parameter_value_by_index_def)
  have t: "\<not> timezone_set example_tls_parms" by (simp add: example_tls_parms_def default_flags)
  show ?thesis
    by (simp add: Validated_new_def e t Let_def check_def example_tls_get default_parameter_value_by_index_def binary_value_def
        parse_bool_def eq_ignore_ascii_case_def valid_name_def valid_port_def valid_timezone_def valid_timeout_def
        MAX_TIMEOUT_SECONDS_def instant_max_def valid_size_def valid_maxprefetch_def build_validated_def derive_tcp_def derive_unix_def
        derive_tls_verify_def)
qed

theorem tls_never_downgraded_witness:
  "\<exists>v sock w. turn_socket example_tls_net (script_env 100) None example_tls_parms None 0 = (Ok (v, sock), w)
     \<and> v_tls v \<and> prefix ''tls'' (sent (inner sock))"
proof -
  obtain v where v: "Validated_new 0 example_tls_parms = Ok v" "v_connect_tcp v = ''localhost''" "v_connect_tls_verify v = VerifySystem"
    "v_connect_unix v = []" "v_connect_clientkey v = []" "v_tls v" using example_tls_validated by blast
  have "\<exists>sock w. turn_socket example_tls_net (script_env 100) None example_tls_parms None 0 = (Ok (v, sock), w)"
    by (simp add: turn_socket_def validate_def example_tls_net_def example_net_def v connect_socket_def connect_over_tcp_def
        connect_tcp_socket_def resolve_tcp_addresses_def run_io_with_deadline_def ConnectionDeadline_remaining_def ServerSock_from_tcp_def
        wrap_tls_def wrap_with_rustls_def wrap_inner_def tls_verification_def tls_authentication_def example_tls_def Let_def)
  then obtain sock w where t: "turn_socket example_tls_net (script_env 100) None example_tls_parms None 0 = (Ok (v, sock), w)" by blast
  have "Parameters_get_bool PTls example_tls_parms = Ok True" by (simp add: Parameters_get_bool_def example_tls_get)
  from tls_never_downgraded [OF example_tls_secure this, of "\<lambda>_. Err []", THEN conjunct1, rule_format, OF attempted.start t] t
  show ?thesis by blast
qed

section \<open>What a new connection is like\<close>

lemma challenge_response_ready:
  assumes "challenge_response N v chal = Ok (response, state, delayed)" and "v_language v = ''sql''"
  shows "st_autocommit state = v_autocommit v \<and> st_reply_size state = v_replysize v \<and> st_max_response_size state = v_max_response_size v
    \<and> (\<exists>cmds. dc_holds delayed cmds)"
proof -
  obtain pre algo where a: "find_algo (ch_prehash_algo chal) = Some pre" "find_algo (ch_response_algos chal) = Some algo"
    using assms(1) by (auto simp: challenge_response_def Let_def split: prod.splits)
  obtain user password where cred: "login_credentials v chal = (user, password)" by (cases "login_credentials v chal")
  show ?thesis
    by (rule challenge_response_Ok [OF a assms(2) cred, of N]) (use assms(1) in \<open>auto simp: session_state_def ServerState_new_def\<close>)
qed

lemma send_delayed_holds:
  assumes "send_delayed E d s = (Ok s', d')" and "dc_holds d cs"
  shows "mb_holds (dc_buffer d') [] [] \<and> dc_responses d' = map expected cs"
  using assms(1) MapiBuf_reset_holds [of "dc_buffer d" "map (\<lambda>c. terminated (fst (snd c))) cs" "env_debug E"] assms(2)
  by (auto simp: send_delayed_def dc_waits_def split: prod.splits)

end
