(* ===== verification/Exchange.thy ===== *)
theory Exchange
  imports Cursor Connecting
begin

text \<open>
  Conversations with a server over a transport on which nothing fails: the components composed. What is pending on the transport
  is everything the server will send; writing does not change it.
\<close>

section \<open>Talking\<close>

lemma recv_message_control:
  "reader_invariant (ServerSock_read (env_T E)) J \<Longrightarrow> recv_message E limit s = (Ok s', m) \<Longrightarrow> J s \<Longrightarrow> J s'"
  by (auto simp: recv_message_def io_result_def split: prod.splits intro: reader_invariant.to_limited_keeps)

lemma recv_loop_keeps:
  assumes "reader_invariant (ServerSock_read (env_T E)) J"
  shows "recv_loop E limit rs s fe b = (Ok (s', e), b') \<Longrightarrow> J s \<Longrightarrow> J s'"
proof (induction rs arbitrary: s fe b)
  case (Cons r rs)
  then show ?case
    using recv_message_control [OF assms, of limit s]
    by (cases "recv_message E limit s"; cases "fst (recv_message E limit s)") auto
qed simp

text \<open>What is in the caller's buffer does not matter to the delayed responses.\<close>

lemma recv_loop_buffer: "fst (recv_loop E limit rs s fe b) = fst (recv_loop E limit rs s fe b')"
  by (cases rs) (auto split: prod.splits outcome.splits)

lemma recv_delayed_buffer: "recv_delayed E limit d s b = recv_delayed E limit d s b'"
  using recv_loop_buffer [of E limit "dc_responses d" s None b b']
  by (auto simp: recv_delayed_def recv_delayed_inner_def split: prod.splits)

text \<open>A socket in a conversation: its transport is fine, it has no deadline, and its timeouts are within the maximum.\<close>

definition talking :: "('t \<Rightarrow> bool) \<Rightarrow> 't ServerSock \<Rightarrow> bool" where
  "talking tok s \<longleftrightarrow> calm_ok tok s \<and> (\<forall>l. a_write (sc_timeouts (control s)) = Some l \<longrightarrow> l \<le> MAX_TIMEOUT)"

locale conversation_transport = reliable_transport T tok tpend tpat
  for T :: "'t transport" and tok :: "'t \<Rightarrow> bool" and tpend :: "'t \<Rightarrow> bytes" and tpat :: "'t \<Rightarrow> nat" +
  fixes out :: "'t \<Rightarrow> bytes"
  assumes write_ok: "tok t \<Longrightarrow> buf \<noteq> [] \<Longrightarrow> \<exists>n t'. tr_write T buf t = (Ok n, t') \<and> 0 < n \<and> n \<le> length buf
      \<and> tok t' \<and> tpend t' = tpend t \<and> tpat t' = tpat t \<and> out t' = out t @ take n buf"
    and set_write_ok: "tok t \<Longrightarrow> \<exists>t'. tr_set_write_timeout T d t = (Ok (), t')
      \<and> tok t' \<and> tpend t' = tpend t \<and> tpat t' = tpat t \<and> out t' = out t"
    and read_out: "out (snd (tr_read T n t)) = out t"
    and set_read_out: "out (snd (tr_set_read_timeout T d t)) = out t"
begin

text \<open>What a write may change: nothing but what was sent.\<close>

definition wrote :: "bytes \<Rightarrow> 't ServerSock \<Rightarrow> 't ServerSock \<Rightarrow> bool" where
  "wrote data s s' \<longleftrightarrow> talking tok s' \<and> control s' = control s \<and> sock_pend tpend s' = sock_pend tpend s
     \<and> sock_patience tpat s' = sock_patience tpat s \<and> out (inner s') = out (inner s) @ data"

lemma wrote_trans: "wrote a s s1 \<Longrightarrow> wrote b s1 s2 \<Longrightarrow> wrote (a @ b) s s2"
  by (simp add: wrote_def)

lemma wrote_inner:
  assumes "talking tok s" and "tok t'" and "tpend t' = tpend (inner s)" and "tpat t' = tpat (inner s)" and "out t' = out (inner s) @ data"
  shows "wrote data s (s\<lparr>inner := t'\<rparr>)" "wrote data s (s\<lparr>inner := t', last_write_timeout := l\<rparr>)"
  using assms by (auto simp: wrote_def talking_def calm_ok_def sock_calm_def sock_defs split: option.splits)

lemma apply_write_timeout_ok: "talking tok s \<Longrightarrow> \<exists>s'. apply_write_timeout T s = (Ok (), s') \<and> wrote [] s s' \<and> read_buffer s' = read_buffer s"
proof -
  assume s: "talking tok s"
  let ?l = "a_write (sc_timeouts (control s))"
  have lim: "SocketControl_write_limit now (control s) = Ok ?l" for now
    using s by (auto simp: SocketControl_write_limit_def ActiveTimeouts_write_limit_def talking_def calm_ok_def sock_calm_def intro!: limit_no_deadline)
  have "tok (inner s)" using s by (simp add: talking_def calm_ok_def sock_ok_def)
  from set_write_ok [OF this, of ?l] obtain t' where t': "tr_set_write_timeout T ?l (inner s) = (Ok (), t')" "tok t'"
    "tpend t' = tpend (inner s)" "tpat t' = tpat (inner s)" "out t' = out (inner s)" by blast
  with wrote_inner(2) [where data = "[]" and l = "Some ?l", OF s t'(2-4)] s show ?thesis
    by (auto simp: apply_write_timeout_def lim on_inner_def wrote_def)
qed

lemma with_write_ok:
  assumes s: "talking tok s" and w: "\<And>t. tok t \<Longrightarrow> \<exists>n t'. w t = (Ok n, t') \<and> P n \<and> tok t' \<and> tpend t' = tpend t \<and> tpat t' = tpat t \<and> out t' = out t @ d n"
  shows "\<exists>n s'. with_write_timeout T w s = (Ok n, s') \<and> P n \<and> wrote (d n) s s'"
proof -
  have w: "\<exists>n s'. on_inner w s1 = (Ok n, s') \<and> P n \<and> wrote (d n) s1 s'" if s1: "talking tok s1" for s1
  proof -
    have "tok (inner s1)" using s1 by (simp add: talking_def calm_ok_def sock_ok_def)
    from w [OF this] obtain n t' where "w (inner s1) = (Ok n, t')" "P n" "tok t'"
      "tpend t' = tpend (inner s1)" "tpat t' = tpat (inner s1)" "out t' = out (inner s1) @ d n" by blast
    with wrote_inner(1) [OF s1] show ?thesis by (simp add: on_inner_def)
  qed
  show ?thesis
  proof (cases "read_buffer s")
    case None
    with w [OF s] show ?thesis by (simp add: with_write_timeout_def)
  next
    case (Some b)
    from apply_write_timeout_ok [OF s] obtain s1 where s1: "apply_write_timeout T s = (Ok (), s1)" "wrote [] s s1" by blast
    then have "talking tok s1" by (simp add: wrote_def)
    from w [OF this] obtain n s' where "on_inner w s1 = (Ok n, s')" "P n" "wrote (d n) s1 s'" by blast
    with s1 Some wrote_trans [of "[]" s s1 "d n" s'] show ?thesis by (simp add: with_write_timeout_def)
  qed
qed

lemma sock_write_ok:
  assumes s: "talking tok s" and "buf \<noteq> []"
  shows "\<exists>n s'. ServerSock_write T buf s = (Ok n, s') \<and> 0 < n \<and> n \<le> length buf \<and> wrote (take n buf) s s'"
  using with_write_ok [OF s, of "tr_write T buf" "\<lambda>n. 0 < n \<and> n \<le> length buf" "\<lambda>n. take n buf"] write_ok [OF _ assms(2)]
  by (simp add: ServerSock_write_def)

lemma write_all_ok:
  "talking tok s \<Longrightarrow> length buf < f \<Longrightarrow> \<exists>s'. write_all (ServerSock_write T) f buf s = (Ok (), s') \<and> wrote buf s s'"
proof (induction f arbitrary: buf s)
  case (Suc f)
  show ?case
  proof (cases "buf = []")
    case True
    then show ?thesis using Suc.prems(1) by (simp add: wrote_def)
  next
    case False
    from sock_write_ok [OF Suc.prems(1) False] obtain n s1 where w: "ServerSock_write T buf s = (Ok n, s1)" "0 < n" "n \<le> length buf"
      "wrote (take n buf) s s1" by blast
    moreover have "talking tok s1" using w(4) by (simp add: wrote_def)
    moreover have "length (drop n buf) < f" using w(2,3) Suc.prems(2) by simp
    ultimately obtain s2 where "write_all (ServerSock_write T) f (drop n buf) s1 = (Ok (), s2)" "wrote (drop n buf) s1 s2"
      using Suc.IH by blast
    with w False wrote_trans [OF w(4)] show ?thesis by fastforce
  qed
qed simp

text \<open>What reading messages may change.\<close>

definition heard :: "bytes \<Rightarrow> 't ServerSock \<Rightarrow> 't ServerSock \<Rightarrow> bool" where
  "heard rest s s' \<longleftrightarrow> talking tok s' \<and> control s' = control s \<and> sock_pend tpend s' = rest
     \<and> sock_patience tpat s' \<le> sock_patience tpat s \<and> out (inner s') = out (inner s)"

lemma reads_keep_out: "read_invariant T (\<lambda>t. out t = x)"
  by unfold_locales (simp_all add: read_out set_read_out)

lemma recv_ok:
  assumes "talking tok s" and "sock_pend tpend s = frame m @ rest" and "length (sock_pend tpend s) + sock_patience tpat s < F"
    and "\<forall>k. 0 < pol k" and "length m \<le> limit"
  shows "\<exists>s'. to_limited (ServerSock_read T) F pol s [] limit = (Ok s', m) \<and> heard rest s s'"
proof -
  have "calm.load s < F" using assms(3) by (simp add: calm.load_def)
  moreover have "calm_ok tok s" using assms(1) by (simp add: talking_def)
  ultimately obtain s' where s': "to_limited (ServerSock_read T) F pol s [] limit = (Ok s', m)" "sock_pend tpend s' = rest" "calm_ok tok s'"
      "sock_patience tpat s' \<le> sock_patience tpat s"
    using calm.to_limited_exact(1) [OF assms(2), of F pol limit "[]"] assms(4,5) by auto
  moreover have "out (inner s') = out (inner s)"
    by (rule reader_invariant.to_limited_keeps [OF read_invariant.sock_reader [OF reads_keep_out] s'(1) refl])
  moreover have "control s' = control s" by (rule sock_control.to_limited_keeps [OF s'(1) refl])
  ultimately show ?thesis using assms(1) by (simp add: heard_def talking_def)
qed

lemma recv_string_ok:
  assumes "talking tok s" and "sock_pend tpend s = frame m @ rest" and "length (sock_pend tpend s) + sock_patience tpat s < F"
    and "\<forall>k. 0 < pol k" and "length m \<le> limit" and "utf8_valid m"
  shows "\<exists>s'. to_limited_string (ServerSock_read T) F pol s [] limit = (Ok s', m) \<and> heard rest s s'"
  using recv_ok [OF assms(1-5)] assms(6) by (auto simp: to_limited_def to_limited_string_def split: prod.splits)

text \<open>The exchange of one command: the delayed commands and their responses first.\<close>

lemma delayed_heard:
  assumes E: "env_T E = T" and "talking tok s" and "sock_pend tpend s = concat (map frame ms) @ rest"
    and "length (sock_pend tpend s) + sock_patience tpat s < env_F E"
    and "\<forall>k. 0 < env_pol E k" and "length ms = length (dc_responses d)" and "\<forall>m\<in>set ms. length m \<le> limit"
  shows "\<exists>s'. recv_delayed E limit d s b = (Ok (s', first_failure (env_L E) (dc_responses d) ms), d\<lparr>dc_responses := []\<rparr>, []) \<and> heard rest s s'"
proof -
  have "reliable_transport (env_T E) tok tpend tpat" unfolding E by (rule reliable_transport_axioms)
  from recv_loop_ok [OF this assms(5,6) _ assms(3,4,7), of None b] assms(2) obtain s' b' where
    s': "recv_loop E limit (dc_responses d) s None b = (Ok (s', first_failure (env_L E) (dc_responses d) ms), b')"
      "sock_pend tpend s' = rest" "calm_ok tok s'" "sock_patience tpat s' \<le> sock_patience tpat s"
    by (auto simp: talking_def)
  have "out (inner s') = out (inner s)"
    by (rule recv_loop_keeps [OF _ s'(1) refl]) (simp add: E read_invariant.sock_reader [OF reads_keep_out])
  moreover have "control s' = control s" by (rule recv_loop_keeps [OF sock_control.reader_invariant_axioms s'(1) refl])
  ultimately show ?thesis using s' assms(2) by (simp add: heard_def talking_def recv_delayed_def recv_delayed_inner_def)
qed

lemma send_ok:
  assumes E: "env_T E = T" and "talking tok s" and "dc_waits d ss cs"
    and "length (concat (map (\<lambda>c. frame (terminated (fst (snd c)))) cs) @ frame (concat extra)) < env_F E"
  shows "\<exists>s' d'. send_delayed_plus E extra d s = (Ok s', d') \<and> wrote (concat (map (\<lambda>c. frame (terminated (fst (snd c)))) cs) @ frame (concat extra)) s s'
    \<and> mb_holds (dc_buffer d') [] [] \<and> dc_responses d' = map expected (ss @ cs)"
proof -
  let ?data = "concat (map (\<lambda>c. frame (terminated (fst (snd c)))) cs) @ frame (concat extra)"
  have h: "mb_holds (dc_buffer d) (map (\<lambda>c. terminated (fst (snd c))) cs) []" "dc_responses d = map expected (ss @ cs)"
    using assms(3) by (simp_all add: dc_waits_def)
  from write_all_ok [OF assms(2,4)] obtain s' where s': "write_all (ServerSock_write T) (env_F E) ?data s = (Ok (), s')" "wrote ?data s s'" by blast
  have data: "concat (map frame (map (\<lambda>c. terminated (fst (snd c))) cs)) @ frame ([] @ concat extra) = ?data" by (simp add: comp_def)
  from write_reset_plus_holds [OF h(1), of "env_debug E" "ServerSock_write (env_T E)" "env_F E" extra s, unfolded data] s' h(2) E
  show ?thesis by (auto simp: send_delayed_plus_def io_result_def)
qed

lemma delayed_exchanged:
  assumes E: "env_T E = T" and pol: "\<forall>k. 0 < env_pol E k" and s: "talking tok s" and d: "dc_waits d ss cs"
    and pend: "sock_pend tpend s = concat (map frame ms) @ rest" and ms: "length ms = length (ss @ cs)"
    and fuel: "length (sock_pend tpend s) + sock_patience tpat s < env_F E"
      "length (concat (map (\<lambda>c. frame (terminated (fst (snd c)))) cs) @ frame (concat command)) < env_F E"
    and limit: "\<forall>m\<in>set ms. length m \<le> limit"
  obtains s1 d1 s2 d2 where "send_delayed_plus E command d s = (Ok s1, d1)"
    "\<And>b. recv_delayed E limit d1 s1 b = (Ok (s2, first_failure (env_L E) (map expected (ss @ cs)) ms), d2, [])" "dc_holds d2 []"
    "talking tok s2" "control s2 = control s" "sock_pend tpend s2 = rest" "sock_patience tpat s2 \<le> sock_patience tpat s"
    "out (inner s2) = out (inner s) @ concat (map (\<lambda>c. frame (terminated (fst (snd c)))) cs) @ frame (concat command)"
proof -
  from send_ok [OF E s d fuel(2)] obtain s1 d1 where s1: "send_delayed_plus E command d s = (Ok s1, d1)"
    "wrote (concat (map (\<lambda>c. frame (terminated (fst (snd c)))) cs) @ frame (concat command)) s s1"
    "mb_holds (dc_buffer d1) [] []" "dc_responses d1 = map expected (ss @ cs)" by blast
  then have w: "talking tok s1" "sock_pend tpend s1 = concat (map frame ms) @ rest" "sock_patience tpat s1 = sock_patience tpat s"
    "control s1 = control s" using pend by (simp_all add: wrote_def)
  have f1: "length (sock_pend tpend s1) + sock_patience tpat s1 < env_F E" using fuel(1) w(2,3) pend by simp
  have "length ms = length (dc_responses d1)" using ms s1(4) by simp
  note heard = delayed_heard [OF E w(1,2) f1 pol this limit]
  from heard [of "[]"] obtain s2 where s2: "recv_delayed E limit d1 s1 [] = (Ok (s2, first_failure (env_L E) (map expected (ss @ cs)) ms), d1\<lparr>dc_responses := []\<rparr>, [])"
      "heard rest s1 s2" using s1(4) by auto
  have "recv_delayed E limit d1 s1 b = (Ok (s2, first_failure (env_L E) (map expected (ss @ cs)) ms), d1\<lparr>dc_responses := []\<rparr>, [])" for b
    using heard [of b] s2(1) s1(4) recv_delayed_buffer [of E limit d1 s1 b "[]"] by auto
  moreover have "dc_holds (d1\<lparr>dc_responses := []\<rparr>) []" using s1(3) by (simp add: dc_waits_def)
  ultimately show thesis using that [OF s1(1)] s1(2) s2(2) w(3,4) by (auto simp: heard_def wrote_def)
qed

lemma exchange:
  assumes E: "env_T E = T" and pol: "\<forall>k. 0 < env_pol E k" and s: "talking tok s" and d: "dc_waits d ss cs"
    and pend: "sock_pend tpend s = concat (map frame ms) @ frame m @ rest" and ms: "length ms = length (ss @ cs)"
    and fuel: "length (sock_pend tpend s) + sock_patience tpat s < env_F E"
      "length (concat (map (\<lambda>c. frame (terminated (fst (snd c)))) cs) @ frame (concat command)) < env_F E"
    and limit: "\<forall>m'\<in>set (m # ms). length m' \<le> limit"
  shows "\<exists>s' d'. command_operation E limit command v st d s = (Ok s', st, d', first_failure (env_L E) (map expected (ss @ cs)) ms, m)
    \<and> dc_holds d' [] \<and> sock_pend tpend s' = rest \<and> sock_patience tpat s' \<le> sock_patience tpat s \<and> talking tok s' \<and> control s' = control s
    \<and> out (inner s') = out (inner s) @ concat (map (\<lambda>c. frame (terminated (fst (snd c)))) cs) @ frame (concat command)"
proof -
  have l: "\<forall>m\<in>set ms. length m \<le> limit" "length m \<le> limit" using limit by simp_all
  obtain s1 d1 s2 d2 where x: "send_delayed_plus E command d s = (Ok s1, d1)"
    "\<And>b. recv_delayed E limit d1 s1 b = (Ok (s2, first_failure (env_L E) (map expected (ss @ cs)) ms), d2, [])" "dc_holds d2 []"
    "talking tok s2" "control s2 = control s" "sock_pend tpend s2 = frame m @ rest" "sock_patience tpat s2 \<le> sock_patience tpat s"
    "out (inner s2) = out (inner s) @ concat (map (\<lambda>c. frame (terminated (fst (snd c)))) cs) @ frame (concat command)"
    by (rule delayed_exchanged [OF E pol s d pend ms fuel l(1)]) (rule that, assumption+)
  have "length (sock_pend tpend s2) + sock_patience tpat s2 < env_F E" using fuel(1) x(6,7) pend by simp
  from recv_ok [OF x(4,6) this pol l(2)] obtain s3 where s3: "to_limited (ServerSock_read T) (env_F E) (env_pol E) s2 [] limit = (Ok s3, m)" "heard rest s2 s3"
    by blast
  have "command_operation E limit command v st d s = (Ok s3, st, d2, first_failure (env_L E) (map expected (ss @ cs)) ms, m)"
    using x(1,2) s3(1) E by (simp add: command_operation_def recv_message_def io_result_def)
  then show ?thesis using x(3,5,7,8) s3(2) by (auto simp: heard_def)
qed

lemma login_exchange:
  assumes E: "env_T E = T" and pol: "\<forall>k. 0 < env_pol E k" and s: "talking tok s"
    and pend: "sock_pend tpend s = frame m @ frame reply @ rest"
    and fuel: "length (sock_pend tpend s) + sock_patience tpat s < env_F E" "length (frame response) < env_F E"
    and m: "utf8_valid m" "length m \<le> 5000" "utf8_valid reply" "length reply \<le> 5000"
    and chal: "Challenge_new m = Ok chal" "challenge_response N v chal = Ok (response, state, delayed)"
  shows "\<exists>s'. login N E v s = bindR (process_redirects s' state reply) (\<lambda>l. Ok (l, delayed))
    \<and> out (inner s') = out (inner s) @ frame response \<and> sock_pend tpend s' = rest \<and> control s' = control s \<and> talking tok s'"
proof -
  from recv_string_ok [OF s pend fuel(1) pol m(2,1)] obtain s1 where
    s1: "to_limited_string (ServerSock_read T) (env_F E) (env_pol E) s [] 5000 = (Ok s1, m)" "heard (frame reply @ rest) s s1" by blast
  from MapiBuf_append_holds [OF MapiBuf_new_holds, of response] obtain mb where
    mb: "MapiBuf_append response MapiBuf_new = Ok mb" "mb_holds mb [] response" by auto
  from end_reset_holds [OF mb(2), of "env_debug E"] obtain mb' where
    mb': "MapiBuf_end_reset (env_debug E) mb = Ok (frame response, mb')" by auto
  have "talking tok s1" using s1(2) by (simp add: heard_def)
  from write_all_ok [OF this fuel(2)] obtain s2 where
    s2: "write_all (ServerSock_write T) (env_F E) (frame response) s1 = (Ok (), s2)" "wrote (frame response) s1 s2" by blast
  have f2: "length (sock_pend tpend s2) + sock_patience tpat s2 < env_F E" using fuel(1) pend s1(2) s2(2) by (simp add: heard_def wrote_def)
  have "talking tok s2" "sock_pend tpend s2 = frame reply @ rest" using s1(2) s2(2) by (simp_all add: heard_def wrote_def)
  from recv_string_ok [OF this f2 pol m(4,3)] obtain s3 where
    s3: "to_limited_string (ServerSock_read T) (env_F E) (env_pol E) s2 [] 5000 = (Ok s3, reply)" "heard rest s2 s3" by blast
  have "login N E v s = bindR (process_redirects s3 state reply) (\<lambda>l. Ok (l, delayed))"
    using s1(1) mb(1) mb' s2(1) s3(1) chal by (simp add: login_def E connect_buf_def MapiBuf_write_reset_def)
  then show ?thesis using s1(2) s2(2) s3(2) by (auto simp: heard_def wrote_def)
qed

end

section \<open>A scripted server\<close>

definition script_calm_out :: "script \<Rightarrow> bool" where
  "script_calm_out s \<longleftrightarrow> script_calm s \<and> allowances s = []"

interpretation script_conversation: conversation_transport script_transport script_calm_out script_pend script_patience sent
proof -
  have r: "reliable_transport script_transport script_calm_out script_pend script_patience"
  proof
    fix n :: nat and s s' :: script and bs e
    assume n: "0 < n" and ok: "script_calm_out s"
    then have c: "script_calm s" by (simp add: script_calm_out_def)
    show "tr_read script_transport n s = (Ok bs, s') \<Longrightarrow> script_calm_out s' \<and>
        script_pend s = bs @ script_pend s' \<and> length bs \<le> n \<and> (bs = [] \<longrightarrow> script_pend s = []) \<and> script_patience s' \<le> script_patience s"
      using script_reliable.deliver [OF n c, of bs s'] ok
      by (auto simp: script_calm_out_def script_transport_def split: list.splits event.splits)
    show "tr_read script_transport n s = (Err e, s') \<Longrightarrow> io_kind e = Interrupted \<Longrightarrow>
        script_calm_out s' \<and> script_pend s' = script_pend s \<and> script_patience s' < script_patience s"
      and "returns (fst (tr_read script_transport n s))" and "\<exists>bs s'. tr_read script_transport n s = (Ok bs, s')"
      using script_reliable.read_ok [OF n c] by auto
  qed (auto simp: script_transport_def)
  show "conversation_transport script_transport script_calm_out script_pend script_patience sent"
    by (intro conversation_transport.intro r, unfold_locales)
       (auto simp: script_transport_def script_calm_out_def script_calm_def script_ok_def script_pend_def script_patience_def neq_Nil_conv
         split: list.splits event.splits)
qed

section \<open>Properties\<close>

text \<open>C5. The exchange of a command: with commands delayed, some of them sent already, the client writes the others and then the new command, each as
  one message; it reads one response for every delayed command and then the response of the new command, which is handed to the caller exactly
  as the server sent it; the error of a delayed command that failed and matters comes with it; and afterwards nothing is delayed, nothing
  is expected, and what the server sends next is untouched. So a response is never taken for that of another command.\<close>

theorem command_exchange:
  assumes "conversation_transport (env_T E) tok tpend tpat out" and "\<forall>k. 0 < env_pol E k" and "talking tok s" and "dc_waits d ss cs"
    and "sock_pend tpend s = concat (map frame ms) @ frame m @ rest" and "length ms = length (ss @ cs)"
    and "length (sock_pend tpend s) + sock_patience tpat s < env_F E"
    and "length (concat (map (\<lambda>c. frame (terminated (fst (snd c)))) cs) @ frame (concat command)) < env_F E"
    and "\<forall>m'\<in>set (m # ms). length m' \<le> limit"
  shows "\<exists>s' d'. command_operation E limit command v st d s = (Ok s', st, d', first_failure (env_L E) (map expected (ss @ cs)) ms, m)
    \<and> dc_holds d' [] \<and> sock_pend tpend s' = rest \<and> sock_patience tpat s' \<le> sock_patience tpat s \<and> talking tok s' \<and> control s' = control s
    \<and> out (inner s') = out (inner s) @ concat (map (\<lambda>c. frame (terminated (fst (snd c)))) cs) @ frame (concat command)"
  by (rule conversation_transport.exchange [OF assms(1) refl assms(2-9)])

text \<open>C11. Logging in with a server that plays its part: the client reads the challenge and nothing beyond it, answers with exactly one message, the
  response to that challenge, reads the reply and nothing beyond it, and goes on as the reply says. Nothing else is written.\<close>

theorem login_conversation:
  assumes "conversation_transport (env_T E) tok tpend tpat out" and "\<forall>k. 0 < env_pol E k" and "talking tok s"
    and "sock_pend tpend s = frame m @ frame reply @ rest"
    and "length (sock_pend tpend s) + sock_patience tpat s < env_F E" and "length (frame response) < env_F E"
    and "utf8_valid m" and "length m \<le> 5000" and "utf8_valid reply" and "length reply \<le> 5000"
    and "Challenge_new m = Ok chal" and "challenge_response N v chal = Ok (response, state, delayed)"
  shows "\<exists>s'. login N E v s = bindR (process_redirects s' state reply) (\<lambda>l. Ok (l, delayed))
    \<and> out (inner s') = out (inner s) @ frame response \<and> sock_pend tpend s' = rest \<and> control s' = control s \<and> talking tok s'"
  by (rule conversation_transport.login_exchange [OF assms(1) refl assms(2-12)])


section \<open>Examples\<close>

abbreviation fresh_sock :: "RawSocket \<Rightarrow> Timeouts \<Rightarrow> 't \<Rightarrow> 't ServerSock" where
  "fresh_sock raw ts t \<equiv> ServerSock_with_control t (SocketControl_new raw (ActiveTimeouts_for_connection ts None))"

lemma fresh_talking:
  assumes "tok t"
  shows "talking tok (fresh_sock raw ts t)" "sock_pend tpend (fresh_sock raw ts t) = tpend t" "sock_patience tpat (fresh_sock raw ts t) = tpat t"
    "inner (fresh_sock raw ts t) = t"
  using assms bounded_le [of ts]
  by (auto simp: talking_def calm_ok_def sock_calm_def sock_defs ServerSock_with_control_def SocketControl_new_def ActiveTimeouts_for_connection_def Let_def)

lemma script_env_simps [simp]: "env_T (script_env F) = script_transport" "env_F (script_env F) = F" "env_pol (script_env F) = (\<lambda>_. 2)"
  by (simp_all add: script_env_def)

theorem command_exchange_witness:
  "\<exists>s' d'. command_operation (script_env 100) 8 [''sSELECT 1;''] (None, []) (ServerState_new ''SHA512'' Lit 1 1000) DelayedCommands_new example_in
      = (Ok s', ServerState_new ''SHA512'' Lit 1 1000, d', None, ''abc'')
    \<and> sock_pend script_pend s' = [CHR 0x01] \<and> sent (inner s') = frame ''sSELECT 1;''"
proof -
  have t: "talking script_calm_out example_in"
    using example_in_ok(2) by (simp add: talking_def calm_ok_def sock_ok_def script_calm_out_def example_in_def ServerSock_with_control_def
        SocketControl_new_def ActiveTimeouts_for_connection_def Timeouts_bounded_def)
  have o: "sent (inner example_in) = []" by (simp add: example_in_def ServerSock_with_control_def)
  have "length (frame ''sSELECT 1;'') < 100" by (simp add: frame.simps)
  moreover have "length (frame ''abc'' @ [CHR 0x01]) < 100" by (simp add: frame.simps)
  ultimately show ?thesis
    using command_exchange [where E = "script_env 100" and ms = "[]" and ss = "[]" and cs = "[]" and m = "''abc''" and rest = "[CHR 0x01]" and limit = 8
        and command = "[''sSELECT 1;'']" and s = example_in and v = "(None, [])" and st = "ServerState_new ''SHA512'' Lit 1 1000",
        unfolded script_env_simps, OF script_conversation.conversation_transport_axioms _ t dc_holds_new]
      example_in_pend example_in_patience o by (simp add: o) blast
qed

text \<open>A server that sends a challenge and then an empty reply, which accepts the login.\<close>

definition example_challenge_line :: bytes where
  "example_challenge_line = ''salt:mserver:9:SHA1,SHA256:LIT:SHA512:sql=2:BINARY=1:CLIENTINFO:''"

definition example_server :: script where
  "example_server = \<lparr>clock = 0, events = [(0, Recv (frame example_challenge_line)), (0, Recv (frame []))], allowances = [], sent = []\<rparr>"

lemma frame_nonempty [simp]: "frame m \<noteq> []"
  by (simp add: frame.simps [of m] head_def)

lemma example_server_ok: "script_calm_out example_server" "script_pend example_server = frame example_challenge_line @ frame []"
  "script_patience example_server = 0" "sent example_server = []"
  by (auto simp: example_server_def script_calm_out_def script_calm_def script_ok_def script_pend_def script_patience_def frame_nonempty [symmetric])

lemma example_line: "Challenge_new example_challenge_line = Ok example_challenge"
  by (simp add: Challenge_new_def example_challenge_line_def trim_end_colons_def Let_def parse_endian_def challenge_option_def strip_prefix_def
      parse_level_def parse_int_def is_ascii_digit_def example_challenge_def)

lemma example_line_text: "utf8_valid example_challenge_line" "length example_challenge_line \<le> 5000"
proof -
  have "byte_val c < 128" if "c \<in> set example_challenge_line" for c using that by (auto simp: example_challenge_line_def)
  then show "utf8_valid example_challenge_line" using utf8_valid_ascii [of example_challenge_line "[]"] by simp
  show "length example_challenge_line \<le> 5000" by (simp add: example_challenge_line_def)
qed

theorem login_conversation_witness:
  "\<exists>F response state delayed s'. challenge_response (example_net example_server) example_validated example_challenge = Ok (response, state, delayed)
     \<and> login (example_net example_server) (script_env F) example_validated
         (fresh_sock Tcp \<lparr>t_read = None, t_write = None, t_operation = None\<rparr> example_server) = Ok (Complete s' state, delayed)
     \<and> sent (inner s') = frame response"
proof -
  let ?N = "example_net example_server"
  let ?s = "fresh_sock Tcp \<lparr>t_read = None, t_write = None, t_operation = None\<rparr> example_server"
  have "find_algo (ch_prehash_algo example_challenge) = Some ''SHA512''" "find_algo (ch_response_algos example_challenge) = Some ''SHA256''"
    "v_language example_validated = ''sql''" "login_credentials example_validated example_challenge = (''monetdb'', ''secret'')"
    by (simp_all add: find_algo_def algos_def example_challenge_def example_validated_def login_credentials_def)
  then obtain response state delayed where r: "challenge_response ?N example_validated example_challenge = Ok (response, state, delayed)"
    by (rule challenge_response_Ok)
  note fresh = fresh_talking [where tok = script_calm_out and t = example_server and raw = Tcp and
      ts = "\<lparr>t_read = None, t_write = None, t_operation = None\<rparr>", OF example_server_ok(1)]
  have s: "talking script_calm_out ?s" "sock_pend script_pend ?s = frame example_challenge_line @ frame [] @ []" "sock_patience script_patience ?s = 0"
    by (simp_all only: fresh example_server_ok append_Nil2)
  define F where "F = Suc (length (frame example_challenge_line @ frame []) + length (frame response))"
  have f: "length (sock_pend script_pend ?s) + sock_patience script_patience ?s < env_F (script_env F)" "length (frame response) < env_F (script_env F)"
    unfolding s(2,3) by (simp_all add: F_def)
  have e: "conversation_transport (env_T (script_env F)) script_calm_out script_pend script_patience sent" "\<forall>k. 0 < env_pol (script_env F) k"
    "utf8_valid []" "length ([] :: bytes) \<le> 5000" by (simp_all add: script_conversation.conversation_transport_axioms)
  obtain s' where "login ?N (script_env F) example_validated ?s = bindR (process_redirects s' state []) (\<lambda>l. Ok (l, delayed))"
      "sent (inner s') = sent (inner ?s) @ frame response"
    using login_conversation [OF e(1,2) s(1,2) f example_line_text e(3,4) example_line r] by blast
  moreover have "process_redirects s' state [] = Ok (Complete s' state)" by (simp add: process_redirects_def trim_ascii_def)
  ultimately show ?thesis using r unfolding fresh(4) example_server_ok(4) by auto
qed

text \<open>Connecting to that server over TCP, without a timeout.\<close>

definition example_parms :: Parameters where
  "example_parms = Parameters_put PConnectTimeout (VInt 0) DEFAULT_PARAMETERS"

lemma example_parms_get: "Parameters_get example_parms q = (if q = PConnectTimeout then VInt 0 else default_parameter_value_by_index (Parm_index q))"
  by (simp add: example_parms_def params.get_put wf_default default_value)

lemma example_parms_validated: "\<exists>v. (\<forall>now\<le>10. Validated_new now example_parms = Ok v) \<and> v_connect_tcp v = ''localhost''
   \<and> v_language v = ''sql'' \<and> \<not> v_tls v \<and> v_connect_timeout v = None \<and> login_credentials v example_challenge = ([], [])"
proof -
  have e: "extract_parms example_parms = Ok \<lparr>raw_port = - 1, raw_tls = False, raw_autocommit = True, raw_replysize = 200,
      raw_maxprefetch = 2500, raw_timezone = 0, raw_connect_timeout = 0, raw_read_timeout = 0, raw_write_timeout = 60,
      raw_operation_timeout = 0, raw_max_response_size = 1073741824, raw_client_info = True\<rparr>"
    by (simp add: extract_parms_def Parameters_get_int_def Parameters_get_bool_def example_parms_get default_parameter_value_by_index_def)
  have t: "\<not> timezone_set example_parms" by (simp add: example_parms_def default_flags)
  have w: "valid_timeout now PWriteTimeout 60 = Ok (Some (from_secs 60))" if "now \<le> 10" for now
    using that by (simp add: valid_timeout_def MAX_TIMEOUT_SECONDS_def instant_max_def)
  have "\<exists>v. \<forall>now\<le>10. Validated_new now example_parms = Ok v"
    by (auto simp: Validated_new_def e t w Let_def check_def example_parms_get default_parameter_value_by_index_def binary_value_def
        parse_bool_def eq_ignore_ascii_case_def valid_name_def valid_port_def valid_timezone_def valid_timeout_def [of _ PReadTimeout]
        valid_timeout_def [of _ PConnectTimeout] valid_timeout_def [of _ POperationTimeout] valid_size_def valid_maxprefetch_def)
  then obtain v where v: "\<And>now. now \<le> 10 \<Longrightarrow> Validated_new now example_parms = Ok v" by blast
  have "v_connect_tcp v = ''localhost'' \<and> v_language v = ''sql'' \<and> \<not> v_tls v \<and> v_connect_timeout v = None \<and> login_credentials v example_challenge = ([], [])"
    by (rule Validated_new_Ok [OF v [of 0]])
       (auto simp: e build_validated_def derive_tcp_def example_parms_get default_parameter_value_by_index_def valid_timeout_def
          login_credentials_def example_challenge_def)
  with v show ?thesis by blast
qed

lemma example_turn_socket:
  assumes "\<forall>now\<le>10. Validated_new now example_parms = Ok v" and "v_connect_tcp v = ''localhost''" and "\<not> v_tls v"
    and "env_T E = script_transport" and "9 < env_F E"
  shows "\<exists>s. turn_socket (example_net example_server) E None example_parms None 3 = (Ok (v, s), 4)
     \<and> script_conversation.wrote (replicate 8 (byte_of 0)) (fresh_sock Tcp (Timeouts_from_validated v) example_server) s"
proof -
  let ?s = "fresh_sock Tcp (Timeouts_from_validated v) example_server"
  have "talking script_calm_out ?s" by (rule fresh_talking(1) [where tok = script_calm_out, OF example_server_ok(1)])
  from script_conversation.write_all_ok [OF this, of "replicate 8 (byte_of 0)" "env_F E"] assms(5) obtain s where
    s: "write_all (ServerSock_write script_transport) (env_F E) (replicate 8 (byte_of 0)) ?s = (Ok (), s)" "script_conversation.wrote (replicate 8 (byte_of 0)) ?s s"
    by auto
  have tcp: "connect_over_tcp (example_net example_server) E v None e 4 = (Ok s, 4)" for e
    using assms(2-4) s(1) by (simp add: connect_over_tcp_def connect_tcp_socket_def resolve_tcp_addresses_def run_io_with_deadline_def
        ConnectionDeadline_remaining_def ServerSock_from_tcp_def wrap_tls_def example_net_def)
  have "connect_socket (example_net example_server) E v None 4 = (Ok s, 4)"
    using tcp by (simp add: connect_socket_def connect_unix_socket_def example_net_def)
  then show ?thesis using s(2) assms(1) by (simp add: turn_socket_def validate_def example_net_def)
qed

lemma example_connects:
  "\<exists>n. \<forall>E :: (script, 'z) env_scheme. env_T E = script_transport \<longrightarrow> (\<forall>k. 0 < env_pol E k) \<longrightarrow> n < env_F E
     \<longrightarrow> (\<exists>conn. Connection_new (\<lambda>_. Err []) (example_net example_server) E example_parms 0 = (Ok conn, 4))"
proof -
  let ?N = "example_net example_server" let ?U = "\<lambda>_. Err []"
  obtain v where v: "\<forall>now\<le>10. Validated_new now example_parms = Ok v" "v_connect_tcp v = ''localhost''" "v_language v = ''sql''" "\<not> v_tls v"
    "v_connect_timeout v = None" "login_credentials v example_challenge = ([], [])" using example_parms_validated by blast
  have "find_algo (ch_prehash_algo example_challenge) = Some ''SHA512''" "find_algo (ch_response_algos example_challenge) = Some ''SHA256''"
    by (simp_all add: find_algo_def algos_def example_challenge_def)
  then obtain response state delayed cmds where r: "challenge_response ?N v example_challenge = Ok (response, state, delayed)" "dc_holds delayed cmds"
    by (rule challenge_response_Ok [OF _ _ v(3,6), of _ _ ?N]) blast
  let ?data = "concat (map frame (map (\<lambda>c. terminated (fst (snd c))) cmds))"
  let ?n = "10 + length (frame example_challenge_line @ frame []) + length (frame response) + length ?data"
  have "\<exists>conn. Connection_new ?U ?N E example_parms 0 = (Ok conn, 4)"
    if E: "env_T E = script_transport" and pol: "\<forall>k. 0 < env_pol E k" and F: "?n < env_F E" for E :: "(script, 'z) env_scheme"
  proof -
    let ?s = "fresh_sock Tcp (Timeouts_from_validated v) example_server"
    have "9 < env_F E" using F by simp
    from example_turn_socket [OF v(1,2,4) E this] obtain s where t: "turn_socket ?N E None example_parms None 3 = (Ok (v, s), 4)"
      "script_conversation.wrote (replicate 8 (byte_of 0)) ?s s" by blast
    have pend: "sock_pend script_pend s = frame example_challenge_line @ frame [] @ []" "sock_patience script_patience s = 0" "talking script_calm_out s"
      using t(2) fresh_talking(2,3) [where tok = script_calm_out, OF example_server_ok(1)] example_server_ok(2,3)
      by (simp_all add: script_conversation.wrote_def)
    have f: "length (sock_pend script_pend s) + sock_patience script_patience s < env_F E" "length (frame response) < env_F E" "length ?data < env_F E"
      using F pend by simp_all
    have e: "utf8_valid []" "length ([] :: bytes) \<le> 5000" by simp_all
    from script_conversation.login_exchange [OF E pol pend(3,1) f(1,2) example_line_text e example_line r(1)] obtain s1 where
      l: "login ?N E v s = bindR (process_redirects s1 state []) (\<lambda>l. Ok (l, delayed))" "talking script_calm_out s1" by blast
    have login: "login ?N E v s = Ok (Complete s1 state, delayed)" using l(1) by (simp add: process_redirects_def trim_ascii_def)
    from MapiBuf_reset_holds [of "dc_buffer delayed" "map (\<lambda>c. terminated (fst (snd c))) cmds" "env_debug E"] r(2) obtain mb where
      mb: "MapiBuf_reset (env_debug E) (dc_buffer delayed) = Ok (?data, mb)" by (auto simp: dc_waits_def)
    from script_conversation.write_all_ok [OF l(2) f(3)] obtain s2 where s2: "write_all (ServerSock_write script_transport) (env_F E) ?data s1 = (Ok (), s2)" by blast
    have "\<exists>x. complete_login ?N E v s1 state delayed = Ok x"
      by (simp add: complete_login_def send_delayed_def mb E s2 [simplified] io_result_def Let_def)
    then obtain x where x: "complete_login ?N E v s1 state delayed = Ok x" by blast
    have "connect_turn ?U ?N E None example_parms None 3 = (Ok (Done x), 4)" by (simp add: connect_turn_def t(1) login x)
    then have "establish_loop 10 ?U ?N E None example_parms None 3 = (Ok x, 4)" by (simp add: eval_nat_numeral)
    moreover have "validate ?N example_parms 0 = (Ok v, 1)" "validate ?N example_parms 1 = (Ok v, 2)" "ConnectionDeadline_new ?N None 2 = (None, 3)"
      using v(1) by (simp_all add: validate_def example_net_def ConnectionDeadline_new_def)
    ultimately show ?thesis using v(5) by (cases x) (simp add: Connection_new_def establish_connection_def)
  qed
  then show ?thesis by blast
qed


end
