(* ===== verification/Session.thy ===== *)
theory Session
  imports Metadata Exchange
begin

text \<open>
  The calls of the interface against the step relation of \<^verbatim>\<open>Conn\<close>: every call a client makes on a cursor or a connection, from start
  to end, is a sequence of the atomic steps that the relation interleaves, so what holds in every reachable state holds after every call.
\<close>

section \<open>Runs\<close>

definition steps :: "'t cenv \<Rightarrow> 't Conn \<Rightarrow> 't Conn \<Rightarrow> bool" where
  "steps E c c' \<longleftrightarrow> (conn_step E)\<^sup>*\<^sup>* (c, None) (c', None)"

lemma steps_refl [simp]: "steps E c c"
  by (simp add: steps_def)

lemma steps_trans [trans]: "steps E a b \<Longrightarrow> steps E b c \<Longrightarrow> steps E a c"
  unfolding steps_def by (rule rtranclp_trans)

lemma other_steps: "other_step\<^sup>*\<^sup>* c c' \<Longrightarrow> (conn_step E)\<^sup>*\<^sup>* (c, r) (c', r)"
  by (induction rule: rtranclp_induct) (auto intro: rtranclp.rtrancl_into_rtrancl conn_step.Other)

lemma steps_other: "other_step c c' \<Longrightarrow> steps E c c'"
  unfolding steps_def by (rule other_steps) blast

lemma begin_fuel: "begin_operation E ts c \<noteq> (NoFuel, c')"
  by (auto simp: begin_operation_def Let_def split: option.splits outcome.splits prod.splits)

text \<open>An operation under the lock: it begins, works, other threads interfere, and it finishes.\<close>

lemma run_steps:
  assumes others: "\<And>c. other_step\<^sup>*\<^sup>* c (env_others E c)" and run: "run_locked_with_timeouts E ts f r c = (res, r', c')" and "res \<noteq> NoFuel"
  shows "steps E c c'"
proof (cases "begin_operation E ts c")
  case (Pair b c1)
  show ?thesis
  proof (cases b)
    case (Ok p)
    then obtain sock token where b: "begin_operation E ts c = (Ok (sock, token), c1)" using Pair by (cases p) auto
    obtain result st d r1 where f: "f r (cn_state c1) (cn_delayed c1) sock = (result, st, d, r1)" by (metis surj_pair)
    let ?c = "c1\<lparr>cn_state := st, cn_delayed := d\<rparr>"
    have fin: "finish_operation token result (env_others E ?c) = (res, c')"
      using run run_locked_cases [where f = f, OF b f] by (auto split: prod.splits)
    then have "result \<noteq> NoFuel" using assms(3) by (auto simp: finish_operation_def)
    have "(conn_step E)\<^sup>*\<^sup>* (c, None) (c1, Some token)" using conn_step.Begin [OF b] by blast
    also have "(conn_step E)\<^sup>*\<^sup>* (c1, Some token) (?c, Some token)" using conn_step.Work by blast
    also have "(conn_step E)\<^sup>*\<^sup>* (?c, Some token) (env_others E ?c, Some token)" by (rule other_steps [OF others])
    also have "(conn_step E)\<^sup>*\<^sup>* (env_others E ?c, Some token) (c', None)" using conn_step.Finish [OF fin \<open>result \<noteq> NoFuel\<close>] by blast
    finally show ?thesis by (simp add: steps_def)
  next
    case (Err e)
    then have "c' = c1" using run Pair by (simp add: run_locked_with_timeouts_def)
    then show ?thesis using conn_step.Refuse [of E ts c e c1] Pair Err by (auto simp: steps_def)
  next
    case Panic
    then have "c' = c1" using run Pair by (simp add: run_locked_with_timeouts_def)
    then show ?thesis using conn_step.Begin_panic [of E ts c c1] Pair Panic by (auto simp: steps_def)
  qed (use Pair begin_fuel in metis)
qed

section \<open>Calls on a cursor\<close>

text \<open>A call that returned, on a cursor or a connection, has moved the connection by steps. Running out of fuel is not returning.\<close>

definition moves :: "'t cenv \<Rightarrow> ('s \<Rightarrow> 't Conn) \<Rightarrow> 's \<Rightarrow> ('a, 'e) outcome \<times> 's \<Rightarrow> bool" where
  "moves E conn s m \<longleftrightarrow> (fst m \<noteq> NoFuel \<longrightarrow> steps E (conn s) (conn (snd m)))"

abbreviation moved :: "'t cenv \<Rightarrow> 't Cursor \<Rightarrow> ('a, 'e) outcome \<times> 't Cursor \<Rightarrow> bool" where
  "moved E \<equiv> moves E cu_conn"

abbreviation conn_moved :: "'t cenv \<Rightarrow> 't Conn \<Rightarrow> ('a, 'e) outcome \<times> 't Conn \<Rightarrow> bool" where
  "conn_moved E \<equiv> moves E (\<lambda>c. c)"

lemma moved_here [simp]: "moves E conn s (res, s)" "conn s' = conn s \<Longrightarrow> moves E conn s (res, s')" "moves E conn s (NoFuel, s')"
  by (simp_all add: moves_def)

lemma moved_from: "moves E conn s (res, s') \<Longrightarrow> res \<noteq> NoFuel \<Longrightarrow> moves E conn s' m \<Longrightarrow> moves E conn s m"
  by (auto simp: moves_def intro: steps_trans)

lemma moved_res: "moves E conn s (res, s') \<Longrightarrow> (res = NoFuel \<Longrightarrow> res' = NoFuel) \<Longrightarrow> moves E conn s (res', s')"
  by (auto simp: moves_def)

lemma moved_eq: "moves E conn s m \<Longrightarrow> m = (res, s') \<Longrightarrow> moves E conn s (res, s')"
  by simp

lemma moved_bind:
  assumes "moves E conn s m" and "\<And>x s'. m = (Ok x, s') \<Longrightarrow> moves E conn s' (f x s')"
  shows "moves E conn s (bindS m f)"
  using assms by (cases "(m, f)" rule: bindS.cases) (auto simp: moves_def intro: steps_trans)

lemma queue_close_moved: "moved E cu (queue_close rid cu)"
  by (auto simp: moves_def queue_close_def intro!: steps_other other_step.Queue_closes split: outcome.splits)

lemma next_reply_moved: "moved E cu (next_reply E' cu)"
  by (auto simp: next_reply_def switch_to_reply_def case_prod_beta intro!: moved_bind queue_close_moved split: option.splits)

lemma exhaust_moved: "moved E cu (exhaust E' f cu)"
proof (induction f arbitrary: cu)
  case (Suc f)
  show ?case by (cases "cu_replies cu") (simp_all add: exhaust.simps moved_bind [OF next_reply_moved Suc.IH])
qed (simp add: exhaust.simps)

lemma skip_moved: "moved E cu (skip_to_result_set E' f cu)"
proof (induction f arbitrary: cu)
  case (Suc f)
  show ?case by (cases "cu_replies cu") (simp_all add: moved_bind [OF next_reply_moved Suc.IH])
qed simp

lemma take_replies_moved: "moved E cu (take_replies cu)"
  by (simp add: take_replies_def split: prod.split)

lemma exhaust_take_moved: "moved E cu (bindS (exhaust E' f cu) (\<lambda>_ cu. take_replies cu))"
  by (rule moved_bind [OF exhaust_moved take_replies_moved])

text \<open>Replies that are installed and exhausted, whatever becomes of the result.\<close>

lemma exhausted_moved: "exhaust E' f (cu\<lparr>cu_replies := p\<rparr>) = (res, cu') \<Longrightarrow> (res = NoFuel \<Longrightarrow> res' = NoFuel) \<Longrightarrow> moved E cu (res', cu')"
  using exhaust_moved [of E "cu\<lparr>cu_replies := p\<rparr>" E' f] by (auto simp: moves_def)

lemma install_moved: "moved E cu (install_response E' response cu)"
  unfolding install_response_def Let_def
  by (rule moved_bind) (auto split: outcome.splits prod.splits intro: exhausted_moved)

lemma discard_moved: "moved E cu (discard_sql_response E' response cu)"
  by (auto simp: discard_sql_response_def split: outcome.splits prod.splits intro: exhausted_moved)

lemma refusal_moved: "moved E cu (report_refusal E' X error response cu)"
  by (auto simp: report_refusal_def Let_def split: outcome.splits prod.splits intro: exhausted_moved)

lemma report_moved: "report_uploads E' X v cu = (res, vec, cu') \<Longrightarrow> moved E cu (res, cu')"
proof -
  assume r: "report_uploads E' X v cu = (res, vec, cu')"
  have "moved E cu (bindS (discard_sql_response E' (uv_response v) cu) (\<lambda>_ cu. (x, cu)))" for x :: "(unit, CursorError) outcome"
    by (rule moved_bind [OF discard_moved]) simp
  from moved_eq [OF this] moved_eq [OF refusal_moved] r show ?thesis
    by (auto simp: report_uploads_def split: option.splits prod.splits)
qed

text \<open>From here on, calls that run operations; other threads take steps of their own meanwhile.\<close>

lemma run_moved:
  assumes "\<And>c. other_step\<^sup>*\<^sup>* c (env_others E c)" and "run_locked_with_timeouts E ts f r (cu_conn cu) = (res, r', c')"
  shows "moved E cu (res, cu\<lparr>cu_conn := c'\<rparr>)"
  using run_steps [OF assms] by (simp add: moves_def)

lemma command_raw_moved:
  assumes "\<And>c. other_step\<^sup>*\<^sup>* c (env_others E c)" and "command_raw E command vec cu = (res, vec', cu')"
  shows "moved E cu (res, cu')"
  using run_moved [OF assms(1)] assms(2) by (fastforce simp: command_raw_def split: prod.splits intro: moved_res)

lemma command_with_uploads_moved:
  assumes "\<And>c. other_step\<^sup>*\<^sup>* c (env_others E c)" and "command_with_uploads E X command vec n upload p cu = (res, vec', p', cu')"
  shows "moved E cu (res, cu')"
proof -
  obtain r v c where run: "run_locked_with_timeouts E (cu_timeouts cu) (upload_operation E X n (cn_max_response_size (cu_conn cu)) upload command)
      \<lparr>uv_refused = None, uv_producer_error = None, uv_delayed_error = None, uv_response = vec, uv_producer = p\<rparr> (cu_conn cu) = (r, v, c)"
    by (rule prod_cases3)
  note m = run_moved [OF assms(1) run]
  show ?thesis
  proof (cases r)
    case (Ok u)
    obtain r2 vec2 cu2 where rep: "report_uploads E X v (cu\<lparr>cu_conn := c\<rparr>) = (r2, vec2, cu2)" by (rule prod_cases3)
    with assms(2) run Ok have "res = r2" "cu' = cu2" by (simp_all add: command_with_uploads_def)
    with moved_from [OF m _ report_moved [OF rep]] Ok show ?thesis by simp
  qed (use m run assms(2) in \<open>auto simp: command_with_uploads_def\<close>)
qed

text \<open>The shape shared by all ways to execute a statement.\<close>

lemma statement_moved:
  assumes "\<And>c. other_step\<^sup>*\<^sup>* c (env_others E c)" and e: "bindS (exhaust E f cu) (\<lambda>_ cu. take_replies cu) = (Ok vec, cu1)"
    and c: "command_with_uploads E X command vec n upload p cu1 = (r, vec', p', cu2)"
  shows "moved E cu (bindS (r, cu2) (\<lambda>_ cu. install_response E vec' cu))"
proof -
  have "moved E cu1 (bindS (r, cu2) (\<lambda>_ cu. install_response E vec' cu))"
    by (rule moved_bind [OF command_with_uploads_moved [OF assms(1) c]]) (simp add: install_moved)
  then show ?thesis by (rule moved_from [OF moved_eq [OF exhaust_take_moved e], rotated]) simp
qed

lemmas unexhausted_moved = moved_res [OF moved_eq [OF exhaust_take_moved]]

lemma execute_moved:
  assumes "\<And>c. other_step\<^sup>*\<^sup>* c (env_others E c)"
  shows "moved E cu (execute E X stmt cu)"
    and "moved E cu (execute_with_binary_uploads_with_chunk_size E X stmt uploads n cu)"
  by (auto simp: execute_def execute_with_binary_uploads_with_chunk_size_def split: prod.splits outcome.splits
      intro: statement_moved [OF assms] unexhausted_moved)

lemma execute_uploads_moved:
  assumes "\<And>c. other_step\<^sup>*\<^sup>* c (env_others E c)"
  shows "execute_with_streaming_uploads_with_chunk_size E X stmt n upload p cu = (res, p', cu') \<Longrightarrow> moved E cu (res, cu')"
    and "execute_with_binary_uploads_lazy_with_chunk_size E X stmt n lazy p cu = (res, p', cu') \<Longrightarrow> moved E cu (res, cu')"
  by (auto simp: execute_with_streaming_uploads_with_chunk_size_def execute_with_binary_uploads_lazy_with_chunk_size_def
      split: prod.splits outcome.splits intro: moved_eq [OF statement_moved [OF assms]] unexhausted_moved)

lemma fetch_more_rows_moved:
  assumes "\<And>c. other_step\<^sup>*\<^sup>* c (env_others E c)"
  shows "moved E cu (fetch_more_rows E cu)"
proof -
  have s: "moved E cu (swap_rows L n cu)" for L n and cu :: "'a Cursor"
    by (auto simp: swap_rows_def Let_def split: ReplyParser.splits option.splits)
  have r: "moved E cu (result_set_mut g cu)" for g and cu :: "'a Cursor"
    by (auto simp: result_set_mut_def split: ReplyParser.splits)
  have c: "moved E cu (fst (command_raw E command vec cu), snd (snd (command_raw E command vec cu)))" for command vec and cu :: "'a Cursor"
    by (rule command_raw_moved [OF assms, of command vec _ _ "fst (snd (command_raw E command vec cu))"]) simp
  show ?thesis unfolding fetch_more_rows_def case_prod_beta
    by (intro moved_bind s r c moved_here) simp_all
qed

lemma row_loop_moved:
  assumes "\<And>c. other_step\<^sup>*\<^sup>* c (env_others E c)"
  shows "moved E cu (row_loop E f cu)"
proof (induction f arbitrary: cu)
  case (Suc f)
  have "moved E cu (bindS (fetch_more_rows E (cu\<lparr>cu_replies := p\<rparr>)) (\<lambda>_ cu. row_loop E f cu))" for p
    by (rule moved_from [where res = "Ok ()" and s' = "cu\<lparr>cu_replies := p\<rparr>"]) (simp_all add: moved_bind [OF fetch_more_rows_moved [OF assms] Suc.IH])
  then show ?case by (auto simp: Let_def split: ReplyParser.splits prod.splits outcome.splits bool.splits)
qed simp

lemma rows_moved:
  assumes "\<And>c. other_step\<^sup>*\<^sup>* c (env_others E c)"
  shows "moved E cu (next_row E cu)" and "moved E cu (binary_result E' cu)" and "moved E cu (fetch_binary E start count cu)"
    and "moved E cu (do_close E cu)"
proof -
  show "moved E cu (next_row E cu)" unfolding next_row_def by (rule moved_bind [OF skip_moved row_loop_moved [OF assms]])
  show "moved E cu (binary_result E' cu)" unfolding binary_result_def by (rule moved_bind [OF skip_moved]) simp
  show "moved E cu (do_close E cu)" unfolding do_close_def
    by (rule moved_bind [OF exhaust_take_moved]) (auto split: prod.splits intro: moved_res [OF run_moved [OF assms]])
  show "moved E cu (fetch_binary E start count cu)"
    by (auto simp: fetch_binary_def fetch_binary_into_def split: prod.splits outcome.splits
        intro: moved_res [OF moved_eq [OF skip_moved]] moved_from [OF moved_eq [OF skip_moved] _ moved_res [OF command_raw_moved [OF assms]]])
qed

section \<open>Calls on a connection\<close>

lemma drop_moved:
  assumes "Cursor_drop E' cu = (res, c)" and "res \<noteq> NoFuel"
  shows "steps E (cu_conn cu) c"
  using assms by (auto simp: Cursor_drop_def split: prod.splits outcome.splits intro: steps_other other_step.Queue_closes)

lemma run_conn_moved:
  assumes "\<And>c. other_step\<^sup>*\<^sup>* c (env_others E c)" and "run_locked_with_timeouts E ts f r c = (res, r', c')"
  shows "conn_moved E c (res, c')"
  using run_steps [OF assms] by (simp add: moves_def)

lemma environment_loop_moved:
  assumes "\<And>c. other_step\<^sup>*\<^sup>* c (env_others E c)"
  shows "moved E cu (environment_loop E f env cu)"
proof (induction f arbitrary: env cu)
  case (Suc f)
  show ?case by (auto intro!: moved_bind rows_moved [OF assms] Suc.IH)
qed simp

lemma read_environment_moved:
  assumes "\<And>c. other_step\<^sup>*\<^sup>* c (env_others E c)"
  shows "conn_moved E c (read_environment E X ts c)"
proof -
  let ?cu = "set_reply_size 1024 (set_timeouts ts (Cursor_new c))"
  obtain res cu where r: "bindS (execute E X ''SELECT name, value FROM sys.environment'' ?cu) (\<lambda>_ cu. environment_loop E (env_F E) Map.empty cu) = (res, cu)"
    by (rule prod.exhaust)
  have "moved E ?cu (res, cu)" unfolding r [symmetric]
    by (rule moved_bind [OF execute_moved(1) [OF assms]]) (rule environment_loop_moved [OF assms])
  then have "res \<noteq> NoFuel \<Longrightarrow> steps E c (cu_conn cu)" by (simp add: moves_def set_reply_size_def set_timeouts_def Cursor_new_def)
  then show ?thesis using drop_moved [of E cu _ _ E] r
    by (auto simp: read_environment_def moves_def split: outcome.splits prod.splits intro: steps_trans)
qed

lemma conn_calls_moved:
  assumes "\<And>c. other_step\<^sup>*\<^sup>* c (env_others E c)"
  shows "conn_moved E c (set_autocommit_with_timeouts E enabled ts c)" and "conn_moved E c (server_info E c)"
    and "conn_moved E c (metadata_with_timeouts E X ts c)"
proof -
  note run = moved_res [OF run_conn_moved [OF assms]]
  show "conn_moved E c (set_autocommit_with_timeouts E enabled ts c)"
    by (auto simp: set_autocommit_with_timeouts_def split: prod.splits intro: run)
  show "conn_moved E c (server_info E c)"
    by (auto simp: server_info_def run_locked_def split: prod.splits intro: run)
  have new: "conn_moved E c (ServerMetadata_new E X ts c)" for c
    by (auto simp: ServerMetadata_new_def run_locked_def intro!: moved_bind read_environment_moved [OF assms]
        split: option.splits prod.splits dest!: run_conn_moved [OF assms])
  show "conn_moved E c (metadata_with_timeouts E X ts c)"
    by (auto simp: metadata_with_timeouts_def split: prod.splits option.splits intro!: moved_bind new dest!: run_conn_moved [OF assms])
qed

section \<open>Sessions\<close>

text \<open>The calls a client can make on a connection and its cursors, from start to end; \<open>P\<close> are the functions it provides for uploads.
  Cancelling, closing, and dropping a cursor do not wait for anything: a client may also do them while a call runs.\<close>

inductive api_call :: "'t cenv \<Rightarrow> ('t, 'p) producer set \<Rightarrow> 't Conn \<Rightarrow> 't Conn \<Rightarrow> bool" for E P where
  Execute: "execute E X stmt cu = (res, cu') \<Longrightarrow> res \<noteq> NoFuel \<Longrightarrow> api_call E P (cu_conn cu) (cu_conn cu')"
| Execute_files: "execute_with_binary_uploads_with_chunk_size E X stmt files n cu = (res, cu') \<Longrightarrow> res \<noteq> NoFuel
    \<Longrightarrow> api_call E P (cu_conn cu) (cu_conn cu')"
| Execute_streaming: "upload \<in> P \<Longrightarrow> execute_with_streaming_uploads_with_chunk_size E X stmt n upload p cu = (res, p', cu') \<Longrightarrow> res \<noteq> NoFuel
    \<Longrightarrow> api_call E P (cu_conn cu) (cu_conn cu')"
| Execute_lazy: "lazy_upload E lazy \<in> P \<Longrightarrow> execute_with_binary_uploads_lazy_with_chunk_size E X stmt n lazy p cu = (res, p', cu') \<Longrightarrow> res \<noteq> NoFuel
    \<Longrightarrow> api_call E P (cu_conn cu) (cu_conn cu')"
| Next_row: "next_row E cu = (found, cu') \<Longrightarrow> found \<noteq> NoFuel \<Longrightarrow> api_call E P (cu_conn cu) (cu_conn cu')"
| Next_reply: "next_reply E cu = (found, cu') \<Longrightarrow> found \<noteq> NoFuel \<Longrightarrow> api_call E P (cu_conn cu) (cu_conn cu')"
| Binary_result: "binary_result E cu = (br, cu') \<Longrightarrow> br \<noteq> NoFuel \<Longrightarrow> api_call E P (cu_conn cu) (cu_conn cu')"
| Fetch_binary: "fetch_binary E start count cu = (data, cu') \<Longrightarrow> data \<noteq> NoFuel \<Longrightarrow> api_call E P (cu_conn cu) (cu_conn cu')"
| Close_cursor: "do_close E cu = (res, cu') \<Longrightarrow> res \<noteq> NoFuel \<Longrightarrow> api_call E P (cu_conn cu) (cu_conn cu')"
| Drop_cursor: "Cursor_drop E cu = (res, c') \<Longrightarrow> res \<noteq> NoFuel \<Longrightarrow> api_call E P (cu_conn cu) c'"
| Set_autocommit: "set_autocommit_with_timeouts E enabled ts c = (res, c') \<Longrightarrow> res \<noteq> NoFuel \<Longrightarrow> api_call E P c c'"
| Server_info: "server_info E c = (info, c') \<Longrightarrow> info \<noteq> NoFuel \<Longrightarrow> api_call E P c c'"
| Metadata: "metadata_with_timeouts E X ts c = (md, c') \<Longrightarrow> md \<noteq> NoFuel \<Longrightarrow> api_call E P c c'"
| Deallocate: "try_deallocate i c = Ok (b, c') \<Longrightarrow> api_call E P c c'"
| Cancel: "api_call E P c (snd (cancel c))"
| Close: "api_call E P c (close_connection c)"

text \<open>A session: a connection is made, and calls follow, with whatever other threads do in between.\<close>

inductive session :: "url_lib \<Rightarrow> ('t, 'a, 'w) net \<Rightarrow> 't cenv \<Rightarrow> ('t, 'p) producer set \<Rightarrow> 't Conn \<Rightarrow> bool" for U N E P where
  Connect: "Connection_new U N E params0 w = (Ok c, w') \<Longrightarrow> session U N E P c"
| Call: "session U N E P c \<Longrightarrow> api_call E P c c' \<Longrightarrow> session U N E P c'"
| Meanwhile: "session U N E P c \<Longrightarrow> other_step c c' \<Longrightarrow> session U N E P c'"

lemma steps_moved: "moves E conn s m \<Longrightarrow> m = (res, s') \<Longrightarrow> res \<noteq> NoFuel \<Longrightarrow> steps E (conn s) (conn s')"
  by (simp add: moves_def)

lemma call_steps:
  assumes others: "\<And>c. other_step\<^sup>*\<^sup>* c (env_others E c)" and "api_call E P c c'"
  shows "steps E c c'"
proof -
  note moving = execute_moved [OF others, THEN steps_moved] rows_moved [OF others, THEN steps_moved] next_reply_moved [THEN steps_moved]
    conn_calls_moved [OF others, THEN steps_moved] drop_moved
  from assms(2) show ?thesis
  proof cases
    case Cancel
    then show ?thesis using steps_other other_step.Cancel by metis
  next
    case Close
    then show ?thesis using steps_other other_step.Close by metis
  next
    case Deallocate
    then show ?thesis by (auto simp: try_deallocate_def intro: steps_other other_step.Queue_deallocate)
  next
    case (Execute_streaming upload X stmt n p cu res p' cu')
    then show ?thesis by (simp add: steps_moved [OF execute_uploads_moved(1) [OF others] refl])
  next
    case (Execute_lazy lazy X stmt n p cu res p' cu')
    then show ?thesis by (simp add: steps_moved [OF execute_uploads_moved(2) [OF others] refl])
  qed (auto intro: moving)
qed

lemma steps_reachable: "(conn_step E)\<^sup>*\<^sup>* s s' \<Longrightarrow> reachable E s \<Longrightarrow> reachable E s'"
  by (induction rule: rtranclp_induct) (auto intro: reachable.Step)

section \<open>Properties\<close>



end
