(* ===== verification/Raw_Temporal.thy ===== *)
theory Raw_Temporal
  imports Cursor_Error
begin

text \<open>
  Dates, times and time zones, \<open>src/convert/raw_temporal.rs\<close>. A parser takes the field and returns
  the value with the rest of the field; the Rust code advances the field in place. Unsigned numbers
  are read by the crate atoi, the field \<open>from_radix_10_checked\<close> of \<open>L\<close>.
\<close>

section \<open>Numbers and separators\<close>

definition take_unsigned :: "libs \<Rightarrow> int \<Rightarrow> bytes \<Rightarrow> bytes \<Rightarrow> (int \<times> bytes, CursorError) outcome" where
  "take_unsigned L hi T data = (case from_radix_10_checked L hi data of
       (Some v, n) \<Rightarrow> if 1 \<le> n
          then (if length data < n then Panic else Ok (v, drop n data))
          else Err (conversion_error T (MsgInvalidInteger data))
     | (None, n) \<Rightarrow> Err (conversion_error T (MsgInvalidInteger data)))"

text \<open>The loop of \<open>take_signed\<close>: it stops at the first byte that is not a digit, or before a digit
  that would overflow.\<close>

fun signed_loop :: "int_type \<Rightarrow> bool \<Rightarrow> int \<Rightarrow> nat \<Rightarrow> bytes \<Rightarrow> int \<times> nat" where
  "signed_loop ty negative value cnt [] = (value, cnt)"
| "signed_loop ty negative value cnt (digit # ds) =
     (if \<not> is_ascii_digit digit then (value, cnt)
      else case checked ty (value * 10) of
          None \<Rightarrow> (value, cnt)
        | Some multiplied \<Rightarrow>
            (case checked ty (if negative then multiplied - int (digit_val digit)
                              else multiplied + int (digit_val digit)) of
               None \<Rightarrow> (value, cnt)
             | Some nxt \<Rightarrow> signed_loop ty negative nxt (cnt + 1) ds))"

definition take_signed :: "int_type \<Rightarrow> bytes \<Rightarrow> bytes \<Rightarrow> (int \<times> bytes, CursorError) outcome" where
  "take_signed ty T data =
     (let (negative, digits) = (case strip_prefix data ''-'' of
              Some digits \<Rightarrow> (True, digits) | None \<Rightarrow> (False, data))
      in if checked ty 10 = None then Err (conversion_error T (Msg ''integer type cannot represent 10''))
         else let (value, cnt) = signed_loop ty negative 0 0 digits in
           if cnt = 0 \<or> (cnt < length digits \<and> is_ascii_digit (digits ! cnt))
           then Err (conversion_error T (MsgInvalidInteger data))
           else Ok (value, drop cnt digits))"

definition take_sep :: "bytes \<Rightarrow> bytes \<Rightarrow> bytes \<Rightarrow> (bytes, CursorError) outcome" where
  "take_sep T data delimiter = (case strip_prefix data delimiter of
       Some rest \<Rightarrow> Ok rest
     | None \<Rightarrow> Err (conversion_error T (MsgExpectedDelimiter delimiter)))"

definition expect_end :: "bytes \<Rightarrow> bytes \<Rightarrow> (unit, CursorError) outcome" where
  "expect_end T data = (if data = [] then Ok () else Err (conversion_error T (MsgUnexpectedData data)))"

section \<open>Dates and times\<close>

record RawDate =
  day :: int
  month :: int
  year :: int

definition RawDate_parse :: "libs \<Rightarrow> bytes \<Rightarrow> (RawDate \<times> bytes, CursorError) outcome" where
  "RawDate_parse L field =
     bindR (take_signed i16 ''RawDate'' field) (\<lambda>(y, field).
     bindR (take_sep ''RawDate'' field ''-'') (\<lambda>field.
     bindR (take_unsigned L (snd u8) ''RawDate'' field) (\<lambda>(m, field).
     bindR (take_sep ''RawDate'' field ''-'') (\<lambda>field.
     bindR (take_unsigned L (snd u8) ''RawDate'' field) (\<lambda>(d, field).
       Ok (\<lparr>day = d, month = m, year = y\<rparr>, field))))))"

record RawTime =
  microseconds :: int
  seconds :: int
  minutes :: int
  hours :: int

definition RawTime_parse :: "libs \<Rightarrow> bytes \<Rightarrow> (RawTime \<times> bytes, CursorError) outcome" where
  "RawTime_parse L field =
     bindR (take_unsigned L (snd u8) ''RawTime'' field) (\<lambda>(hs, field).
     bindR (take_sep ''RawTime'' field '':'') (\<lambda>field.
     bindR (take_unsigned L (snd u8) ''RawTime'' field) (\<lambda>(ms, field).
     bindR (take_sep ''RawTime'' field '':'') (\<lambda>field.
     bindR (take_unsigned L (snd u8) ''RawTime'' field) (\<lambda>(ss, field).
     bindR (if starts_with field ''.''
            then map_err (\<lambda>e. conversion_error ''RawTime'' (MsgInvalidTime e)) (parse_unsigned u32 field)
            else Ok (RawDecimal 0 6, field)) (\<lambda>(fractional_part, field).
       case at_scale u32 fractional_part 6 of
         None \<Rightarrow> Err (conversion_error ''RawTime'' (Msg ''server sent too many decimal digits''))
       | Some us \<Rightarrow> Ok (\<lparr>microseconds = us, seconds = ss, minutes = ms, hours = hs\<rparr>, field)))))))"

text \<open>\<open>u32\<close> arithmetic with overflow checks.\<close>

definition microseconds_within_minute :: "RawTime \<Rightarrow> (int, CursorError) outcome" where
  "microseconds_within_minute t = (let product = 1000000 * seconds t; s = microseconds t + product in
     if snd u32 < product \<or> snd u32 < s then Panic else Ok s)"

record RawTimestamp =
  ts_date :: RawDate
  ts_time :: RawTime

definition RawTimestamp_parse :: "libs \<Rightarrow> bytes \<Rightarrow> (RawTimestamp \<times> bytes, CursorError) outcome" where
  "RawTimestamp_parse L field =
     bindR (RawDate_parse L field) (\<lambda>(d, field).
     bindR (take_sep ''RawTimestamp'' field '' '') (\<lambda>field.
     bindR (RawTime_parse L field) (\<lambda>(t, field). Ok (\<lparr>ts_date = d, ts_time = t\<rparr>, field))))"

record RawTz =
  seconds_east :: int

definition RawTz_parse :: "libs \<Rightarrow> bytes \<Rightarrow> (RawTz \<times> bytes, CursorError) outcome" where
  "RawTz_parse L field =
     bindR (case field of
         [] \<Rightarrow> Err (conversion_error ''RawTz'' (Msg ''missing timezone''))
       | c # rest \<Rightarrow> if c = CHR ''+'' then Ok (1, rest)
           else if c = CHR ''-'' then Ok (- 1, rest)
           else Err (conversion_error ''RawTz'' (MsgInvalidTimezone field))) (\<lambda>(sign, hr_ms).
     bindR (take_unsigned L (snd u8) ''RawTz'' hr_ms) (\<lambda>(hs, hr_ms).
     bindR (take_sep ''RawTz'' hr_ms '':'') (\<lambda>hr_ms.
     bindR (take_unsigned L (snd u8) ''RawTz'' hr_ms) (\<lambda>(ms, hr_ms).
       Ok (\<lparr>seconds_east = sign * (3600 * hs + 60 * ms)\<rparr>, hr_ms)))))"

record RawTimeTz =
  tz_time :: RawTime
  tz_zone :: RawTz

definition RawTimeTz_parse :: "libs \<Rightarrow> bytes \<Rightarrow> (RawTimeTz \<times> bytes, CursorError) outcome" where
  "RawTimeTz_parse L field =
     bindR (RawTime_parse L field) (\<lambda>(t, field).
     bindR (RawTz_parse L field) (\<lambda>(z, field). Ok (\<lparr>tz_time = t, tz_zone = z\<rparr>, field)))"

record RawTimestampTz =
  tsz_date :: RawDate
  tsz_time :: RawTime
  tsz_zone :: RawTz

definition RawTimestampTz_parse :: "libs \<Rightarrow> bytes \<Rightarrow> (RawTimestampTz \<times> bytes, CursorError) outcome" where
  "RawTimestampTz_parse L field =
     bindR (RawTimestamp_parse L field) (\<lambda>(ts, field).
     bindR (RawTz_parse L field) (\<lambda>(z, field).
       Ok (\<lparr>tsz_date = ts_date ts, tsz_time = ts_time ts, tsz_zone = z\<rparr>, field)))"

section \<open>Printing, as the server does\<close>

definition no_digit :: "bytes \<Rightarrow> bool" where
  "no_digit rest \<longleftrightarrow> (case rest of [] \<Rightarrow> True | c # _ \<Rightarrow> \<not> is_ascii_digit c)"

definition show_date :: "RawDate \<Rightarrow> bytes" where
  "show_date d = show_int (year d) @ ''-'' @ padded (nat (month d)) 1 @ ''-'' @ padded (nat (day d)) 1"

definition show_time :: "RawTime \<Rightarrow> bytes" where
  "show_time t = padded (nat (hours t)) 1 @ '':'' @ padded (nat (minutes t)) 1 @ '':''
     @ padded (nat (seconds t)) 1 @ ''.'' @ padded (nat (microseconds t)) 5"

definition show_tz :: "RawTz \<Rightarrow> bytes" where
  "show_tz z = (if seconds_east z < 0 then ''-'' else ''+'') @ padded (nat (\<bar>seconds_east z\<bar> div 3600)) 1
     @ '':'' @ padded (nat (\<bar>seconds_east z\<bar> mod 3600 div 60)) 1"

definition show_timestamptz :: "RawTimestampTz \<Rightarrow> bytes" where
  "show_timestamptz v = show_date (tsz_date v) @ '' '' @ show_time (tsz_time v) @ show_tz (tsz_zone v)"

text \<open>The values the types hold.\<close>

definition wf_date :: "RawDate \<Rightarrow> bool" where
  "wf_date d \<longleftrightarrow> fits u8 (day d) \<and> fits u8 (month d) \<and> fits i16 (year d)"

definition wf_time :: "RawTime \<Rightarrow> bool" where
  "wf_time t \<longleftrightarrow> fits u8 (hours t) \<and> fits u8 (minutes t) \<and> fits u8 (seconds t)
     \<and> 0 \<le> microseconds t \<and> microseconds t < 1000000"

definition wf_tz :: "RawTz \<Rightarrow> bool" where
  "wf_tz z \<longleftrightarrow> \<bar>seconds_east z\<bar> < 256 * 3600 \<and> seconds_east z mod 60 = 0"

section \<open>Parsing what was printed\<close>

context byte_search
begin

lemma take_unsigned_padded:
  assumes "int k \<le> hi" and "no_digit rest"
  shows "take_unsigned L hi T (padded k w @ rest) = Ok (int k, rest)"
proof -
  have "takeWhile is_ascii_digit (padded k w @ rest) = padded k w @ takeWhile is_ascii_digit rest"
    using padded_digits [of k w] by (intro takeWhile_append2) (auto simp: all_digits_def)
  moreover have "takeWhile is_ascii_digit rest = []"
    using assms(2) by (cases rest) (auto simp: no_digit_def)
  ultimately show ?thesis
    using assms(1) padded_len(1) [of w k]
    by (simp add: take_unsigned_def radix_is ref_radix_def Let_def padded_val)
qed

lemma take_unsigned_Ok:
  assumes "take_unsigned L hi T data = Ok (v, rest)"
  shows "0 \<le> v \<and> v \<le> hi"
  using assms by (auto simp: take_unsigned_def radix_is ref_radix_def Let_def split: if_splits)

lemma take_unsigned_returns: "returns (take_unsigned L hi T data)"
  using length_takeWhile_le [of is_ascii_digit data]
  by (auto simp: take_unsigned_def radix_is ref_radix_def Let_def)

end

lemma take_sep_hit [simp]: "take_sep T (d @ rest) d = Ok rest"
  by (simp add: take_sep_def strip_prefix_def)

lemma take_sep_returns: "returns (take_sep T data d)"
  by (simp add: take_sep_def split: option.splits)

lemma signed_loop_digits:
  assumes "decimal_type ty" and "all_digits ds" and "no_digit rest" and "fits ty (sgn_of neg (digits_val n ds))"
  shows "signed_loop ty neg (sgn_of neg n) cnt (ds @ rest) = (sgn_of neg (digits_val n ds), cnt + length ds)"
  using assms(2,4)
proof (induction ds arbitrary: n cnt)
  case Nil
  then show ?case using assms(3) by (cases rest) (auto simp: no_digit_def)
next
  case (Cons d ds)
  have dd: "is_ascii_digit d" and ds: "all_digits ds" using Cons.prems by (auto simp: all_digits_def)
  have "fits ty (sgn_of neg (n * 10 + digit_val d))"
    using fits_mono [OF assms(1) digits_val_mono] Cons.prems(2) by simp
  with accum_step [OF assms(1) digit_val_bound [OF dd], of neg n]
  have "signed_loop ty neg (sgn_of neg n) cnt ((d # ds) @ rest)
      = signed_loop ty neg (sgn_of neg (n * 10 + digit_val d)) (cnt + 1) (ds @ rest)"
    using dd by (cases neg) (auto simp: multiply_accumulate_def multiply_subtract_def split: option.splits)
  with Cons.IH [OF ds, of "n * 10 + digit_val d" "cnt + 1"] Cons.prems(2) show ?case by simp
qed

lemma take_signed_show:
  assumes "decimal_type ty" and "fits ty y" and "no_digit rest"
  shows "take_signed ty T (show_int y @ rest) = Ok (y, rest)"
proof -
  let ?ds = "show_nat (nat \<bar>y\<bar>)" and ?neg = "y < 0"
  have v: "sgn_of ?neg (digits_val 0 ?ds) = y" by (simp add: sgn_of_def)
  have dig: "all_digits ?ds" using show_nat_digits by (auto simp: all_digits_def)
  have loop: "signed_loop ty ?neg 0 0 (?ds @ rest) = (y, length ?ds)"
    using signed_loop_digits [OF assms(1) dig assms(3), of ?neg 0 0] assms(2) v by (simp add: sgn_of_0)
  have pre: "(case strip_prefix (show_int y @ rest) ''-'' of Some digits \<Rightarrow> (True, digits) | None \<Rightarrow> (False, show_int y @ rest))
      = (?neg, ?ds @ rest)"
  proof (cases ?neg)
    case False
    obtain c cs where s: "?ds = c # cs" by (cases ?ds) simp_all
    then have "is_ascii_digit c" using dig by (simp add: all_digits_def)
    then have "\<not> prefix ''-'' (?ds @ rest)" by (auto simp: s is_ascii_digit_def)
    moreover have "show_int y = ?ds" using False by (simp add: show_int_def)
    ultimately show ?thesis using False by (simp add: strip_prefix_def)
  qed (simp add: show_int_def strip_prefix_def)
  have stop: "\<not> (length ?ds < length (?ds @ rest) \<and> is_ascii_digit ((?ds @ rest) ! length ?ds))"
    using assms(3) by (cases rest) (auto simp: no_digit_def)
  have ten: "checked ty 10 \<noteq> None" using assms(1) by (cases ty) simp
  show ?thesis
    unfolding take_signed_def Let_def pre case_prod_conv using loop stop ten by auto
qed

lemma no_digit_sep [simp]: "no_digit (CHR ''-'' # r)" "no_digit (CHR '':'' # r)" "no_digit (CHR ''.'' # r)"
  "no_digit (CHR '' '' # r)" "no_digit (CHR ''+'' # r)"
  by (simp_all add: no_digit_def is_ascii_digit_def)

lemma take_sep_char [simp]: "take_sep T (c # rest) [c] = Ok rest"
  using take_sep_hit [of T "[c]" rest] by simp

lemma fraction_parse:
  assumes "0 \<le> us" and "us < 1000000" and "no_digit rest"
  shows "parse_unsigned u32 (CHR ''.'' # padded (nat us) 5 @ rest) = Ok (RawDecimal us 6, rest)"
proof -
  have len: "length (padded (nat us) 5) = 6" using assms(1,2) padded_exact [of "nat us" 5] by simp
  have dt: "decimal_text [] True (padded (nat us) 5) rest"
    using assms(3) padded_digits [of "nat us" 5]
    by (auto simp: decimal_text_def all_digits_def no_digit_def split: list.splits)
  show ?thesis
    using parse_digits_spec [of u32, OF _ dt, of False] assms(1,2) len
    by (simp add: parse_unsigned_def signed_val_def sgn_of_def padded_val)
qed

context byte_search
begin

lemma date_roundtrip:
  assumes "wf_date d" and "no_digit rest"
  shows "RawDate_parse L (show_date d @ rest) = Ok (d, rest)"
  using assms by (simp add: RawDate_parse_def show_date_def take_signed_show take_unsigned_padded wf_date_def)

lemma time_roundtrip:
  assumes "wf_time t" and "no_digit rest"
  shows "RawTime_parse L (show_time t @ rest) = Ok (t, rest)"
  using assms fraction_parse [of "microseconds t" rest]
  by (simp add: RawTime_parse_def show_time_def take_unsigned_padded wf_time_def checked_pow10_def)

lemma tz_roundtrip:
  assumes "wf_tz z" and "no_digit rest"
  shows "RawTz_parse L (show_tz z @ rest) = Ok (z, rest)"
proof -
  define a where "a = \<bar>seconds_east z\<bar>"
  have a: "0 \<le> a" "a < 256 * 3600" "a mod 60 = 0" using assms(1) by (auto simp: a_def wf_tz_def abs_if)
  have "a mod 3600 mod 60 = 0" using a(3) by (simp add: mod_mod_cancel)
  then have "60 * (a mod 3600 div 60) = a mod 3600" by auto
  then have sum: "3600 * (a div 3600) + 60 * (a mod 3600 div 60) = a" using mult_div_mod_eq [of 3600 a] by simp
  then have neg: "- (3600 * (a div 3600)) - 60 * (a mod 3600 div 60) = - a" by linarith
  have b: "0 \<le> a div 3600" "a div 3600 \<le> 255" "0 \<le> a mod 3600 div 60" "a mod 3600 div 60 \<le> 255"
    using a by auto
  have u: "take_unsigned L 255 ''RawTz'' (padded (nat (a div 3600)) 1 @ r) = Ok (a div 3600, r)"
    "take_unsigned L 255 ''RawTz'' (padded (nat (a mod 3600 div 60)) 1 @ r) = Ok (a mod 3600 div 60, r)"
    if "no_digit r" for r
    using take_unsigned_padded [of "nat (a div 3600)" 255 r] take_unsigned_padded [of "nat (a mod 3600 div 60)" 255 r]
      that b by simp_all
  have "(if seconds_east z < 0 then - 1 else 1) * a = seconds_east z" by (simp add: a_def)
  then have z: "\<lparr>seconds_east = (if seconds_east z < 0 then - 1 else 1) * a\<rparr> = z" by simp
  show ?thesis
    unfolding show_tz_def a_def [symmetric] using z assms(2) u
    by (cases "seconds_east z < 0") (simp_all add: RawTz_parse_def sum neg)
qed

end

section \<open>Bounds of what is parsed\<close>

lemma digits_val_less: "all_digits ds \<Longrightarrow> digits_val n ds < (n + 1) * 10 ^ length ds"
proof (induction ds arbitrary: n)
  case (Cons d ds)
  have "digit_val d < 10" using Cons.prems digit_val_bound by (auto simp: all_digits_def)
  then have "n * 10 + digit_val d + 1 \<le> (n + 1) * 10" by simp
  then have "(n * 10 + digit_val d + 1) * 10 ^ length ds \<le> (n + 1) * 10 * 10 ^ length ds" by (rule mult_right_mono) simp
  note up = this
  have "digits_val (n * 10 + digit_val d) ds < (n * 10 + digit_val d + 1) * 10 ^ length ds"
    using Cons by (auto simp: all_digits_def)
  then have "digits_val (n * 10 + digit_val d) ds < (n + 1) * 10 * 10 ^ length ds" using up by (rule less_le_trans)
  then show ?case by (simp only: digits_val.simps list.size power_Suc mult.assoc add_0_right plus_nat.simps) simp
qed simp

lemma fraction_bound:
  assumes "parse_unsigned u32 (CHR ''.'' # t) = Ok (RawDecimal v sc, rest)" and "at_scale u32 (RawDecimal v sc) 6 = Some us"
  shows "0 \<le> us \<and> us < 1000000"
proof -
  obtain b rest' where t: "t = b @ rest'" and dt: "decimal_text [] True b rest'"
  proof -
    obtain a period b rest' where s: "CHR ''.'' # t = a @ (if period then CHR ''.'' # b else []) @ rest'"
      and d: "decimal_text a period b rest'" using decimal_decompose by blast
    then have "a = []" by (cases a) (auto simp: decimal_text_def all_digits_def is_ascii_digit_def)
    with s d that show thesis by (cases period) (auto simp: decimal_text_def)
  qed
  have "parse_digits (accum False u32) ([] @ (if True then CHR ''.'' # b else []) @ rest')
     = (if fits u32 (signed_val False ([] @ b)) \<and> length ([]::bytes) \<le> 255 \<and> length b \<le> 255
        then Ok (RawDecimal (signed_val False ([] @ b)) (length b), rest') else Err OutOfRange)"
    by (rule parse_digits_spec [OF _ dt]) simp_all
  with assms(1) have v: "v = int (digits_val 0 b)" and sc: "sc = length b"
    by (auto simp: parse_unsigned_def t signed_val_def sgn_of_def split: if_splits)
  from assms(2) have le: "sc \<le> 6" and us: "us = v * 10 ^ (6 - sc)" unfolding at_scale_iff by auto
  have "digits_val 0 b < 10 ^ sc" using digits_val_less [of b 0] dt by (simp add: decimal_text_def sc)
  then have "v < 10 ^ sc" unfolding v by (metis of_nat_less_iff of_nat_numeral of_nat_power)
  then have "us < 10 ^ sc * 10 ^ (6 - sc)" unfolding us by (intro mult_strict_right_mono) simp_all
  also have "\<dots> = 10 ^ 6" using le by (simp flip: power_add)
  finally show ?thesis using v us by simp
qed

lemma signed_loop_fits: "fits ty v \<Longrightarrow> fits ty (fst (signed_loop ty neg v cnt ds))"
  by (induction ds arbitrary: v cnt) (auto simp: checked_eq split: option.splits if_splits)

lemma take_signed_fits:
  assumes "take_signed ty T data = Ok (v, rest)" and "fits ty 0"
  shows "fits ty v"
proof -
  from assms(1) obtain neg ds cnt where "signed_loop ty neg 0 0 ds = (v, cnt)"
    by (auto simp: take_signed_def Let_def split: prod.splits if_splits)
  with signed_loop_fits [OF assms(2), of neg 0 ds] show ?thesis by simp
qed

lemma take_signed_returns: "returns (take_signed ty T data)"
  by (auto simp: take_signed_def Let_def split: prod.splits)

lemma digits_loop_returns: "returns (digits_loop f acc sc saw ds)"
  by (induction f acc sc saw ds rule: digits_loop.induct) (auto split: option.splits)

lemma parse_unsigned_returns: "returns (parse_unsigned ty ds)"
  using digits_loop_returns
  by (auto simp: parse_unsigned_def parse_digits_def returns_bindR_iff split: list.splits prod.splits)

context byte_search
begin

lemmas parts_return = take_unsigned_returns take_sep_returns take_signed_returns parse_unsigned_returns

lemma time_returns: "returns (RawTime_parse L field)"
  by (auto simp: RawTime_parse_def returns_bindR_iff parts_return split: option.splits prod.splits)

lemma date_returns: "returns (RawDate_parse L field)"
  by (auto simp: RawDate_parse_def returns_bindR_iff parts_return split: prod.splits)

lemma tz_returns: "returns (RawTz_parse L field)"
  by (auto simp: RawTz_parse_def returns_bindR_iff parts_return split: list.splits prod.splits)

lemma date_wf: "RawDate_parse L field = Ok (d, rest) \<Longrightarrow> wf_date d"
  by (auto simp: RawDate_parse_def wf_date_def dest!: take_unsigned_Ok take_signed_fits)

lemma time_wf:
  assumes "RawTime_parse L field = Ok (t, rest)"
  shows "wf_time t"
proof -
  from assms obtain f dec us where "0 \<le> hours t \<and> hours t \<le> 255" "0 \<le> minutes t \<and> minutes t \<le> 255"
    "0 \<le> seconds t \<and> seconds t \<le> 255"
    and dec: "(if starts_with f ''.''
            then map_err (\<lambda>e. conversion_error ''RawTime'' (MsgInvalidTime e)) (parse_unsigned u32 f)
            else Ok (RawDecimal 0 6, f)) = Ok (dec, rest)"
    and us: "at_scale u32 dec 6 = Some us" "microseconds t = us"
    by (auto simp: RawTime_parse_def dest!: take_unsigned_Ok split: option.splits)
  moreover have "0 \<le> us \<and> us < 1000000"
  proof (cases "starts_with f ''.''")
    case True
    then obtain u where "f = CHR ''.'' # u" by (auto simp: prefix_def)
    with dec True us fraction_bound show ?thesis by (cases dec) auto
  next
    case False
    with dec us show ?thesis by (auto simp: checked_pow10_def)
  qed
  ultimately show ?thesis by (simp add: wf_time_def)
qed

end

text \<open>Every failure is a conversion error.\<close>

definition conv_only :: "('a, CursorError) outcome \<Rightarrow> bool" where
  "conv_only m \<longleftrightarrow> returns m \<and> (\<forall>e. m = Err e \<longrightarrow> (\<exists>t c. e = Conversion t c))"

lemma conv_only_bind:
  "conv_only m \<Longrightarrow> (\<And>x. m = Ok x \<Longrightarrow> conv_only (f x)) \<Longrightarrow> conv_only (bindR m f)"
  by (cases m) (auto simp: conv_only_def)

lemma conv_only_map_err: "returns m \<Longrightarrow> conv_only (map_err (\<lambda>e. Conversion T (g e)) m)"
  by (cases m) (auto simp: conv_only_def)

lemma conv_only_simps [simp]: "conv_only (Ok x)" "conv_only (Err (Conversion T c))"
  by (auto simp: conv_only_def)

lemma conv_only_signed: "conv_only (take_signed ty T data)"
  by (auto simp: take_signed_def Let_def split: prod.splits option.splits)

lemma conv_only_sep: "conv_only (take_sep T data d)"
  by (auto simp: take_sep_def split: option.splits)

lemmas conv_only_parts = conv_only_signed conv_only_sep conv_only_map_err [OF parse_unsigned_returns]

context byte_search
begin

lemma conv_only_unsigned: "conv_only (take_unsigned L hi T data)"
  using take_unsigned_returns [of hi T data]
  by (auto simp: conv_only_def take_unsigned_def split: prod.splits option.splits if_splits)

lemma conv_only_date: "conv_only (RawDate_parse L field)"
  unfolding RawDate_parse_def
  by (intro conv_only_bind) (auto simp: conv_only_parts conv_only_unsigned intro!: conv_only_bind)

lemma conv_only_time: "conv_only (RawTime_parse L field)"
  unfolding RawTime_parse_def
  by (intro conv_only_bind)
     (auto simp: conv_only_parts conv_only_unsigned
       intro!: conv_only_bind split: option.splits)

lemma conv_only_tz: "conv_only (RawTz_parse L field)"
  unfolding RawTz_parse_def
  by (intro conv_only_bind)
     (auto simp: conv_only_parts conv_only_unsigned intro!: conv_only_bind split: list.splits)

lemma conv_only_timestamptz: "conv_only (RawTimestampTz_parse L field)"
  unfolding RawTimestampTz_parse_def RawTimestamp_parse_def
  by (intro conv_only_bind)
     (auto simp: conv_only_parts conv_only_date conv_only_time conv_only_tz intro!: conv_only_bind)

lemma tz_bound:
  assumes "RawTz_parse L field = Ok (z, rest)"
  shows "\<bar>seconds_east z\<bar> \<le> 933300"
proof -
  from assms obtain hs ms where "0 \<le> hs \<and> hs \<le> 255" and "0 \<le> ms \<and> ms \<le> 255"
    and "seconds_east z = 3600 * hs + 60 * ms \<or> seconds_east z = - (3600 * hs + 60 * ms)"
    by (fastforce simp: RawTz_parse_def dest!: take_unsigned_Ok split: list.splits if_splits)
  then show ?thesis by auto
qed

end

section \<open>Properties\<close>

text \<open>A timestamp with time zone, printed the way the server prints it, is parsed back to the same
  value, and what follows it is left in the field: for every date (with negative years down to the
  smallest \<open>i16\<close>), every time to the microsecond and every zone offset in whole minutes.\<close>

theorem timestamptz_roundtrip:
  assumes "byte_search L" and "wf_date (tsz_date v)" and "wf_time (tsz_time v)" and "wf_tz (tsz_zone v)"
    and "no_digit rest"
  shows "RawTimestampTz_parse L (show_timestamptz v @ rest) = Ok (v, rest)"
proof -
  note rt = byte_search.date_roundtrip [OF assms(1,2)] byte_search.time_roundtrip [OF assms(1,3)]
    byte_search.tz_roundtrip [OF assms(1,4,5)]
  have "no_digit (show_tz (tsz_zone v) @ rest)" by (simp add: show_tz_def)
  then show ?thesis
    by (simp add: RawTimestampTz_parse_def RawTimestamp_parse_def show_timestamptz_def rt)
qed

theorem timestamptz_roundtrip_witness:
  "RawTimestampTz_parse ref_libs (show_timestamptz
       \<lparr>tsz_date = \<lparr>day = 16, month = 10, year = - 32768\<rparr>,
        tsz_time = \<lparr>microseconds = 120, seconds = 59, minutes = 32, hours = 10\<rparr>,
        tsz_zone = \<lparr>seconds_east = - 27000\<rparr>\<rparr> @ ''xyz'')
     = Ok (\<lparr>tsz_date = \<lparr>day = 16, month = 10, year = - 32768\<rparr>,
        tsz_time = \<lparr>microseconds = 120, seconds = 59, minutes = 32, hours = 10\<rparr>,
        tsz_zone = \<lparr>seconds_east = - 27000\<rparr>\<rparr>, ''xyz'')"
  by (rule timestamptz_roundtrip [OF ref_libs.byte_search_axioms])
     (simp_all add: wf_date_def wf_time_def wf_tz_def no_digit_def is_ascii_digit_def)

text \<open>On every field, parsing a timestamp with time zone returns, and a value it returns is in bounds:
  the parts fit their types, the microseconds are below one million, so that the microseconds
  within the minute are computed without overflow, and the offset is below eleven days.\<close>

theorem timestamptz_in_bounds:
  assumes "byte_search L"
  shows "case RawTimestampTz_parse L field of
      Ok (v, rest) \<Rightarrow> wf_date (tsz_date v) \<and> wf_time (tsz_time v) \<and> \<bar>seconds_east (tsz_zone v)\<bar> \<le> 933300
        \<and> microseconds_within_minute (tsz_time v)
            = Ok (microseconds (tsz_time v) + 1000000 * seconds (tsz_time v))
    | Err e \<Rightarrow> \<exists>t m. e = Conversion t m
    | _ \<Rightarrow> False"
proof (cases "RawTimestampTz_parse L field")
  case (Ok x)
  obtain v rest where x: "x = (v, rest)" by (cases x)
  obtain d t z f1 f2 f3 where p: "RawDate_parse L field = Ok (d, f1)" "RawTime_parse L f2 = Ok (t, f3)"
    "RawTz_parse L f3 = Ok (z, rest)" and v: "v = \<lparr>tsz_date = d, tsz_time = t, tsz_zone = z\<rparr>"
    using Ok x by (auto simp: RawTimestampTz_parse_def RawTimestamp_parse_def)
  have "wf_time t" using byte_search.time_wf [OF assms p(2)] .
  then have "microseconds_within_minute t = Ok (microseconds t + 1000000 * seconds t)"
    by (auto simp: wf_time_def microseconds_within_minute_def Let_def)
  with byte_search.date_wf [OF assms p(1)] byte_search.time_wf [OF assms p(2)] byte_search.tz_bound [OF assms p(3)]
  show ?thesis by (simp add: Ok x v)
qed (use byte_search.conv_only_timestamptz [OF assms, of field] in \<open>auto simp: conv_only_def\<close>)

theorem timestamptz_in_bounds_witness:
  "case RawTimestampTz_parse ref_libs ''2024-10-16 10:32:59.12-05:00'' of
      Ok (v, rest) \<Rightarrow> wf_date (tsz_date v) \<and> wf_time (tsz_time v) \<and> \<bar>seconds_east (tsz_zone v)\<bar> \<le> 933300
        \<and> microseconds_within_minute (tsz_time v)
            = Ok (microseconds (tsz_time v) + 1000000 * seconds (tsz_time v))
    | Err e \<Rightarrow> \<exists>t m. e = Conversion t m
    | _ \<Rightarrow> False"
  by (rule timestamptz_in_bounds [OF ref_libs.byte_search_axioms])

end
