(* ===== verification/From_Monet.thy ===== *)
theory From_Monet
  imports Cursor Raw_Temporal
begin

text \<open>
  Values out of result sets: the trait \<open>FromMonet\<close> and its implementations in \<open>src/convert/mod.rs\<close> and
  \<open>src/convert/raw_temporal.rs\<close>, and the typed getters of a cursor (\<open>get\<close> and the methods of \<open>define_getter\<close> in
  \<open>src/cursor/mod.rs\<close>).

  An implementation of \<open>FromStr\<close> is an argument: a function from the text to the value or the message of its error. Those
  of the integers and of \<open>bool\<close> are the standard library's, that of \<open>RawDecimal\<close> is this code's own. Those of floating-point
  numbers and of the crates \<open>hex\<close>, \<open>uuid\<close>, \<open>rust_decimal\<close> and \<open>decimal-rs\<close> stay arguments.
\<close>

section \<open>Model of the code: conversions\<close>

definition convert_from_utf8 :: "bytes \<Rightarrow> (bytes, CursorError) outcome" where
  "convert_from_utf8 field = (if utf8_valid field then Ok field else Err (Bad (Unicode ''result set'')))"

definition transform :: "bytes \<Rightarrow> (bytes \<Rightarrow> ('a, conv_msg) outcome) \<Rightarrow> bytes \<Rightarrow> ('a option, CursorError) outcome" where
  "transform T f field =
     bindR (convert_from_utf8 field) (\<lambda>s. bindR (map_err (conversion_error T) (f s)) (\<lambda>v. Ok (Some v)))"

definition transform_fromstr :: "bytes \<Rightarrow> (bytes \<Rightarrow> ('a, conv_msg) outcome) \<Rightarrow> bytes \<Rightarrow> ('a option, CursorError) outcome" where
  "transform_fromstr T from_str field = transform T from_str field"

text \<open>\<open>FromStr\<close> of the types the macro is used for.\<close>

definition bool_from_str :: "bytes \<Rightarrow> (bool, conv_msg) outcome" where
  "bool_from_str s = (if s = ''true'' then Ok True else if s = ''false'' then Ok False else Err MsgParseBool)"

definition int_from_str :: "int_type \<Rightarrow> bytes \<Rightarrow> (int, conv_msg) outcome" where
  "int_from_str ty s = map_err MsgParseInt (parse_int (fst ty) (snd ty) s)"

definition decimal_from_str :: "int_type \<Rightarrow> bytes \<Rightarrow> (RawDecimal, conv_msg) outcome" where
  "decimal_from_str ty s = map_err MsgDecimal (RawDecimal_from_str ty s)"

section \<open>Model of the code: implementations of FromMonet\<close>

type_synonym 'a extraction = "ResultSet \<Rightarrow> nat \<Rightarrow> ('a option, CursorError) outcome"

definition fromstr_frommonet :: "bytes \<Rightarrow> (bytes \<Rightarrow> ('a, conv_msg) outcome) \<Rightarrow> 'a extraction" where
  "fromstr_frommonet T from_str rs colnr = bindR (raw_value rs colnr) (\<lambda>field. case field of
       None \<Rightarrow> Ok None
     | Some field \<Rightarrow> transform_fromstr T from_str field)"

definition extract_bool :: "bool extraction" where
  "extract_bool = fromstr_frommonet ''bool'' bool_from_str"

definition extract_int :: "bytes \<Rightarrow> int_type \<Rightarrow> int extraction" where
  "extract_int T ty = fromstr_frommonet T (int_from_str ty)"

definition extract_float :: "bytes \<Rightarrow> (bytes \<Rightarrow> ('f, bytes) outcome) \<Rightarrow> 'f extraction" where
  "extract_float T from_str = fromstr_frommonet T (\<lambda>s. map_err MsgLibrary (from_str s))"

definition extract_decimal :: "int_type \<Rightarrow> RawDecimal extraction" where
  "extract_decimal ty = fromstr_frommonet ''RawDecimal'' (decimal_from_str ty)"

text \<open>\<open>Vec<u8>\<close>, with \<open>hex::decode\<close> an argument, and \<open>Uuid\<close>, with its parser an argument: both take the bytes of the field.\<close>

definition extract_blob :: "(bytes \<Rightarrow> (bytes, bytes) outcome) \<Rightarrow> bytes extraction" where
  "extract_blob hex_decode rs colnr = bindR (raw_value rs colnr) (\<lambda>field. case field of
       None \<Rightarrow> Ok None
     | Some field \<Rightarrow> bindR (map_err (\<lambda>e. conversion_error ''Vec<u8>'' (MsgLibrary e)) (hex_decode field)) (\<lambda>vec. Ok (Some vec)))"

definition extract_uuid :: "(bytes \<Rightarrow> ('u, bytes) outcome) \<Rightarrow> 'u extraction" where
  "extract_uuid try_parse_ascii rs colnr = bindR (raw_value rs colnr) (\<lambda>field. case field of
       None \<Rightarrow> Ok None
     | Some field \<Rightarrow> bindR (map_err (\<lambda>e. conversion_error ''Uuid'' (MsgLibrary e)) (try_parse_ascii field)) (\<lambda>u. Ok (Some u)))"

definition extract_crate_decimal :: "(bytes \<Rightarrow> ('d, bytes) outcome) \<Rightarrow> 'd extraction" where
  "extract_crate_decimal from_str rs colnr = bindR (raw_value rs colnr) (\<lambda>field. case field of
       None \<Rightarrow> Ok None
     | Some field \<Rightarrow> transform ''Decimal'' (\<lambda>s. map_err MsgLibrary (from_str s)) field)"

text \<open>A duration is given in milliseconds.\<close>

definition extract_duration :: "int extraction" where
  "extract_duration rs colnr = bindR (extract_decimal u64 rs colnr) (\<lambda>decimal. case decimal of
       None \<Rightarrow> Ok None
     | Some decimal \<Rightarrow> (case at_scale u64 decimal 3 of
           None \<Rightarrow> Err (Conversion ''Duration'' (Msg ''interval has precision finer than milliseconds''))
         | Some milliseconds \<Rightarrow> Ok (Some milliseconds)))"

text \<open>The temporal types parse the field and insist on its end.\<close>

definition parse_whole :: "bytes \<Rightarrow> (bytes \<Rightarrow> ('a \<times> bytes, CursorError) outcome) \<Rightarrow> 'a extraction" where
  "parse_whole T rdr rs colnr = bindR (raw_value rs colnr) (\<lambda>field. case field of
       None \<Rightarrow> Ok None
     | Some field \<Rightarrow> bindR (rdr field) (\<lambda>(v, field). bindR (expect_end T field) (\<lambda>_. Ok (Some v))))"

definition RawDate_extract :: "libs \<Rightarrow> RawDate extraction" where
  "RawDate_extract L = parse_whole ''RawDate'' (RawDate_parse L)"

definition RawTime_extract :: "libs \<Rightarrow> RawTime extraction" where
  "RawTime_extract L = parse_whole ''RawTime'' (RawTime_parse L)"

definition RawTimestamp_extract :: "libs \<Rightarrow> RawTimestamp extraction" where
  "RawTimestamp_extract L = parse_whole ''RawTimestamp'' (RawTimestamp_parse L)"

definition RawTimeTz_extract :: "libs \<Rightarrow> RawTimeTz extraction" where
  "RawTimeTz_extract L = parse_whole ''RawTimeTz'' (RawTimeTz_parse L)"

definition RawTimestampTz_extract :: "libs \<Rightarrow> RawTimestampTz extraction" where
  "RawTimestampTz_extract L = parse_whole ''RawTimestampTz'' (RawTimestampTz_parse L)"

section \<open>Model of the code: getters of a cursor\<close>

definition cursor_get :: "'a extraction \<Rightarrow> nat \<Rightarrow> 't Cursor \<Rightarrow> ('a option, CursorError) outcome" where
  "cursor_get extr colnr cu = bindR (result_set cu) (\<lambda>rs. extr rs colnr)"

definition get_bool :: "nat \<Rightarrow> 't Cursor \<Rightarrow> (bool option, CursorError) outcome" where
  "get_bool = cursor_get extract_bool"

definition get_i8 :: "nat \<Rightarrow> 't Cursor \<Rightarrow> (int option, CursorError) outcome" where
  "get_i8 = cursor_get (extract_int ''i8'' i8)"

definition get_u8 :: "nat \<Rightarrow> 't Cursor \<Rightarrow> (int option, CursorError) outcome" where
  "get_u8 = cursor_get (extract_int ''u8'' u8)"

definition get_i16 :: "nat \<Rightarrow> 't Cursor \<Rightarrow> (int option, CursorError) outcome" where
  "get_i16 = cursor_get (extract_int ''i16'' i16)"

definition get_u16 :: "nat \<Rightarrow> 't Cursor \<Rightarrow> (int option, CursorError) outcome" where
  "get_u16 = cursor_get (extract_int ''u16'' u16)"

definition get_i32 :: "nat \<Rightarrow> 't Cursor \<Rightarrow> (int option, CursorError) outcome" where
  "get_i32 = cursor_get (extract_int ''i32'' i32)"

definition get_u32 :: "nat \<Rightarrow> 't Cursor \<Rightarrow> (int option, CursorError) outcome" where
  "get_u32 = cursor_get (extract_int ''u32'' u32)"

definition get_i64 :: "nat \<Rightarrow> 't Cursor \<Rightarrow> (int option, CursorError) outcome" where
  "get_i64 = cursor_get (extract_int ''i64'' i64)"

definition get_u64 :: "nat \<Rightarrow> 't Cursor \<Rightarrow> (int option, CursorError) outcome" where
  "get_u64 = cursor_get (extract_int ''u64'' u64)"

definition get_i128 :: "nat \<Rightarrow> 't Cursor \<Rightarrow> (int option, CursorError) outcome" where
  "get_i128 = cursor_get (extract_int ''i128'' i128)"

definition get_u128 :: "nat \<Rightarrow> 't Cursor \<Rightarrow> (int option, CursorError) outcome" where
  "get_u128 = cursor_get (extract_int ''u128'' u128)"

definition get_isize :: "nat \<Rightarrow> 't Cursor \<Rightarrow> (int option, CursorError) outcome" where
  "get_isize = cursor_get (extract_int ''isize'' i64)"

definition get_usize :: "nat \<Rightarrow> 't Cursor \<Rightarrow> (int option, CursorError) outcome" where
  "get_usize = cursor_get (extract_int ''usize'' u64)"

definition get_f32 :: "(bytes \<Rightarrow> ('f, bytes) outcome) \<Rightarrow> nat \<Rightarrow> 't Cursor \<Rightarrow> ('f option, CursorError) outcome" where
  "get_f32 from_str = cursor_get (extract_float ''f32'' from_str)"

definition get_f64 :: "(bytes \<Rightarrow> ('f, bytes) outcome) \<Rightarrow> nat \<Rightarrow> 't Cursor \<Rightarrow> ('f option, CursorError) outcome" where
  "get_f64 from_str = cursor_get (extract_float ''f64'' from_str)"

section \<open>Integers through their text\<close>

lemma ascii_utf8: "(\<And>c. c \<in> set s \<Longrightarrow> byte_val c < 128) \<Longrightarrow> utf8_valid s"
  using utf8_valid_ascii [of s "[]"] by simp

lemma show_int_utf8: "utf8_valid (show_int i)"
  by (rule ascii_utf8) (use show_nat_digits in \<open>force simp: show_int_def is_ascii_digit_def split: if_splits\<close>)

lemma int_from_str_show:
  assumes "fst ty \<le> 0" and "0 < snd ty" and "fits ty n" and "n < 0 \<longrightarrow> fst ty < 0"
  shows "int_from_str ty (show_int n) = Ok n"
proof (cases "n < 0")
  case True
  then show ?thesis using assms by (cases ty) (simp add: int_from_str_def parse_int_show_int)
next
  case False
  then show ?thesis using assms by (cases ty) (simp add: int_from_str_def show_int_def parse_int_show_nat)
qed

lemma int_from_str_refuses:
  assumes "fst ty \<le> 0" and "0 < snd ty" and "\<not> fits ty n"
  shows "\<exists>e. int_from_str ty (show_int n) = Err (MsgParseInt e)"
proof -
  have "parse_int (fst ty) (snd ty) (show_int n) \<noteq> Ok v" for v
    using parse_int_show_int_Ok [of "fst ty" "snd ty" n v] assms by (cases ty) auto
  moreover have "returns (parse_int (fst ty) (snd ty) (show_int n))" by (rule returns_parse_int)
  ultimately show ?thesis by (cases "parse_int (fst ty) (snd ty) (show_int n)") (auto simp: int_from_str_def)
qed

section \<open>The current row\<close>

lemma row_loop_cells:
  assumes "byte_search (env_L E)" and "cu_replies cu = Data rs" and "res_next_row rs < res_total_rows rs"
    and "wf_buf (rs_buf (res_row_set rs))" and "\<not> rs_noslice (res_row_set rs)"
    and "rs_ncols (res_row_set rs) = length cells" and "length (rs_fields (res_row_set rs)) = length cells"
    and "peek (rs_buf (res_row_set rs)) = row_text cells @ rest" and "\<forall>c\<in>set cells. cell_ok c"
  obtains rs' b fs where "row_loop E (Suc f) cu = (Ok True, cu\<lparr>cu_replies := Data rs'\<rparr>)"
    "rs' = rs\<lparr>res_row_set := (res_row_set rs)\<lparr>rs_buf := b, rs_fields := fs\<rparr>, res_next_row := res_next_row rs + 1\<rparr>"
    "wf_buf b" "peek b = rest" "length fs = length cells"
    "\<And>i. i < length cells \<Longrightarrow> raw_value rs' i = Ok (cell_value (cells ! i))"
proof -
  obtain b fs where r: "advance (env_L E) (res_row_set rs) = (Ok True, (res_row_set rs)\<lparr>rs_buf := b, rs_fields := fs\<rparr>)" "wf_buf b" "peek b = rest"
      "length fs = length cells"
      "\<And>i. i < length cells \<Longrightarrow> get_field_raw ((res_row_set rs)\<lparr>rs_buf := b, rs_fields := fs\<rparr>) i = Ok (cell_value (cells ! i))"
    by (rule advance_row [OF assms(1,4-9)]) (rule that, assumption+)
  let ?rs = "rs\<lparr>res_row_set := (res_row_set rs)\<lparr>rs_buf := b, rs_fields := fs\<rparr>, res_next_row := res_next_row rs + 1\<rparr>"
  have "row_loop E (Suc f) cu = (Ok True, cu\<lparr>cu_replies := Data ?rs\<rparr>)"
    using assms(2,3) r(1) by (simp add: count_row_def)
  then show thesis using that [OF _ refl r(2-4)] r(5) by (simp add: raw_value_def)
qed

lemma next_row_Data: "0 < env_F E \<Longrightarrow> cu_replies cu = Data rs \<Longrightarrow> next_row E cu = row_loop E (env_F E) cu"
  by (cases "env_F E") (simp_all add: next_row_def)

lemma cursor_get_Data: "cu_replies cu = Data rs \<Longrightarrow> cursor_get extr i cu = extr rs i"
  by (simp add: cursor_get_def result_set_def)

lemma extract_null: "raw_value rs i = Ok None \<Longrightarrow> fromstr_frommonet T f rs i = Ok None" "raw_value rs i = Ok None \<Longrightarrow> parse_whole T g rs i = Ok None"
  by (simp_all add: fromstr_frommonet_def parse_whole_def)

lemma extract_int_show:
  assumes "raw_value rs i = Ok (Some (show_int n))" and "fst ty \<le> 0" and "0 < snd ty"
  shows "fits ty n \<Longrightarrow> extract_int T ty rs i = Ok (Some n)" "\<not> fits ty n \<Longrightarrow> \<exists>e. extract_int T ty rs i = Err (Conversion T (MsgParseInt e))"
proof -
  have e: "extract_int T ty rs i = bindR (map_err (conversion_error T) (int_from_str ty (show_int n))) (\<lambda>v. Ok (Some v))"
    by (simp add: extract_int_def fromstr_frommonet_def assms(1) transform_fromstr_def transform_def convert_from_utf8_def show_int_utf8)
  show "extract_int T ty rs i = Ok (Some n)" if "fits ty n"
  proof -
    have "n < 0 \<longrightarrow> fst ty < 0" using that by (cases ty) auto
    then show ?thesis by (simp add: e int_from_str_show [OF assms(2,3) that])
  qed
  show "\<exists>x. extract_int T ty rs i = Err (Conversion T (MsgParseInt x))" if "\<not> fits ty n"
    using int_from_str_refuses [OF assms(2,3) that] by (auto simp: e)
qed

lemma decimal_show_utf8: "utf8_valid (RawDecimal_show n s)"
proof (rule ascii_utf8)
  fix c
  assume "c \<in> set (RawDecimal_show n s)"
  then have "is_ascii_digit c \<or> c = CHR ''-'' \<or> c = CHR ''.''"
    using padded_digits [of "nat \<bar>n\<bar>" s]
    by (auto simp: RawDecimal_show_def Let_def all_digits_def dest: in_set_takeD in_set_dropD split: if_splits)
  then show "byte_val c < 128" by (auto simp: is_ascii_digit_def)
qed

lemma extract_decimal_show:
  assumes "raw_value rs i = Ok (Some (RawDecimal_show n s))" and "RawDecimal_from_str ty (RawDecimal_show n s) = Ok (RawDecimal n s)"
  shows "extract_decimal ty rs i = Ok (Some (RawDecimal n s))"
  by (simp add: extract_decimal_def fromstr_frommonet_def assms transform_fromstr_def transform_def convert_from_utf8_def decimal_show_utf8
      decimal_from_str_def)

text \<open>The getters of integers with the types they ask for, and the types of the decimals.\<close>

definition int_getters :: "(bytes \<times> int_type \<times> (nat \<Rightarrow> 't Cursor \<Rightarrow> (int option, CursorError) outcome)) list" where
  "int_getters = [(''i8'', i8, get_i8), (''u8'', u8, get_u8), (''i16'', i16, get_i16), (''u16'', u16, get_u16), (''i32'', i32, get_i32),
     (''u32'', u32, get_u32), (''i64'', i64, get_i64), (''u64'', u64, get_u64), (''i128'', i128, get_i128), (''u128'', u128, get_u128),
     (''isize'', i64, get_isize), (''usize'', u64, get_usize)]"

definition decimal_types :: "int_type list" where
  "decimal_types = [i8, u8, i16, u16, i32, u32, i64, u64, i128, u128]"

lemma int_getters_extract: "(T, ty, g) \<in> set int_getters \<Longrightarrow> g = cursor_get (extract_int T ty) \<and> fst ty \<le> 0 \<and> 0 < snd ty"
  by (auto simp: int_getters_def get_i8_def get_u8_def get_i16_def get_u16_def get_i32_def get_u32_def get_i64_def get_u64_def
      get_i128_def get_u128_def get_isize_def get_usize_def)

lemma decimal_types_hold:
  assumes "ty \<in> set decimal_types" and "fits ty n"
  shows "decimal_type ty" "length (show_nat (nat \<bar>n\<bar>)) \<le> 255" "n < 0 \<longrightarrow> fst ty < 0"
proof -
  have "\<bar>n\<bar> < 10 ^ 39" using assms by (auto simp: decimal_types_def)
  then have "length (show_nat (nat \<bar>n\<bar>)) \<le> 39" by (intro show_nat_length) (simp_all add: nat_less_iff)
  then show "length (show_nat (nat \<bar>n\<bar>)) \<le> 255" by simp
qed (use assms in \<open>auto simp: decimal_types_def\<close>)

text \<open>What the getters must return for a cell the server rendered.\<close>

fun delivered :: "libs \<Rightarrow> 't Cursor \<Rightarrow> nat \<Rightarrow> cell \<Rightarrow> bool" where
  "delivered L cu i Null \<longleftrightarrow> get_str i cu = Ok None \<and> get_bool i cu = Ok None \<and> (\<forall>(T, ty, g)\<in>set int_getters. g i cu = Ok None)
     \<and> (\<forall>ty\<in>set decimal_types. cursor_get (extract_decimal ty) i cu = Ok None) \<and> cursor_get extract_duration i cu = Ok None
     \<and> cursor_get (RawDate_extract L) i cu = Ok None \<and> cursor_get (RawTime_extract L) i cu = Ok None \<and> cursor_get (RawTimestamp_extract L) i cu = Ok None
     \<and> cursor_get (RawTimeTz_extract L) i cu = Ok None \<and> cursor_get (RawTimestampTz_extract L) i cu = Ok None"
| "delivered L cu i (Quoted t) \<longleftrightarrow> get_str i cu = (if utf8_valid t then Ok (Some t) else Err (Bad (Unicode ''result set'')))"
| "delivered L cu i (Raw t) \<longleftrightarrow> (\<forall>b. t = (if b then ''true'' else ''false'') \<longrightarrow> get_bool i cu = Ok (Some b))
     \<and> (\<forall>n. t = show_int n \<longrightarrow> (\<forall>(T, ty, g)\<in>set int_getters. if fits ty n then g i cu = Ok (Some n)
          else \<exists>e. g i cu = Err (Conversion T (MsgParseInt e))))
     \<and> (\<forall>n s. t = RawDecimal_show n s \<and> s < 255 \<longrightarrow>
          (\<forall>ty\<in>set decimal_types. fits ty n \<longrightarrow> cursor_get (extract_decimal ty) i cu = Ok (Some (RawDecimal n s)))
          \<and> (fits u64 n \<and> s \<le> 3 \<and> fits u64 (n * 10 ^ (3 - s)) \<longrightarrow> cursor_get extract_duration i cu = Ok (Some (n * 10 ^ (3 - s)))))
     \<and> (\<forall>d. t = show_date d \<and> wf_date d \<longrightarrow> cursor_get (RawDate_extract L) i cu = Ok (Some d))
     \<and> (\<forall>v. t = show_time v \<and> wf_time v \<longrightarrow> cursor_get (RawTime_extract L) i cu = Ok (Some v))
     \<and> (\<forall>v. t = show_date (ts_date v) @ '' '' @ show_time (ts_time v) \<and> wf_date (ts_date v) \<and> wf_time (ts_time v)
          \<longrightarrow> cursor_get (RawTimestamp_extract L) i cu = Ok (Some v))
     \<and> (\<forall>v. t = show_time (tz_time v) @ show_tz (tz_zone v) \<and> wf_time (tz_time v) \<and> wf_tz (tz_zone v)
          \<longrightarrow> cursor_get (RawTimeTz_extract L) i cu = Ok (Some v))
     \<and> (\<forall>v. t = show_timestamptz v \<and> wf_date (tsz_date v) \<and> wf_time (tsz_time v) \<and> wf_tz (tsz_zone v)
          \<longrightarrow> cursor_get (RawTimestampTz_extract L) i cu = Ok (Some v))"

lemma get_str_raw:
  "cu_replies cu = Data rs \<Longrightarrow> raw_value rs i = Ok v \<Longrightarrow> get_str i cu = (case v of None \<Rightarrow> Ok None
     | Some s \<Rightarrow> if utf8_valid s then Ok (Some s) else Err (Bad (Unicode ''result set'')))"
  by (cases "get_field_raw (res_row_set rs) i") (auto simp: get_str_def current_rows_def raw_value_def)

lemma whole_field: "raw_value rs i = Ok (Some t) \<Longrightarrow> g t = Ok (v, []) \<Longrightarrow> parse_whole T g rs i = Ok (Some v)"
  by (simp add: parse_whole_def expect_end_def)

lemma extract_bool_text: "raw_value rs i = Ok (Some (if b then ''true'' else ''false'')) \<Longrightarrow> extract_bool rs i = Ok (Some b)"
  by (cases b) (simp_all add: extract_bool_def fromstr_frommonet_def transform_fromstr_def transform_def convert_from_utf8_def
      bool_from_str_def utf8_step_def)

lemma extract_decimal_text:
  assumes "raw_value rs i = Ok (Some (RawDecimal_show n s))" and "s < 255"
  shows "ty \<in> set decimal_types \<Longrightarrow> fits ty n \<Longrightarrow> extract_decimal ty rs i = Ok (Some (RawDecimal n s))"
    and "fits u64 n \<Longrightarrow> s \<le> 3 \<Longrightarrow> fits u64 (n * 10 ^ (3 - s)) \<Longrightarrow> extract_duration rs i = Ok (Some (n * 10 ^ (3 - s)))"
proof -
  show d: "extract_decimal ty rs i = Ok (Some (RawDecimal n s))" if "ty \<in> set decimal_types" "fits ty n" for ty
    using decimal_types_hold [OF that] that(2) assms by (intro extract_decimal_show RawDecimal_roundtrip)
  assume n: "fits u64 n" "s \<le> 3" "fits u64 (n * 10 ^ (3 - s))"
  have "(10::int) ^ (3 - s) \<le> 10 ^ 3" by (intro power_increasing) simp_all
  then have "at_scale u64 (RawDecimal n s) 3 = Some (n * 10 ^ (3 - s))" using n by (subst at_scale_iff) (simp del: at_scale.simps)
  then show "extract_duration rs i = Ok (Some (n * 10 ^ (3 - s)))"
    using d [of u64] n(1) by (simp add: extract_duration_def decimal_types_def del: at_scale.simps)
qed

context byte_search
begin

lemma timestamp_roundtrip:
  assumes "wf_date (ts_date v)" and "wf_time (ts_time v)"
  shows "RawTimestamp_parse L (show_date (ts_date v) @ '' '' @ show_time (ts_time v)) = Ok (v, [])"
  using date_roundtrip [OF assms(1), of "'' '' @ show_time (ts_time v)"] time_roundtrip [OF assms(2), of "[]"]
  by (simp add: RawTimestamp_parse_def no_digit_def is_ascii_digit_def)

lemma timetz_roundtrip:
  assumes "wf_time (tz_time v)" and "wf_tz (tz_zone v)"
  shows "RawTimeTz_parse L (show_time (tz_time v) @ show_tz (tz_zone v)) = Ok (v, [])"
proof -
  have "no_digit (show_tz (tz_zone v))" by (simp add: show_tz_def no_digit_def is_ascii_digit_def)
  then show ?thesis using time_roundtrip [OF assms(1)] tz_roundtrip [OF assms(2), of "[]"] by (simp add: RawTimeTz_parse_def no_digit_def)
qed

end

lemma delivered_cell:
  assumes "byte_search L" and "cu_replies cu = Data rs" and "raw_value rs i = Ok (cell_value c)"
  shows "delivered L cu i c"
proof (cases c)
  case Null
  then have v: "raw_value rs i = Ok None" using assms(3) by simp
  have "g i cu = Ok None" if "(T, ty, g) \<in> set int_getters" for T ty g
    using int_getters_extract [OF that] v by (simp add: cursor_get_Data [OF assms(2)] extract_int_def extract_null)
  then show ?thesis unfolding Null
    using v by (auto simp: get_str_raw [OF assms(2) v] get_bool_def cursor_get_Data [OF assms(2)] extract_bool_def extract_duration_def
        extract_decimal_def RawDate_extract_def RawTime_extract_def RawTimestamp_extract_def RawTimeTz_extract_def RawTimestampTz_extract_def extract_null)
next
  case (Raw t)
  then have v: "raw_value rs i = Ok (Some t)" using assms(3) by simp
  have "extract_bool rs i = Ok (Some b)" if "t = (if b then ''true'' else ''false'')" for b
    using v that by (intro extract_bool_text) simp
  moreover have "if fits ty n then g i cu = Ok (Some n) else \<exists>e. g i cu = Err (Conversion T (MsgParseInt e))"
    if "t = show_int n" "(T, ty, g) \<in> set int_getters" for n T ty g
    using extract_int_show [of rs i n ty T] int_getters_extract [OF that(2)] v that(1) by (simp add: cursor_get_Data [OF assms(2)])
  moreover have "extract_decimal ty rs i = Ok (Some (RawDecimal n s))" if "t = RawDecimal_show n s" "s < 255" "ty \<in> set decimal_types" "fits ty n" for n s ty
    using v that by (intro extract_decimal_text) simp_all
  moreover have "extract_duration rs i = Ok (Some (n * 10 ^ (3 - s)))"
    if "t = RawDecimal_show n s" "s < 255" "fits u64 n" "s \<le> 3" "fits u64 (n * 10 ^ (3 - s))" for n s
    using v that by (intro extract_decimal_text) simp_all
  moreover have "RawDate_extract L rs i = Ok (Some d)" if "t = show_date d" "wf_date d" for d
    using v that byte_search.date_roundtrip [OF assms(1) that(2), of "[]"] by (auto simp: RawDate_extract_def no_digit_def intro!: whole_field)
  moreover have "RawTime_extract L rs i = Ok (Some d)" if "t = show_time d" "wf_time d" for d
    using v that byte_search.time_roundtrip [OF assms(1) that(2), of "[]"] by (auto simp: RawTime_extract_def no_digit_def intro!: whole_field)
  moreover have "RawTimestamp_extract L rs i = Ok (Some d)"
    if "t = show_date (ts_date d) @ '' '' @ show_time (ts_time d)" "wf_date (ts_date d)" "wf_time (ts_time d)" for d
    using v that byte_search.timestamp_roundtrip [OF assms(1) that(2,3)] by (auto simp: RawTimestamp_extract_def intro!: whole_field)
  moreover have "RawTimeTz_extract L rs i = Ok (Some d)"
    if "t = show_time (tz_time d) @ show_tz (tz_zone d)" "wf_time (tz_time d)" "wf_tz (tz_zone d)" for d
    using v that byte_search.timetz_roundtrip [OF assms(1) that(2,3)] by (auto simp: RawTimeTz_extract_def intro!: whole_field)
  moreover have "RawTimestampTz_extract L rs i = Ok (Some d)"
    if "t = show_timestamptz d" "wf_date (tsz_date d)" "wf_time (tsz_time d)" "wf_tz (tsz_zone d)" for d
    using v that timestamptz_roundtrip [OF assms(1) that(2-4), of "[]"] by (auto simp: RawTimestampTz_extract_def no_digit_def intro!: whole_field)
  ultimately show ?thesis
    unfolding Raw delivered.simps get_bool_def cursor_get_Data [OF assms(2)] by blast
next
  case (Quoted t)
  then show ?thesis by (simp add: get_str_raw [OF assms(2,3)])
qed

lemma delivered_int:
  assumes "(T, ty, g) \<in> set int_getters"
  shows "delivered L cu i (Raw (show_int n)) \<Longrightarrow> if fits ty n then g i cu = Ok (Some n) else \<exists>e. g i cu = Err (Conversion T (MsgParseInt e))"
    and "delivered L cu i Null \<Longrightarrow> g i cu = Ok None"
  using assms by (fastforce simp del: fits.simps)+

section \<open>Properties\<close>

text \<open>C9. Values reach the caller: when the server renders a row, \<open>next_row\<close> returns true and the typed getters give back the
  values that were rendered: NULL as none, text as it was, truth values, integers of every width, decimals with their
  scale, durations, dates, times and timestamps with time zone. An integer that does not fit the requested type is refused with a conversion
  error, never truncated.\<close>

theorem typed_getters_exact:
  assumes "byte_search (env_L E)" and "0 < env_F E" and "cu_replies cu = Data rs" and "res_next_row rs < res_total_rows rs"
    and "wf_buf (rs_buf (res_row_set rs))" and "\<not> rs_noslice (res_row_set rs)"
    and "rs_ncols (res_row_set rs) = length cells" and "length (rs_fields (res_row_set rs)) = length cells"
    and "peek (rs_buf (res_row_set rs)) = row_text cells @ rest" and "\<forall>c\<in>set cells. cell_ok c"
  shows "\<exists>cu'. next_row E cu = (Ok True, cu') \<and> (\<forall>i<length cells. delivered (env_L E) cu' i (cells ! i))"
proof -
  obtain f where f: "env_F E = Suc f" using assms(2) by (cases "env_F E") auto
  obtain rs' where r: "row_loop E (Suc f) cu = (Ok True, cu\<lparr>cu_replies := Data rs'\<rparr>)"
      "\<And>i. i < length cells \<Longrightarrow> raw_value rs' i = Ok (cell_value (cells ! i))"
    by (rule row_loop_cells [OF assms(1,3-10)]) (rule that, assumption+)
  then show ?thesis using delivered_cell [OF assms(1) _ r(2), of "cu\<lparr>cu_replies := Data rs'\<rparr>"] next_row_Data [OF assms(2,3)] f by simp
qed

definition typed_cells :: "cell list" where
  "typed_cells = [Raw (show_int (- 42)), Raw (show_int 3000000000), Null, Quoted ''a b'']"

definition typed_result :: ResultSet where
  "typed_result = example_result\<lparr>res_row_set := RowSet_new (ReplyBuf_new (row_text typed_cells)) 4\<rparr>"

theorem typed_getters_exact_witness:
  "\<exists>cu'. next_row (quiet_env 50) (example_cursor (Data typed_result)) = (Ok True, cu') \<and> get_i32 0 cu' = Ok (Some (- 42))
     \<and> (\<exists>e. get_i32 1 cu' = Err (Conversion ''i32'' (MsgParseInt e))) \<and> get_i32 2 cu' = Ok None \<and> get_str 3 cu' = Ok (Some ''a b'')"
proof -
  have n: "r \<noteq> [] \<and> CHR 0x09 \<notin> set r \<and> hd r \<noteq> CHR '']'' \<and> hd r \<noteq> CHR 0x22 \<and> r \<noteq> ''NULL''" if "r = show_int i" for r i
  proof -
    have d: "c = CHR ''-'' \<or> is_ascii_digit c" if "c \<in> set r" for c
      using that \<open>r = show_int i\<close> show_nat_digits by (auto simp: show_int_def split: if_splits)
    have "r \<noteq> []" using that by (simp add: show_int_def)
    then have "hd r \<in> set r" by simp
    then show ?thesis using \<open>r \<noteq> []\<close> d [of "hd r"] d [of "CHR 0x09"] by (auto simp: is_ascii_digit_def)
  qed
  have len: "length (row_text typed_cells) \<le> usize_max"
    by (simp add: typed_cells_def row_text_def sep_text_def show_int_def show_nat.simps escape_def escape_byte_def)
  have L: "env_L (quiet_env 50) = ref_libs" by (simp add: quiet_env_def)
  have "\<exists>cu'. next_row (quiet_env 50) (example_cursor (Data typed_result)) = (Ok True, cu')
      \<and> (\<forall>i<length typed_cells. delivered ref_libs cu' i (typed_cells ! i))"
    by (rule typed_getters_exact [where E = "quiet_env 50" and rs = typed_result and cells = typed_cells and rest = "[]", unfolded L, OF ref_libs.byte_search_axioms])
      (use n len in \<open>auto simp: quiet_env_def typed_result_def example_result_def typed_cells_def RowSet_new_def ReplyBuf_new_def wf_buf_def peek_def\<close>)
  then obtain cu' where cu': "next_row (quiet_env 50) (example_cursor (Data typed_result)) = (Ok True, cu')"
      "\<And>i. i < 4 \<Longrightarrow> delivered ref_libs cu' i (typed_cells ! i)" by (auto simp: typed_cells_def)
  have t: "typed_cells ! 0 = Raw (show_int (- 42))" "typed_cells ! 1 = Raw (show_int 3000000000)" "typed_cells ! 2 = Null" "typed_cells ! 3 = Quoted ''a b''"
    by (simp_all add: typed_cells_def)
  have g: "(''i32'', i32, get_i32) \<in> set int_getters" by (simp add: int_getters_def)
  have "get_i32 0 cu' = Ok (Some (- 42))" "\<exists>e. get_i32 1 cu' = Err (Conversion ''i32'' (MsgParseInt e))" "get_i32 2 cu' = Ok None"
    "get_str 3 cu' = Ok (Some ''a b'')"
    using delivered_int(1) [OF g cu'(2) [of 0, unfolded t]] delivered_int(1) [OF g cu'(2) [of 1, unfolded t]]
      delivered_int(2) [OF g cu'(2) [of 2, unfolded t]] cu'(2) [of 3, unfolded t] by (simp_all add: utf8_step_def)
  with cu'(1) show ?thesis by blast
qed

end
