(* ===== verification/Query.thy ===== *)
theory Query
  imports Exchange From_Monet
begin

text \<open>
  A query from end to end: the statement goes out, the server answers with a result set, and the caller reads its rows. The
  components are composed: the lock and the watchdog, the delayed commands, the framing in both directions, the search for
  file requests and errors, the reply parser, the row set and the typed getters.
\<close>

section \<open>Reading all rows\<close>

text \<open>What a caller sees who calls \<open>next_row\<close> until it returns false and reads the columns of every row.\<close>

fun delivers :: "'t cenv \<Rightarrow> cell list list \<Rightarrow> 't Cursor \<Rightarrow> bool" where
  "delivers E [] cu \<longleftrightarrow> (\<exists>cu'. next_row E cu = (Ok False, cu'))"
| "delivers E (cells # rows) cu \<longleftrightarrow> (\<exists>cu'. next_row E cu = (Ok True, cu')
     \<and> (\<forall>i<length cells. delivered (env_L E) cu' i (cells ! i)) \<and> delivers E rows cu')"

definition rows_text :: "cell list list \<Rightarrow> bytes" where
  "rows_text rows = concat (map row_text rows)"

text \<open>A result set that has the given rows in its buffer, and more rows to fetch.\<close>

definition rows_left :: "nat \<Rightarrow> cell list list \<Rightarrow> nat \<Rightarrow> ResultSet \<Rightarrow> bool" where
  "rows_left n rows ahead rs \<longleftrightarrow> wf_buf (rs_buf (res_row_set rs)) \<and> \<not> rs_noslice (res_row_set rs) \<and> rs_ncols (res_row_set rs) = n
     \<and> length (rs_fields (res_row_set rs)) = n \<and> length (res_columns rs) = n \<and> peek (rs_buf (res_row_set rs)) = rows_text rows
     \<and> res_next_row rs + length rows + ahead = res_total_rows rs \<and> (\<forall>cells\<in>set rows. length cells = n \<and> (\<forall>c\<in>set cells. cell_ok c))"

lemma row_loop_left:
  assumes L: "byte_search (env_L E)" and cu: "cu_replies cu = Data rs" and left: "rows_left n (cells # rows) ahead rs"
  obtains rs' where "row_loop E (Suc f) cu = (Ok True, cu\<lparr>cu_replies := Data rs'\<rparr>)" "rows_left n rows ahead rs'"
    "\<And>i. i < n \<Longrightarrow> raw_value rs' i = Ok (cell_value (cells ! i))" "res_id rs' = res_id rs" "res_total_rows rs' = res_total_rows rs"
proof -
  have l: "res_next_row rs < res_total_rows rs" "wf_buf (rs_buf (res_row_set rs))" "\<not> rs_noslice (res_row_set rs)"
      "rs_ncols (res_row_set rs) = length cells" "length (rs_fields (res_row_set rs)) = length cells"
      "peek (rs_buf (res_row_set rs)) = row_text cells @ rows_text rows" "\<forall>c\<in>set cells. cell_ok c" "length cells = n"
    using left by (auto simp: rows_left_def rows_text_def)
  obtain rs' b fs where r: "row_loop E (Suc f) cu = (Ok True, cu\<lparr>cu_replies := Data rs'\<rparr>)"
      "rs' = rs\<lparr>res_row_set := (res_row_set rs)\<lparr>rs_buf := b, rs_fields := fs\<rparr>, res_next_row := res_next_row rs + 1\<rparr>"
      "wf_buf b" "peek b = rows_text rows" "length fs = length cells"
      "\<And>i. i < length cells \<Longrightarrow> raw_value rs' i = Ok (cell_value (cells ! i))"
    by (rule row_loop_cells [OF L cu l(1-7)]) (rule that, assumption+)
  moreover have "rows_left n rows ahead rs'" using left r(2-5) by (auto simp: rows_left_def)
  ultimately show thesis using that l(8) by simp
qed

text \<open>The rows of the buffer have been read: the result set ends, or the next window is fetched.\<close>

definition drained :: "ResultSet \<Rightarrow> ResultSet" where
  "drained rs = rs\<lparr>res_row_set := (res_row_set rs)\<lparr>rs_fields := map (\<lambda>_. None) (rs_fields (res_row_set rs))\<rparr>\<rparr>"

lemma drained_left: "rows_left n rows ahead rs \<Longrightarrow> rows_left n rows ahead (drained rs)" "res_id (drained rs) = res_id rs"
  "res_total_rows (drained rs) = res_total_rows rs"
  by (simp_all add: rows_left_def drained_def)

lemma row_loop_drained:
  assumes "cu_replies cu = Data rs" and "rows_left n [] ahead rs"
  shows "row_loop E (Suc f) cu = (if ahead = 0 then (Ok False, cu\<lparr>cu_replies := Data (drained rs)\<rparr>)
     else bindS (fetch_more_rows E (cu\<lparr>cu_replies := Data (drained rs)\<rparr>)) (\<lambda>_ cu. row_loop E f cu))"
proof -
  have "advance (env_L E) (res_row_set rs) = (Ok False, res_row_set (drained rs))"
    using assms(2) by (simp add: rows_left_def rows_text_def advance_def do_advance_def drained_def)
  then show ?thesis using assms by (simp add: rows_left_def drained_def)
qed

lemma finish_drained:
  assumes "rows_left n [] ahead rs"
  shows "\<exists>b. RowSet_finish L (res_row_set rs) = Ok b"
  using assms by (auto simp: rows_left_def rows_text_def RowSet_finish_def find_line_def min_option_def consume_def wf_buf_def)

section \<open>Ordinary responses\<close>

text \<open>A response that reports no error and asks for no file.\<close>

definition ordinary :: "bytes \<Rightarrow> bool" where
  "ordinary m \<longleftrightarrow> CHR 0x01 \<notin> set m \<and> (\<forall>line\<in>set (split_on (CHR 0x0a) m). \<not> starts_with line ''!'')"

context byte_search
begin

lemma ordinary_no_request: "ordinary m \<Longrightarrow> take_file_request L m = (Ok None, m)"
  by (simp add: take_file_request_def memmem_last FILE_TRANSFER_def rfind_sub_absent ordinary_def)

lemma ordinary_no_error: "ordinary m \<Longrightarrow> server_error L m = None"
proof -
  assume "ordinary m"
  then have "List.map_filter (\<lambda>line. strip_prefix line ''!'') (split_on (CHR 0x0a) m) = []"
    by (intro map_filter_none) (auto simp: ordinary_def strip_prefix_def)
  then show ?thesis by (simp add: server_error_def)
qed

end

section \<open>Starting an operation\<close>

text \<open>A connection that can run an operation: the commands whose responses are still to come, and those it will send first.\<close>

definition ready :: "('t \<Rightarrow> bool) \<Rightarrow> delayed list \<Rightarrow> delayed list \<Rightarrow> 't ServerSock \<Rightarrow> 't Conn \<Rightarrow> bool" where
  "ready tok ss cs s c \<longleftrightarrow> cn_sock c = Some s \<and> sock_ok tok s \<and> \<not> cn_poisoned c \<and> \<not> cn_closing c \<and> cn_operation_state c = OPERATION_IDLE
     \<and> (\<exists>ds. dc_waits (cn_delayed c) ss ds
         \<and> cs = ds @ map close_command (cn_pending_closes c) @ map release_command (cn_pending_deallocates c))"

lemma ready_begins:
  assumes "ready tok ss cs s c" and "t_operation ts = None"
  obtains c1 s1 where "begin_operation E ts c = (Ok (s1, None), c1)" "cn_state c1 = cn_state c" "dc_waits (cn_delayed c1) ss cs" "cn_pending_closes c1 = []"
    "cn_pending_deallocates c1 = []" "\<not> cn_poisoned c1" "\<not> cn_closing c1" "cn_operation_state c1 = OPERATION_ACTIVE"
    "cn_max_response_size c1 = cn_max_response_size c" "talking tok s1" "\<And>tpend. sock_pend tpend s1 = sock_pend tpend s" "\<And>tpat. sock_patience tpat s1 = sock_patience tpat s" "inner s1 = inner s"
proof -
  from assms(1) obtain ds where ds: "dc_waits (cn_delayed c) ss ds" "cs = ds @ map close_command (cn_pending_closes c) @ map release_command (cn_pending_deallocates c)"
    by (auto simp: ready_def)
  obtain d1 where d1: "add_cleanups ''close'' (cn_pending_closes c) (cn_delayed c) = Ok d1"
    "dc_waits d1 ss (ds @ map close_command (cn_pending_closes c))" using cleanup_commands(1) [OF ds(1)] by blast
  from cleanup_commands(2) [OF d1(2)] obtain d2 where d2: "add_cleanups ''release'' (cn_pending_deallocates c) d1 = Ok d2" "dc_waits d2 ss cs"
    using ds(2) by (metis append.assoc)
  let ?a = "\<lparr>a_read = t_read (Timeouts_bounded ts), a_write = t_write (Timeouts_bounded ts), a_deadline = None\<rparr>"
  let ?s = "s\<lparr>control := (control s)\<lparr>sc_timeouts := ?a\<rparr>\<rparr>"
  have b: "Timeouts_bounded (Timeouts_bounded ts) = Timeouts_bounded ts" "t_operation (Timeouts_bounded ts) = None"
    using assms(2) by (auto simp: Timeouts_bounded_def Let_def option.map_comp comp_def)
  have "begin_operation E ts c = (Ok (?s, None), c\<lparr>cn_sock := None, cn_operation_state := OPERATION_ACTIVE, cn_held := True,
      cn_watchdog := cn_watchdog c, cn_pending_closes := [], cn_pending_deallocates := [], cn_delayed := d2\<rparr>)"
    using assms(1) d1(1) d2(1) b by (simp add: begin_operation_def ready_def ServerSock_start_operation_def SocketControl_start_operation_def
        ActiveTimeouts_new_def arm_def Let_def)
  moreover have "talking tok ?s" "sock_pend tpend ?s = sock_pend tpend s" "sock_patience tpat ?s = sock_patience tpat s" "inner ?s = inner s" for tpend tpat
    using assms(1) bounded_le [of ts] by (auto simp: ready_def talking_def calm_ok_def sock_calm_def sock_defs split: option.splits)
  ultimately show thesis using that d2(2) assms(1) by (auto simp: ready_def)
qed

lemma finish_ok:
  assumes "cn_operation_state c \<noteq> OPERATION_CANCELLED" and "\<not> cn_closing c"
  shows "finish_operation None (Ok s) c = (Ok (), c\<lparr>cn_watchdog := cn_watchdog c, cn_operation_state := OPERATION_IDLE, cn_held := False, cn_sock := Some s\<rparr>)"
  using assms by (simp add: finish_operation_def disarm_def)

text \<open>An operation on a ready connection that does its work leaves the connection ready.\<close>

lemma ready_runs:
  assumes c: "ready tok ss cs s c" and ts: "t_operation ts = None" and others: "\<forall>c. env_others E c = c"
    and f: "\<And>s1 d. talking tok s1 \<Longrightarrow> dc_waits d ss cs \<Longrightarrow> inner s1 = inner s \<Longrightarrow> sock_pend tpend s1 = sock_pend tpend s
      \<Longrightarrow> sock_patience tpat s1 = sock_patience tpat s
      \<Longrightarrow> \<exists>s' d'. f r (cn_state c) d s1 = (Ok s', st', d', r') \<and> dc_holds d' [] \<and> talking tok s' \<and> Q s'"
  obtains s' c' where "run_locked_with_timeouts E ts f r c = (Ok (), r', c')" "ready tok [] [] s' c'" "Q s'"
    "cn_max_response_size c' = cn_max_response_size c"
proof -
  obtain c1 s1 where b: "begin_operation E ts c = (Ok (s1, None), c1)" "cn_state c1 = cn_state c" "dc_waits (cn_delayed c1) ss cs"
    "cn_pending_closes c1 = []" "cn_pending_deallocates c1 = []" "\<not> cn_poisoned c1" "\<not> cn_closing c1" "cn_operation_state c1 = OPERATION_ACTIVE"
    "cn_max_response_size c1 = cn_max_response_size c"
    "talking tok s1" "\<And>tpend. sock_pend tpend s1 = sock_pend tpend s" "\<And>tpat. sock_patience tpat s1 = sock_patience tpat s" "inner s1 = inner s"
    by (rule ready_begins [OF c ts]) (rule that, assumption+)
  from f [OF b(10,3,13,11,12)] obtain s' d' where q: "f r (cn_state c1) (cn_delayed c1) s1 = (Ok s', st', d', r')" "dc_holds d' []" "talking tok s'" "Q s'"
    unfolding b(2) by blast
  let ?c = "c1\<lparr>cn_state := st', cn_delayed := d'\<rparr>"
  let ?c' = "?c\<lparr>cn_watchdog := cn_watchdog ?c, cn_operation_state := OPERATION_IDLE, cn_held := False, cn_sock := Some s'\<rparr>"
  have "finish_operation None (Ok s') (env_others E ?c) = (Ok (), ?c')" using b(7,8) others by (subst finish_ok) simp_all
  then have "run_locked_with_timeouts E ts f r c = (Ok (), r', ?c')" using run_locked_cases [where f = f, OF b(1) q(1)] by simp
  moreover have "ready tok [] [] s' ?c'" using q(2,3) b(4-7) by (auto simp: ready_def talking_def calm_ok_def)
  ultimately show thesis using that q(4) b(9) by simp
qed

section \<open>Windows of rows\<close>

text \<open>How a server answers a request for rows, and its answers to the requests of a cursor that reads the given rows.\<close>

definition window_text :: "nat \<Rightarrow> nat \<Rightarrow> nat \<Rightarrow> cell list list \<Rightarrow> bytes" where
  "window_text rid ncols start rows = ''&6'' @ head_line [rid, ncols, length rows, start] @ CHR 0x0a # rows_text rows"

function windows :: "nat option \<Rightarrow> nat \<Rightarrow> nat \<Rightarrow> nat \<Rightarrow> nat \<Rightarrow> cell list list \<Rightarrow> bytes list" where
  "windows prefetch width rid ncols start rows = (if rows = [] \<or> width = 0 then []
     else let n = next_fetch_size width prefetch (length rows) in
       window_text rid ncols start (take n rows) # windows prefetch (next_window_size width prefetch) rid ncols (start + n) (drop n rows))"
  by pat_completeness auto
termination
  by (relation "measure (\<lambda>(_, _, _, _, _, rows). length rows)") (auto simp: fetch_positive)

declare windows.simps [simp del]

lemma frame_short: "length m \<le> 8190 \<Longrightarrow> length (frame m) = length m + 2"
  by (simp add: frame.simps [of m] head_def)

definition export_command :: "nat \<Rightarrow> nat \<Rightarrow> nat \<Rightarrow> bytes" where
  "export_command rid start n = ''Xexport '' @ show_nat rid @ '' '' @ show_nat start @ '' '' @ show_nat n"

lemma export_command_short:
  assumes "\<forall>x\<in>{rid, start, n}. x \<le> 18446744073709551615"
  shows "length (frame (export_command rid start n)) \<le> 80"
proof -
  have d: "length (show_nat x) \<le> 20" if "x \<in> {rid, start, n}" for x
    using assms that by (intro show_nat_length) (auto intro: le_less_trans)
  have "length (export_command rid start n) \<le> 70" using d [of rid] d [of start] d [of n] by (simp add: export_command_def)
  then show ?thesis by (simp add: frame_short)
qed

section \<open>A query and its result\<close>

text \<open>Every way to execute a statement starts with the command; a cursor that is done gives its buffer to it.\<close>

lemma exhaust_idle:
  assumes "cu_replies cu = Exhausted vec" and "0 < env_F E"
  shows "bindS (exhaust E (env_F E) cu) (\<lambda>_ cu. take_replies cu) = (Ok vec, cu\<lparr>cu_replies := Exhausted []\<rparr>)"
proof -
  obtain f where "env_F E = Suc f" using assms(2) by (cases "env_F E") auto
  then show ?thesis using assms(1) by (simp add: take_replies_def take_buffer_def exhaust.simps(2))
qed

lemma install_result:
  assumes L: "byte_search (env_L E)" and "ordinary m" and m: "m = result_text rid (length rows + k) (length rows) cols @ rows_text rows"
    and cols: "cols \<noteq> []" "\<forall>c\<in>set cols. spec_ok c"
    and bounds: "rid \<le> 18446744073709551615" "length rows + k \<le> 18446744073709551615" "length m \<le> usize_max"
    and cells: "\<forall>cells\<in>set rows. length cells = length cols \<and> (\<forall>c\<in>set cells. cell_ok c)"
  shows "\<exists>rs. install_response E m cu = (Ok (), cu\<lparr>cu_replies := Data rs\<rparr>) \<and> res_columns rs = map spec_column cols
    \<and> res_id rs = rid \<and> res_total_rows rs = length rows + k \<and> rows_left (length cols) rows k rs"
proof -
  have "\<not> starts_with (rows_text rows) ''=''" by (cases rows) (simp_all add: rows_text_def row_text_def)
  from byte_search.result_parsed [OF L cols bounds(1,2) le_add1 _ this] bounds(3) m obtain rs b where rs: "ReplyParser_new (env_L E) m = Ok (Data rs)"
      "res_total_rows rs = length rows + k" "res_next_row rs = 0" "res_columns rs = map spec_column cols" "res_id rs = rid"
      "res_row_set rs = RowSet_new b (length cols)" "wf_buf b" "peek b = rows_text rows" by auto
  have "install_response E m cu = (Ok (), cu\<lparr>cu_replies := Data rs\<rparr>)"
    using rs(1) byte_search.ordinary_no_error [OF L assms(2)] by (simp add: install_response_def detect_errors_def)
  moreover have "rows_left (length cols) rows k rs" using rs cells by (simp add: rows_left_def RowSet_new_def)
  ultimately show ?thesis using rs(2,4,5) by blast
qed

context conversation_transport
begin

text \<open>What the loop over the messages of the server makes of them: the response, the state of the caller's producer, what it wrote and what it
  left unread.\<close>

definition told :: "bytes \<Rightarrow> bytes \<Rightarrow> 't ServerSock \<Rightarrow> 't ServerSock \<Rightarrow> bool" where
  "told data rest s s' \<longleftrightarrow> talking tok s' \<and> sock_pend tpend s' = rest \<and> sock_patience tpat s' \<le> sock_patience tpat s
     \<and> out (inner s') = out (inner s) @ data"

definition answers :: "'t cenv \<Rightarrow> texts \<Rightarrow> nat \<Rightarrow> nat \<Rightarrow> ('t, 'p) producer \<Rightarrow> 'p \<Rightarrow> bytes \<Rightarrow> bytes \<Rightarrow> 'p \<Rightarrow> bytes \<Rightarrow> bytes \<Rightarrow> bool" where
  "answers E X n limit upload p inp m p' data rest \<longleftrightarrow> (\<forall>s st e. talking tok s \<longrightarrow> sock_pend tpend s = inp \<longrightarrow> length inp + sock_patience tpat s < env_F E \<longrightarrow>
     (\<exists>s'. upload_loop E X n limit upload (env_F E) s st
          \<lparr>uv_refused = None, uv_producer_error = None, uv_delayed_error = e, uv_response = [], uv_producer = p\<rparr>
        = (Ok s', note_autocommit (env_L E) m st, \<lparr>uv_refused = None, uv_producer_error = None, uv_delayed_error = e, uv_response = m, uv_producer = p'\<rparr>)
      \<and> told data rest s s'))"

lemma plain_answer:
  assumes E: "env_T E = T" and pol: "\<forall>k. 0 < env_pol E k" and "length m \<le> limit" and m: "take_file_request (env_L E) m = (Ok None, m)"
  shows "answers E X n limit upload p (frame m @ rest) m p [] rest"
  unfolding answers_def
proof (intro allI impI)
  fix s :: "'t ServerSock" and st e
  assume s: "talking tok s" "sock_pend tpend s = frame m @ rest" "length (frame m @ rest) + sock_patience tpat s < env_F E"
  from recv_ok [OF s(1,2) _ pol assms(3)] s(2,3) obtain s' where s': "to_limited (ServerSock_read T) (env_F E) (env_pol E) s [] limit = (Ok s', m)" "heard rest s s'"
    by auto
  obtain f where "env_F E = Suc f" using s(3) by (cases "env_F E") auto
  then show "\<exists>s'. upload_loop E X n limit upload (env_F E) s st
        \<lparr>uv_refused = None, uv_producer_error = None, uv_delayed_error = e, uv_response = [], uv_producer = p\<rparr>
      = (Ok s', note_autocommit (env_L E) m st, \<lparr>uv_refused = None, uv_producer_error = None, uv_delayed_error = e, uv_response = m, uv_producer = p\<rparr>)
    \<and> told [] rest s s'"
    using s' E m by (auto simp: heard_def told_def)
qed

lemma statement_operation:
  assumes E: "env_T E = T" and pol: "\<forall>k. 0 < env_pol E k" and s: "talking tok s" and d: "dc_waits d ss cs"
    and pend: "sock_pend tpend s = concat (map frame ms) @ inp" and ms: "length ms = length (ss @ cs)"
    and fuel: "length (sock_pend tpend s) + sock_patience tpat s < env_F E"
      "length (concat (map (\<lambda>c. frame (terminated (fst (snd c)))) cs) @ frame (concat command)) < env_F E"
    and limit: "\<forall>m\<in>set ms. length m \<le> limit" and loop: "answers E X n limit upload p inp m p' data rest"
    and v: "v = \<lparr>uv_refused = None, uv_producer_error = None, uv_delayed_error = None, uv_response = vec, uv_producer = p\<rparr>"
  obtains s' d' where "upload_operation E X n limit upload command v st d s = (Ok s', note_autocommit (env_L E) m st, d',
      v\<lparr>uv_delayed_error := first_failure (env_L E) (map expected (ss @ cs)) ms, uv_response := m, uv_producer := p'\<rparr>)"
    "dc_holds d' []" "told (concat (map (\<lambda>c. frame (terminated (fst (snd c)))) cs) @ frame (concat command) @ data) rest s s'"
proof -
  obtain s1 d1 s2 d2 where x: "send_delayed_plus E command d s = (Ok s1, d1)"
    "\<And>b. recv_delayed E limit d1 s1 b = (Ok (s2, first_failure (env_L E) (map expected (ss @ cs)) ms), d2, [])" "dc_holds d2 []"
    "talking tok s2" "control s2 = control s" "sock_pend tpend s2 = inp" "sock_patience tpat s2 \<le> sock_patience tpat s"
    "out (inner s2) = out (inner s) @ concat (map (\<lambda>c. frame (terminated (fst (snd c)))) cs) @ frame (concat command)"
    by (rule delayed_exchanged [OF E pol s d pend ms fuel limit]) (rule that, assumption+)
  have "length inp + sock_patience tpat s2 < env_F E" using fuel(1) x(6,7) pend by simp
  with loop x(4,6) obtain s3 where s3: "upload_loop E X n limit upload (env_F E) s2 st
        (v\<lparr>uv_delayed_error := first_failure (env_L E) (map expected (ss @ cs)) ms, uv_response := []\<rparr>)
      = (Ok s3, note_autocommit (env_L E) m st,
          v\<lparr>uv_delayed_error := first_failure (env_L E) (map expected (ss @ cs)) ms, uv_response := m, uv_producer := p'\<rparr>)"
    "told data rest s2 s3" unfolding answers_def v by fastforce
  then have "upload_operation E X n limit upload command v st d s = (Ok s3, note_autocommit (env_L E) m st, d2,
      v\<lparr>uv_delayed_error := first_failure (env_L E) (map expected (ss @ cs)) ms, uv_response := m, uv_producer := p'\<rparr>)"
    using x(1,2) by (simp add: upload_operation_def)
  moreover have "told (concat (map (\<lambda>c. frame (terminated (fst (snd c)))) cs) @ frame (concat command) @ data) rest s s3"
    using s3(2) x(7,8) by (simp add: told_def)
  ultimately show thesis using that x(3) by blast
qed

lemma statement_exchange:
  assumes E: "env_T E = T" and pol: "\<forall>k. 0 < env_pol E k" and others: "\<forall>c. env_others E c = c"
    and c: "ready tok ss cs s (cu_conn cu)" and ts: "t_operation (cu_timeouts cu) = None"
    and pend: "sock_pend tpend s = concat (map frame ms) @ inp" and ms: "length ms = length (ss @ cs)"
    and failure: "first_failure (env_L E) (map expected (ss @ cs)) ms = None"
    and fuel: "length (sock_pend tpend s) + sock_patience tpat s < env_F E"
      "length (concat (map (\<lambda>c. frame (terminated (fst (snd c)))) cs) @ frame (concat command)) < env_F E"
    and limit: "\<forall>m\<in>set ms. length m \<le> cn_max_response_size (cu_conn cu)"
    and loop: "answers E X n (cn_max_response_size (cu_conn cu)) upload p inp m p' data rest"
  obtains s' c' where "command_with_uploads E X command response n upload p cu = (Ok (), m, p', cu\<lparr>cu_conn := c'\<rparr>)" "ready tok [] [] s' c'"
    "sock_pend tpend s' = rest" "sock_patience tpat s' \<le> sock_patience tpat s" "cn_max_response_size c' = cn_max_response_size (cu_conn cu)"
    "out (inner s') = out (inner s) @ concat (map (\<lambda>c. frame (terminated (fst (snd c)))) cs) @ frame (concat command) @ data"
proof -
  let ?v = "\<lparr>uv_refused = None, uv_producer_error = None, uv_delayed_error = None, uv_response = response, uv_producer = p\<rparr>"
  let ?f = "upload_operation E X n (cn_max_response_size (cu_conn cu)) upload command"
  let ?v' = "?v\<lparr>uv_delayed_error := None, uv_response := m, uv_producer := p'\<rparr>"
  let ?data = "concat (map (\<lambda>c. frame (terminated (fst (snd c)))) cs) @ frame (concat command) @ data"
  obtain s' c' where "run_locked_with_timeouts E (cu_timeouts cu) ?f ?v (cu_conn cu) = (Ok (), ?v', c')" "ready tok [] [] s' c'"
    "sock_pend tpend s' = rest \<and> sock_patience tpat s' \<le> sock_patience tpat s \<and> out (inner s') = out (inner s) @ ?data"
    "cn_max_response_size c' = cn_max_response_size (cu_conn cu)"
  proof (rule ready_runs [OF c ts others, where tpend = tpend and tpat = tpat])
    fix s1 d
    assume s1: "talking tok s1" "dc_waits d ss cs" "inner s1 = inner s" "sock_pend tpend s1 = sock_pend tpend s" "sock_patience tpat s1 = sock_patience tpat s"
    have p: "sock_pend tpend s1 = concat (map frame ms) @ inp" "length (sock_pend tpend s1) + sock_patience tpat s1 < env_F E"
      using pend fuel(1) s1(4,5) by simp_all
    show "\<exists>s' d'. ?f ?v (cn_state (cu_conn cu)) d s1 = (Ok s', note_autocommit (env_L E) m (cn_state (cu_conn cu)), d', ?v')
      \<and> dc_holds d' [] \<and> talking tok s' \<and> (sock_pend tpend s' = rest \<and> sock_patience tpat s' \<le> sock_patience tpat s \<and> out (inner s') = out (inner s) @ ?data)"
      by (rule statement_operation [OF E pol s1(1,2) p(1) ms p(2) fuel(2) limit loop, where v = ?v and st = "cn_state (cu_conn cu)", unfolded failure])
         (use s1(3,5) in \<open>auto simp: told_def\<close>)
  qed (rule that, assumption+)
  then show thesis using that by (auto simp: command_with_uploads_def report_uploads_def)
qed

lemma execute_exchange:
  assumes E: "env_T E = T" and pol: "\<forall>k. 0 < env_pol E k" and others: "\<forall>c. env_others E c = c"
    and c: "ready tok ss cs s (cu_conn cu)" and ts: "t_operation (cu_timeouts cu) = None" and cu: "cu_replies cu = Exhausted vec"
    and pend: "sock_pend tpend s = concat (map frame ms) @ frame m @ rest" and ms: "length ms = length (ss @ cs)"
    and failure: "first_failure (env_L E) (map expected (ss @ cs)) ms = None"
    and fuel: "length (sock_pend tpend s) + sock_patience tpat s < env_F E"
      "length (concat (map (\<lambda>c. frame (terminated (fst (snd c)))) cs) @ frame (''s'' @ stmt @ [CHR 0x0a, CHR '';''])) < env_F E"
    and limit: "\<forall>m'\<in>set (m # ms). length m' \<le> cn_max_response_size (cu_conn cu)" and m: "take_file_request (env_L E) m = (Ok None, m)"
  obtains s' c' where "execute E X stmt cu = install_response E m (cu\<lparr>cu_replies := Exhausted [], cu_conn := c'\<rparr>)" "ready tok [] [] s' c'"
    "sock_pend tpend s' = rest" "sock_patience tpat s' \<le> sock_patience tpat s" "cn_max_response_size c' = cn_max_response_size (cu_conn cu)"
    "out (inner s') = out (inner s) @ concat (map (\<lambda>c. frame (terminated (fst (snd c)))) cs) @ frame (''s'' @ stmt @ [CHR 0x0a, CHR '';''])"
proof -
  let ?cu = "cu\<lparr>cu_replies := Exhausted []\<rparr>" and ?command = "[''s'', stmt, [CHR 0x0a, CHR '';'']]"
  have h: "ready tok ss cs s (cu_conn ?cu)" "t_operation (cu_timeouts ?cu) = None"
    "length (concat (map (\<lambda>c. frame (terminated (fst (snd c)))) cs) @ frame (concat ?command)) < env_F E"
    "\<forall>m\<in>set ms. length m \<le> cn_max_response_size (cu_conn ?cu)" "length m \<le> cn_max_response_size (cu_conn ?cu)" "0 < env_F E"
    using c ts fuel limit by simp_all
  obtain s' c' where q: "command_with_uploads E X ?command vec DEFAULT_UPLOAD_CHUNK_SIZE (no_upload X) () ?cu = (Ok (), m, (), ?cu\<lparr>cu_conn := c'\<rparr>)"
    "ready tok [] [] s' c'" "sock_pend tpend s' = rest" "sock_patience tpat s' \<le> sock_patience tpat s" "cn_max_response_size c' = cn_max_response_size (cu_conn ?cu)"
    "out (inner s') = out (inner s) @ concat (map (\<lambda>c. frame (terminated (fst (snd c)))) cs) @ frame (concat ?command) @ []"
    by (rule statement_exchange [OF E pol others h(1,2) pend ms failure fuel(1) h(3,4) plain_answer [OF E pol h(5) m]]) (rule that, assumption+)
  have "execute E X stmt cu = install_response E m (?cu\<lparr>cu_conn := c'\<rparr>)" using q(1) by (simp add: execute_def exhaust_idle [OF cu h(6)])
  with that q(2-6) show thesis by simp
qed

lemma command_raw_exchange:
  assumes E: "env_T E = T" and pol: "\<forall>k. 0 < env_pol E k" and others: "\<forall>c. env_others E c = c"
    and c: "ready tok [] [] s (cu_conn cu)" and ts: "t_operation (cu_timeouts cu) = None" and pend: "sock_pend tpend s = frame m @ rest"
    and fuel: "length (sock_pend tpend s) + sock_patience tpat s < env_F E" "length (frame (concat command)) < env_F E"
    and limit: "length m \<le> cn_max_response_size (cu_conn cu)"
  obtains s' c' where "command_raw E command vec cu = (Ok (), m, cu\<lparr>cu_conn := c'\<rparr>)" "ready tok [] [] s' c'"
    "sock_pend tpend s' = rest" "sock_patience tpat s' \<le> sock_patience tpat s" "cn_max_response_size c' = cn_max_response_size (cu_conn cu)"
proof -
  let ?f = "command_operation E (cn_max_response_size (cu_conn cu)) command"
  obtain s' c' where "run_locked_with_timeouts E (cu_timeouts cu) ?f (None, vec) (cu_conn cu) = (Ok (), (None, m), c')"
    "ready tok [] [] s' c'" "sock_pend tpend s' = rest \<and> sock_patience tpat s' \<le> sock_patience tpat s"
    "cn_max_response_size c' = cn_max_response_size (cu_conn cu)"
  proof (rule ready_runs [OF c ts others, where tpend = tpend and tpat = tpat])
    fix s1 d
    assume s1: "talking tok s1" "dc_holds d []" "inner s1 = inner s" "sock_pend tpend s1 = sock_pend tpend s" "sock_patience tpat s1 = sock_patience tpat s"
    show "\<exists>s' d'. ?f (None, vec) (cn_state (cu_conn cu)) d s1 = (Ok s', cn_state (cu_conn cu), d', None, m)
      \<and> dc_holds d' [] \<and> talking tok s' \<and> (sock_pend tpend s' = rest \<and> sock_patience tpat s' \<le> sock_patience tpat s)"
      using exchange [OF E pol s1(1,2), of "[]" m rest command "cn_max_response_size (cu_conn cu)" "(None, vec)" "cn_state (cu_conn cu)"] pend fuel limit s1(4,5)
      by auto
  qed (rule that, assumption+)
  then show thesis using that by (auto simp: command_raw_def)
qed

text \<open>The server has the answers ready to every request for the rows that are still to come.\<close>

definition fetchable :: "'t cenv \<Rightarrow> nat \<Rightarrow> cell list list \<Rightarrow> bytes \<Rightarrow> ResultSet \<Rightarrow> 't Cursor \<Rightarrow> bool" where
  "fetchable E n later rest rs cu \<longleftrightarrow> t_operation (cu_timeouts cu) = None \<and> 0 < cu_reply_size cu
     \<and> (\<forall>x\<in>{res_id rs, n, res_total_rows rs}. x \<le> 18446744073709551615)
     \<and> (\<forall>cells\<in>set later. length cells = n \<and> (\<forall>c\<in>set cells. cell_ok c))
     \<and> (let ws = windows (cu_max_prefetch cu) (cu_reply_size cu) (res_id rs) n (res_total_rows rs - length later) later in
          (\<exists>s. ready tok [] [] s (cu_conn cu) \<and> sock_pend tpend s = concat (map frame ws) @ rest
             \<and> length (sock_pend tpend s) + sock_patience tpat s < env_F E)
          \<and> (\<forall>w\<in>set ws. ordinary w \<and> length w \<le> usize_max \<and> length w \<le> cn_max_response_size (cu_conn cu)))"

lemma fetchable_same:
  "fetchable E n later rest rs cu \<Longrightarrow> res_id rs' = res_id rs \<Longrightarrow> res_total_rows rs' = res_total_rows rs
    \<Longrightarrow> fetchable E n later rest rs' (cu\<lparr>cu_replies := p\<rparr>)"
  by (simp add: fetchable_def)

lemma swap_rows_ok:
  assumes "cu_replies cu = Data rs" and "rows_left n [] k rs"
  obtains vec x where "swap_rows L n cu = (Ok vec, cu\<lparr>cu_replies := Data (rs\<lparr>res_row_set := RowSet_new (ReplyBuf_new []) n, res_stashed := Some x\<rparr>)\<rparr>)"
proof (cases "res_stashed rs")
  case None
  with assms(1) that show thesis by (simp add: swap_rows_def)
next
  case (Some x)
  obtain b where "RowSet_finish L (res_row_set rs) = Ok b" using finish_drained [OF assms(2)] by blast
  with assms(1) Some that [of "buf_data b" x] show thesis by (simp add: swap_rows_def)
qed

lemma fetch_window:
  assumes E: "env_T E = T" and pol: "\<forall>k. 0 < env_pol E k" and L: "byte_search (env_L E)" and others: "\<forall>c. env_others E c = c" and F: "80 < env_F E"
    and cu: "cu_replies cu = Data rs" and left: "rows_left n [] (length later) rs" and later: "later \<noteq> []" and f: "fetchable E n later rest rs cu"
  obtains cu' rs' k where "fetch_more_rows E cu = (Ok (), cu')" "cu_replies cu' = Data rs'" "0 < k"
    "rows_left n (take k later) (length (drop k later)) rs'" "fetchable E n (drop k later) rest rs' cu'"
proof -
  let ?size = "next_window_size (cu_reply_size cu) (cu_max_prefetch cu)" and ?start = "res_next_row rs"
  define k where "k = next_fetch_size (cu_reply_size cu) (cu_max_prefetch cu) (length later)"
  define w where "w = window_text (res_id rs) n ?start (take k later)"
  let ?ws = "windows (cu_max_prefetch cu) ?size (res_id rs) n (?start + k) (drop k later)"
  have k: "0 < k" "k \<le> length later" using f later fetch_positive [of "cu_reply_size cu" "length later"] by (auto simp: k_def fetchable_def next_fetch_size_def Let_def)
  have tot: "?start + length later = res_total_rows rs" "length (res_columns rs) = n" using left by (auto simp: rows_left_def)
  then have start: "res_total_rows rs - length later = ?start" by simp
  have ws: "windows (cu_max_prefetch cu) (cu_reply_size cu) (res_id rs) n ?start later = w # ?ws"
    using f later by (subst windows.simps) (simp add: fetchable_def Let_def w_def k_def)
  have b: "\<forall>x\<in>{res_id rs, n, k, ?start}. x \<le> 18446744073709551615" using f tot(1) k(2) by (auto simp: fetchable_def)
  from f obtain s where s: "ready tok [] [] s (cu_conn cu)" "sock_pend tpend s = frame w @ concat (map frame ?ws) @ rest"
      "length (sock_pend tpend s) + sock_patience tpat s < env_F E" "ordinary w" "length w \<le> usize_max" "length w \<le> cn_max_response_size (cu_conn cu)"
    by (auto simp: fetchable_def start ws)
  obtain vec x where sw: "swap_rows (env_L E) n cu = (Ok vec, cu\<lparr>cu_replies := Data (rs\<lparr>res_row_set := RowSet_new (ReplyBuf_new []) n, res_stashed := Some x\<rparr>)\<rparr>)"
    by (rule swap_rows_ok [OF cu left])
  let ?rs = "rs\<lparr>res_row_set := RowSet_new (ReplyBuf_new []) n, res_stashed := Some x\<rparr>"
  let ?cu = "cu\<lparr>cu_replies := Data ?rs\<rparr>"
  have p: "ready tok [] [] s (cu_conn ?cu)" "t_operation (cu_timeouts ?cu) = None" "length w \<le> cn_max_response_size (cu_conn ?cu)"
    "length (frame (concat [export_command (res_id rs) ?start k])) < env_F E"
    using s(1,6) f F export_command_short [of "res_id rs" ?start k] b by (auto simp: fetchable_def)
  obtain s' c' where c: "command_raw E [export_command (res_id rs) ?start k] vec ?cu = (Ok (), w, ?cu\<lparr>cu_conn := c'\<rparr>)" "ready tok [] [] s' c'"
      "sock_pend tpend s' = concat (map frame ?ws) @ rest" "sock_patience tpat s' \<le> sock_patience tpat s" "cn_max_response_size c' = cn_max_response_size (cu_conn ?cu)"
    by (rule command_raw_exchange [OF E pol others p(1,2) s(2,3) p(4,3)]) (rule that, assumption+)
  have r: "k = 0 \<or> starts_with (rows_text (take k later)) ''[''" using k later by (cases later; cases k) (simp_all add: rows_text_def row_text_def)
  have "\<forall>x\<in>{res_id rs, n, k, ?start}. x \<le> 18446744073709551615"
    and "w = ''&6'' @ head_line [res_id rs, n, k, ?start] @ CHR 0x0a # rows_text (take k later)"
    using b k(2) by (simp_all add: w_def window_text_def min_absorb2)
  from byte_search.parse_window_ok [OF L s(5) this(2,1) byte_search.ordinary_no_error [OF L s(4)] r] obtain buf where buf: "parse_window (env_L E) (res_id rs) n k ?start w = Ok (RowSet_new buf n)" "wf_buf buf" "peek buf = rows_text (take k later)" by blast
  let ?rs' = "?rs\<lparr>res_row_set := RowSet_new buf n\<rparr>"
  let ?cu' = "cu\<lparr>cu_replies := Data ?rs', cu_conn := c', cu_reply_size := ?size\<rparr>"
  have "decide_next_fetch cu = Ok (res_id rs, ?start, k, ?size, n)"
    using tot cu by (simp add: decide_next_fetch_def result_set_def k_def Let_def flip: tot(1))
  then have "fetch_more_rows E cu = (Ok (), ?cu')"
    using sw c(1) buf(1) by (simp add: fetch_more_rows_def export_command_def result_set_mut_def)
  moreover have "rows_left n (take k later) (length (drop k later)) ?rs'"
    using buf(2,3) tot k(2) f by (auto simp: rows_left_def RowSet_new_def fetchable_def min_absorb2 dest: in_set_takeD)
  moreover have "fetchable E n (drop k later) rest ?rs' ?cu'"
  proof -
    have "res_total_rows rs - length (drop k later) = ?start + k" using tot k(2) by auto
    then show ?thesis using f c(2-5) s(2,3) window_positive [of "cu_reply_size cu"] ws start
      by (auto simp: fetchable_def Let_def dest: in_set_dropD)
  qed
  ultimately show thesis using that k(1) by auto
qed

lemma delivers_step:
  assumes L: "byte_search (env_L E)" and nr: "next_row E cu = row_loop E (Suc g) cu1" and cu1: "cu_replies cu1 = Data rs1"
    and left: "rows_left n (cells # rows) (length later) rs1" and f: "fetchable E n later rest rs1 cu1"
    and ih: "\<And>cu rs. cu_replies cu = Data rs \<Longrightarrow> rows_left n rows (length later) rs \<Longrightarrow> fetchable E n later rest rs cu \<Longrightarrow> delivers E (rows @ later) cu"
  shows "delivers E ((cells # rows) @ later) cu"
proof -
  obtain rs' where r: "row_loop E (Suc g) cu1 = (Ok True, cu1\<lparr>cu_replies := Data rs'\<rparr>)" "rows_left n rows (length later) rs'"
    "\<And>i. i < n \<Longrightarrow> raw_value rs' i = Ok (cell_value (cells ! i))" "res_id rs' = res_id rs1" "res_total_rows rs' = res_total_rows rs1"
    by (rule row_loop_left [OF L cu1 left]) (rule that, assumption+)
  have "length cells = n" using left by (simp add: rows_left_def)
  moreover have "delivered (env_L E) (cu1\<lparr>cu_replies := Data rs'\<rparr>) i (cells ! i)" if "i < n" for i
    by (rule delivered_cell [OF L _ r(3) [OF that]]) simp
  moreover have "delivers E (rows @ later) (cu1\<lparr>cu_replies := Data rs'\<rparr>)"
    by (rule ih [OF _ r(2) fetchable_same [OF f r(4,5)]]) simp
  ultimately show ?thesis using nr r(1) by auto
qed

lemma delivers_all:
  assumes E: "env_T E = T" and pol: "\<forall>k. 0 < env_pol E k" and L: "byte_search (env_L E)" and others: "\<forall>c. env_others E c = c" and F: "80 < env_F E"
  shows "cu_replies cu = Data rs \<Longrightarrow> rows_left n here (length later) rs \<Longrightarrow> fetchable E n later rest rs cu \<Longrightarrow> delivers E (here @ later) cu"
proof (induction "length here + length later" arbitrary: here later cu rs rule: less_induct)
  case less
  obtain g where g: "env_F E = Suc (Suc g)" using F by (cases "env_F E"; cases "env_F E - 1") auto
  have nr: "next_row E cu = row_loop E (Suc (Suc g)) cu" using next_row_Data [OF _ less.prems(1), of E] g by simp
  show ?case
  proof (cases here)
    case (Cons cells rows)
    show ?thesis unfolding Cons
      by (rule delivers_step [OF L nr less.prems(1) _ less.prems(3)]) (use less Cons in auto)
  next
    case Nil
    note drained = row_loop_drained [OF less.prems(1) less.prems(2) [unfolded Nil], of E "Suc g"]
    show ?thesis
    proof (cases "later = []")
      case True
      with drained nr Nil show ?thesis by (simp del: row_loop.simps)
    next
      case False
      let ?cu = "cu\<lparr>cu_replies := Data (drained rs)\<rparr>"
      have d: "cu_replies ?cu = Data (drained rs)" "rows_left n [] (length later) (drained rs)" "fetchable E n later rest (drained rs) ?cu"
        using less.prems Nil drained_left fetchable_same [OF less.prems(3)] by simp_all
      obtain cu' rs' k where fetch: "fetch_more_rows E ?cu = (Ok (), cu')" "cu_replies cu' = Data rs'" "0 < k"
        "rows_left n (take k later) (length (drop k later)) rs'" "fetchable E n (drop k later) rest rs' cu'"
        by (rule fetch_window [OF E pol L others F d(1,2) False d(3)]) (rule that, assumption+)
      obtain cells rows where t: "take k later = cells # rows" using False fetch(3) by (cases "take k later") auto
      have "length rows < length later" using arg_cong [OF t, of length] by simp
      have "next_row E cu = row_loop E (Suc g) cu'" using nr drained fetch(1) False by (simp del: row_loop.simps)
      then have "delivers E ((cells # rows) @ drop k later) cu"
        by (rule delivers_step [OF L _ fetch(2) fetch(4) [unfolded t] fetch(5)])
           (use less.hyps [of rows "drop k later"] arg_cong [OF t, of length] Nil in auto)
      then show ?thesis using Nil by (simp flip: t)
    qed
  qed
qed

end

section \<open>Properties\<close>

text \<open>C1. A query from end to end: on an idle connection, with responses of earlier commands still to come, commands delayed and close requests
  queued, \<open>execute\<close> sends those and then the statement, each as one message. When the server answers them, the answer to the statement being a result set with its first rows, \<open>execute\<close>
  succeeds and the cursor has the columns the server announced. When the server then answers every request for a further window
  of rows, calling \<open>next_row\<close> until it returns false delivers exactly the rows of the result set, in order, each with its
  values as the server rendered them.\<close>

theorem query_delivers_rows:
  assumes "conversation_transport (env_T E) tok tpend tpat out" and "\<forall>k. 0 < env_pol E k" and "byte_search (env_L E)" and "\<forall>c. env_others E c = c"
    and "ready tok ss cs s (cu_conn cu)" and "t_operation (cu_timeouts cu) = None" and "cu_replies cu = Exhausted vec" and "0 < cu_reply_size cu"
    and "length ms = length (ss @ cs)" and "first_failure (env_L E) (map expected (ss @ cs)) ms = None"
    and "m = result_text rid (length (rows @ later)) (length rows) cols @ rows_text rows"
    and "ws = windows (cu_max_prefetch cu) (cu_reply_size cu) rid (length cols) (length rows) later"
    and "sock_pend tpend s = concat (map frame ms) @ frame m @ concat (map frame ws) @ rest"
    and "\<forall>m'\<in>set ws \<union> {m}. ordinary m' \<and> length m' \<le> usize_max"
    and "\<forall>m'\<in>set ms \<union> set ws \<union> {m}. length m' \<le> cn_max_response_size (cu_conn cu)"
    and "80 < env_F E" and "length (sock_pend tpend s) + sock_patience tpat s < env_F E"
    and "length (concat (map (\<lambda>c. frame (terminated (fst (snd c)))) cs) @ frame (''s'' @ stmt @ [CHR 0x0a, CHR '';''])) < env_F E"
    and "cols \<noteq> []" and "\<forall>c\<in>set cols. spec_ok c"
    and "\<forall>x\<in>{rid, length cols, length (rows @ later)}. x \<le> 18446744073709551615"
    and "\<forall>cells\<in>set (rows @ later). length cells = length cols \<and> (\<forall>c\<in>set cells. cell_ok c)"
  shows "\<exists>cu' rs s'. execute E X stmt cu = (Ok (), cu') \<and> cu_replies cu' = Data rs \<and> res_columns rs = map spec_column cols
    \<and> delivers E (rows @ later) cu' \<and> cn_sock (cu_conn cu') = Some s' \<and> sock_pend tpend s' = concat (map frame ws) @ rest
    \<and> out (inner s') = out (inner s) @ concat (map (\<lambda>c. frame (terminated (fst (snd c)))) cs) @ frame (''s'' @ stmt @ [CHR 0x0a, CHR '';''])"
proof -
  have m: "ordinary m" "take_file_request (env_L E) m = (Ok None, m)" "\<forall>m'\<in>set (m # ms). length m' \<le> cn_max_response_size (cu_conn cu)"
    using assms(14,15) byte_search.ordinary_no_request [OF assms(3)] by simp_all
  obtain s' c' where q: "execute E X stmt cu = install_response E m (cu\<lparr>cu_replies := Exhausted [], cu_conn := c'\<rparr>)" "ready tok [] [] s' c'"
    "sock_pend tpend s' = concat (map frame ws) @ rest" "sock_patience tpat s' \<le> sock_patience tpat s" "cn_max_response_size c' = cn_max_response_size (cu_conn cu)"
    "out (inner s') = out (inner s) @ concat (map (\<lambda>c. frame (terminated (fst (snd c)))) cs) @ frame (''s'' @ stmt @ [CHR 0x0a, CHR '';''])"
    by (rule conversation_transport.execute_exchange [OF assms(1) refl assms(2,4,5-7,13,9,10,17,18) m(3,2)]) (rule that, assumption+)
  have b: "rid \<le> 18446744073709551615" "length rows + length later \<le> 18446744073709551615" "length m \<le> usize_max"
    "m = result_text rid (length rows + length later) (length rows) cols @ rows_text rows"
    "\<forall>cells\<in>set rows. length cells = length cols \<and> (\<forall>c\<in>set cells. cell_ok c)" using assms(11,14,21,22) by (simp_all add: ball_Un)
  let ?cu = "cu\<lparr>cu_replies := Exhausted [], cu_conn := c'\<rparr>"
  from install_result [OF assms(3) m(1) b(4) assms(19,20) b(1-3,5), of ?cu] obtain rs where
    r: "install_response E m ?cu = (Ok (), ?cu\<lparr>cu_replies := Data rs\<rparr>)" "res_columns rs = map spec_column cols"
      "res_id rs = rid" "res_total_rows rs = length rows + length later" "rows_left (length cols) rows (length later) rs" by blast
  have "conversation_transport.fetchable tok tpend tpat E (length cols) later rest rs (?cu\<lparr>cu_replies := Data rs\<rparr>)"
    unfolding conversation_transport.fetchable_def [OF assms(1)] using assms(6,8,12-15,17,21,22) q(2-5) r(3,4) by (auto simp: Let_def)
  from conversation_transport.delivers_all [OF assms(1) refl assms(2-4,16) _ r(5) this]
  have "delivers E (rows @ later) (?cu\<lparr>cu_replies := Data rs\<rparr>)" by simp
  with q(1-3,6) r(1,2) show ?thesis by (auto simp: ready_def)
qed

section \<open>Example\<close>

text \<open>A result set of two rows, sent one row at a time.\<close>

definition example_table :: "cell list list" where
  "example_table = [[Raw ''1.500'', Quoted [CHR ''x'', CHR 0x0a, CHR ''y'']], [Null, Null]]"

definition example_answer :: bytes where
  "example_answer = result_text 7 2 1 example_cols @ rows_text (take 1 example_table)"

definition example_window :: bytes where
  "example_window = window_text 7 2 1 (drop 1 example_table)"

definition answering_script :: script where
  "answering_script = \<lparr>clock = 0, events = [(0, Recv (frame [])), (0, Recv (frame example_answer)), (0, Recv (frame example_window))], allowances = [], sent = []\<rparr>"

text \<open>A cursor of an idle connection; the close of an earlier result set was queued.\<close>

definition idle_sock :: "script \<Rightarrow> script ServerSock" where
  "idle_sock t = fresh_sock Tcp \<lparr>t_read = None, t_write = None, t_operation = None\<rparr> t"

definition idle_cursor :: "script \<Rightarrow> script Cursor" where
  "idle_cursor t = set_reply_size 1 (Cursor_new ((Conn_new None (idle_sock t)
      (ServerState_new ''SHA512'' Lit 1 1000) DelayedCommands_new \<lparr>t_read = None, t_write = None, t_operation = None\<rparr>)\<lparr>cn_pending_closes := [3]\<rparr>))"

lemma answering_script_ok: "script_calm_out answering_script" "script_pend answering_script = frame [] @ frame example_answer @ frame example_window"
  "script_patience answering_script = 0" "sent answering_script = []"
  by (auto simp: answering_script_def script_calm_out_def script_calm_def script_ok_def script_pend_def script_patience_def frame_nonempty [symmetric])

lemmas example_answer_defs = example_answer_def result_text_def meta_text_def meta_line_def example_cols_def rendered_name_def quote_name_def quote_char_def
  length_text_def sizes_text_def rows_text_def row_text_def example_table_def sep_text_def escape_def escape_byte_def show_nat.simps

lemma example_answer_ok: "ordinary example_answer" "length example_answer \<le> 1000"
  by (simp_all add: ordinary_def example_answer_defs char_of_def)

lemma example_window_ok: "ordinary example_window" "length example_window \<le> 1000"
  by (simp_all add: ordinary_def example_window_def window_text_def head_line_def example_answer_defs char_of_def)

lemma example_windows: "windows None 1 7 2 1 (drop 1 example_table) = [example_window]"
  by (subst windows.simps) (simp add: windows.simps [of _ _ _ _ _ "[]"] example_table_def example_window_def next_fetch_size_def next_window_size_def saturating_mul_def)

lemma idle_cursor_ok:
  assumes "script_calm_out t"
  shows "ready script_calm_out [] [close_command 3] (idle_sock t) (cu_conn (idle_cursor t))"
    and "t_operation (cu_timeouts (idle_cursor t)) = None" "cn_max_response_size (cu_conn (idle_cursor t)) = 1000" "cu_replies (idle_cursor t) = Exhausted []"
    and "cu_reply_size (idle_cursor t) = 1" "cu_max_prefetch (idle_cursor t) = None"
    and "sock_pend script_pend (idle_sock t) = script_pend t" "sock_patience script_patience (idle_sock t) = script_patience t"
  using fresh_talking [where tok = script_calm_out and t = t and raw = Tcp and
      ts = "\<lparr>t_read = None, t_write = None, t_operation = None\<rparr>", OF assms]
  by (auto simp: ready_def idle_cursor_def idle_sock_def set_reply_size_def Cursor_new_def Conn_new_def talking_def calm_ok_def dc_holds_new ServerState_new_def
      ReplyParser_default_def)

lemmas example_idle_ok = idle_cursor_ok [OF answering_script_ok(1)]

lemma closed_answer: "length [[] :: bytes] = length ([] @ [close_command 3])" "first_failure ref_libs (map expected ([] @ [close_command 3])) [[]] = None"
  using byte_search.ordinary_no_error [OF ref_libs.byte_search_axioms, of "[]"] by (simp_all add: ordinary_def)

theorem query_delivers_rows_witness:
  "\<exists>F cu'. execute (quiet_env F) example_texts ''SELECT a, n FROM t'' (idle_cursor answering_script) = (Ok (), cu') \<and> delivers (quiet_env F) example_table cu'"
proof -
  let ?s = "idle_sock answering_script"
  have pend: "sock_pend script_pend ?s = concat (map frame [[]]) @ frame example_answer @ concat (map frame [example_window]) @ []" "sock_patience script_patience ?s = 0"
    by (simp_all only: example_idle_ok(7,8) answering_script_ok list.map concat.simps append_Nil2)
  let ?data = "concat (map (\<lambda>c. frame (terminated (fst (snd c)))) [close_command 3]) @ frame (''s'' @ ''SELECT a, n FROM t'' @ [CHR 0x0a, CHR '';''])"
  define F where "F = 81 + length (sock_pend script_pend ?s) + length ?data"
  have e: "env_T (quiet_env F) = script_transport" "env_F (quiet_env F) = F" "env_L (quiet_env F) = ref_libs" "\<forall>k. 0 < env_pol (quiet_env F) k"
    "\<forall>c. env_others (quiet_env F) c = c" by (simp_all add: quiet_env_def)
  have f: "80 < F" "length (sock_pend script_pend ?s) + sock_patience script_patience ?s < F" "length ?data < F" unfolding pend(2) by (simp_all add: F_def)
  have p: "0 < cu_reply_size (idle_cursor answering_script)" by (simp add: example_idle_ok)
  have m: "example_answer = result_text 7 (length (take 1 example_table @ drop 1 example_table)) (length (take 1 example_table)) example_cols @ rows_text (take 1 example_table)"
    "[example_window] = windows (cu_max_prefetch (idle_cursor answering_script)) (cu_reply_size (idle_cursor answering_script)) 7 (length example_cols) (length (take 1 example_table)) (drop 1 example_table)"
    using example_windows by (simp_all add: example_answer_def example_idle_ok example_table_def example_cols_def numeral_2_eq_2)
  have o: "\<forall>m\<in>set [example_window] \<union> {example_answer}. ordinary m \<and> length m \<le> usize_max"
    "\<forall>m\<in>set [[]] \<union> set [example_window] \<union> {example_answer}. length m \<le> cn_max_response_size (cu_conn (idle_cursor answering_script))"
    using example_answer_ok example_window_ok by (simp_all add: example_idle_ok)
  have c: "example_cols \<noteq> []" "\<forall>x\<in>{7, length example_cols, length (take 1 example_table @ drop 1 example_table)}. x \<le> 18446744073709551615"
    "\<forall>cells\<in>set (take 1 example_table @ drop 1 example_table). length cells = length example_cols \<and> (\<forall>c\<in>set cells. cell_ok c)"
    by (simp_all add: example_table_def example_cols_def)
  have "\<exists>cu' rs s'. execute (quiet_env F) example_texts ''SELECT a, n FROM t'' (idle_cursor answering_script) = (Ok (), cu') \<and> cu_replies cu' = Data rs
      \<and> res_columns rs = map spec_column example_cols \<and> delivers (quiet_env F) (take 1 example_table @ drop 1 example_table) cu'
      \<and> cn_sock (cu_conn cu') = Some s' \<and> sock_pend script_pend s' = concat (map frame [example_window]) @ [] \<and> sent (inner s') = sent (inner ?s) @ ?data"
    by (rule query_delivers_rows [where E = "quiet_env F" and X = example_texts and stmt = "''SELECT a, n FROM t''", unfolded e,
        OF script_conversation.conversation_transport_axioms e(4) ref_libs.byte_search_axioms e(5) example_idle_ok(1,2,4) p closed_answer m pend(1) o f c(1) example_cols_ok c(2,3)])
  then show ?thesis by auto
qed

end
