(* ===== verification/Failed_Statement.thy ===== *)
theory Failed_Statement
  imports Query
begin

text \<open>
  A statement that fails on the server: what the caller gets to see, and the state of the cursor and of the connection afterwards. It composes
  the exchange of a statement with the search for error lines and the loop that discards the replies of the response.
\<close>

section \<open>Discarding the replies\<close>

context byte_search
begin

lemma exhaust_suffix:
  assumes E: "env_L E = L"
  shows "wf_parser (cu_replies cu) \<Longrightarrow> queueing (cu_conn cu) \<Longrightarrow> suffix (behind (cu_replies (snd (exhaust E f cu)))) (behind (cu_replies cu))"
proof (induction f arbitrary: cu)
  case (Suc f)
  note parsed = next_reply_parsed [OF Suc.prems(1)]
  show ?case
  proof (cases "ended (cu_replies cu)")
    case False
    show ?thesis
    proof (cases "into_next_reply L (cu_replies cu)")
      case (Ok pc)
      then obtain p c where p: "into_next_reply L (cu_replies cu) = Ok (p, c)" by (cases pc) auto
      with parsed have ok: "wf_parser p" "suffix (behind p) (behind (cu_replies cu))" by (simp_all add: parsed_def)
      from try_queue_closes_ok [OF Suc.prems(2)] obtain cn where cn: "try_queue_closes (closes_of c) (cu_conn cu) = Ok cn" "queueing cn" by blast
      from next_reply_ok [OF _ cn(1), of E p] p E obtain b where "next_reply E cu = (Ok b, cu\<lparr>cu_replies := p, cu_conn := cn\<rparr>)" by auto
      with Suc.IH [of "cu\<lparr>cu_replies := p, cu_conn := cn\<rparr>"] ok cn(2) False show ?thesis
        by (auto simp: exhaust_Suc intro: suffix_order.trans)
    next
      case (Err e)
      with False E show ?thesis by (simp add: exhaust_Suc next_reply_def Let_def ReplyParser_default_def)
    qed (use parsed in auto)
  qed (simp add: exhaust_Suc)
qed simp

text \<open>Installing a response that has error lines.\<close>

lemma install_failed:
  assumes E: "env_L E = L" and e: "server_error L m = Some e" and len: "length m \<le> usize_max" "2 * length m + 2 < env_F E" and q: "queueing (cu_conn cu)"
  obtains res cu' ids where "install_response E m cu = (res, cu')" "try_queue_closes ids (cu_conn cu) = Ok (cu_conn cu')"
    "case ReplyParser_new L m of
       Ok p \<Rightarrow> res = Err (Server e) \<and> ended (cu_replies cu') \<or> res = NoFuel \<and> unread_noslice (cu_replies cu') \<and> suffix (behind (cu_replies cu')) m
     | Err bad \<Rightarrow> res = Err (Bad bad) \<and> cu' = cu | _ \<Rightarrow> False"
proof (cases "ReplyParser_new L m")
  case (Ok p)
  have b: "wf_buf (ReplyBuf_new m)" "peek (ReplyBuf_new m) = m" using len(1) by (simp_all add: ReplyBuf_new_def wf_buf_def peek_def)
  have p: "wf_parser p" "suffix (behind p) m" using parsed_parse [OF b(1)] Ok b(2) by (simp_all add: ReplyParser_new_def parsed_def)
  let ?cu = "cu\<lparr>cu_replies := p\<rparr>" let ?r = "exhaust E (env_F E) ?cu"
  have "todo p + 1 < env_F E" using len(2) suffix_length_le [OF p(2)] by (simp add: todo_def)
  with exhaust_ends [OF E, of ?cu "env_F E"] p(1) q obtain ids where x: "try_queue_closes ids (cu_conn cu) = Ok (cu_conn (snd ?r))" "all_read ?r" by auto
  have "suffix (behind (cu_replies (snd ?r))) m" using exhaust_suffix [OF E, of ?cu "env_F E"] p q by (auto intro: suffix_order.trans)
  moreover have "install_response E m cu = (case ?r of (Ok _, cu) \<Rightarrow> (Err (Server e), cu) | (Err _, cu) \<Rightarrow> (Err (Server e), cu) | (res, cu) \<Rightarrow> (failed res, cu))"
    using Ok e E by (simp add: install_response_def detect_errors_def Let_def)
  ultimately show thesis using x Ok by (cases ?r; cases "fst ?r") (auto simp: all_read_def intro!: that)
next
  case (Err bad)
  then have "install_response E m cu = (Err (Bad bad), cu)" using E by (simp add: install_response_def)
  then show thesis using Err by (intro that [OF _ try_queue_closes_Nil]) simp_all
qed (use parsed_parse [of "ReplyBuf_new m"] len(1) in \<open>auto simp: ReplyParser_new_def parsed_def ReplyBuf_new_def wf_buf_def\<close>)

end

text \<open>The close requests of discarded result sets wait for the next command.\<close>

lemma ready_queued:
  assumes "ready tok [] [] s c" and "try_queue_closes ids c = Ok c'"
  shows "ready tok [] (map close_command ids) s c'"
proof -
  have c: "dc_holds (cn_delayed c) []" "cn_pending_closes c = []" "cn_pending_deallocates c = []" using assms(1) by (auto simp: ready_def)
  from cleanup_commands(1) [OF c(1), of ids] obtain d' where "add_cleanups ''close'' ids (cn_delayed c) = Ok d'" "dc_holds d' (map close_command ids)" by auto
  with assms c show ?thesis by (auto simp: ready_def try_queue_closes_def split: if_splits)
qed

lemma ready_queueing: "ready tok ss cs s c \<Longrightarrow> queueing c"
  by (auto simp: ready_def queueing_def)

section \<open>Properties\<close>


text \<open>A statement about a table that does not exist; the close of an earlier result set was queued.\<close>

definition example_refusal :: bytes where
  "example_refusal = ''!42S02!no such table'' @ [CHR 0x0a]"

definition refusing_script :: script where
  "refusing_script = \<lparr>clock = 0, events = [(0, Recv (frame [])), (0, Recv (frame example_refusal))], allowances = [], sent = []\<rparr>"

lemma refusing_script_ok: "script_calm_out refusing_script" "script_pend refusing_script = frame [] @ frame example_refusal"
  "script_patience refusing_script = 0"
  by (auto simp: refusing_script_def script_calm_out_def script_calm_def script_ok_def script_pend_def script_patience_def frame_nonempty [symmetric])

lemma example_refusal_ok: "CHR 0x01 \<notin> set example_refusal" "length example_refusal \<le> 1000"
  "List.map_filter (\<lambda>line. strip_prefix line ''!'') (split_on (CHR 0x0a) example_refusal) = [''42S02!no such table'']"
  "CHR ''='' \<notin> set example_refusal" "\<exists>p. ReplyParser_new ref_libs example_refusal = Ok p"
  by (simp_all add: example_refusal_def List.map_filter_def strip_prefix_def ReplyParser_new_def parse_def parse_error_def split_str_def ref_libs_def Let_def
      ReplyBuf_new_def Reply_Buf.split_def Reply_Buf.find_def peek_def consume_def from_utf8_def utf8_step_def first_index.simps)


end
