(* ===== verification/File_Upload.thy ===== *)
theory File_Upload
  imports Query
begin

text \<open>
  A statement that reads files of the client, from end to end: the server asks for files while it runs the statement, the client sends each in
  messages of the chunk size, with the caller's producer writing it in pieces of any size, and the statement ends with its response.
\<close>

section \<open>Vectored writing in a conversation\<close>

locale upload_transport = conversation_transport T tok tpend tpat out
  for T :: "'t transport" and tok :: "'t \<Rightarrow> bool" and tpend :: "'t \<Rightarrow> bytes" and tpat :: "'t \<Rightarrow> nat" and out :: "'t \<Rightarrow> bytes" +
  assumes write_vectored_ok: "tok t \<Longrightarrow> concat bufs \<noteq> [] \<Longrightarrow> \<exists>n t'. tr_write_vectored T bufs t = (Ok n, t') \<and> (0 < n \<and> n \<le> length (concat bufs))
      \<and> tok t' \<and> tpend t' = tpend t \<and> tpat t' = tpat t \<and> out t' = out t @ take n (concat bufs)"
begin

lemma vectored_loop_ok:
  "talking tok s \<Longrightarrow> (bufs \<noteq> [] \<longrightarrow> hd bufs \<noteq> []) \<Longrightarrow> length (concat bufs) < f
    \<Longrightarrow> \<exists>s'. vectored_loop (ServerSock_write_vectored T) f bufs s = (Ok (), s') \<and> wrote (concat bufs) s s'"
proof (induction f arbitrary: bufs s)
  case (Suc f)
  show ?case
  proof (cases "bufs = []")
    case True
    then show ?thesis using Suc.prems(1) by (simp add: wrote_def)
  next
    case False
    then have "concat bufs \<noteq> []" using Suc.prems(2) by (cases bufs) auto
    from with_write_ok [OF Suc.prems(1), of "tr_write_vectored T bufs", OF write_vectored_ok [OF _ this]] obtain n s1 where
      w: "ServerSock_write_vectored T bufs s = (Ok n, s1)" "0 < n" "n \<le> length (concat bufs)" "wrote (take n (concat bufs)) s s1"
      by (auto simp: ServerSock_write_vectored_def)
    from advance_slices_drop [OF w(3)] obtain r where r: "advance_slices n bufs = Some r" "concat r = drop n (concat bufs)" "r \<noteq> [] \<longrightarrow> hd r \<noteq> []" by blast
    have "talking tok s1" "length (concat r) < f" using w r(2) Suc.prems(3) by (simp_all add: wrote_def)
    from Suc.IH [OF this(1) r(3) this(2)] obtain s2 where "vectored_loop (ServerSock_write_vectored T) f r s1 = (Ok (), s2)" "wrote (drop n (concat bufs)) s1 s2"
      unfolding r(2) by blast
    with w False r(1) wrote_trans [OF w(4)] show ?thesis by fastforce
  qed
qed simp

lemma write_groups_ok:
  "talking tok s \<Longrightarrow> length (vector_sink.groups_text data fin blocks firsts) < f
    \<Longrightarrow> \<exists>s'. write_groups (ServerSock_write_vectored T) f data fin blocks firsts s = (Ok (), s') \<and> wrote (vector_sink.groups_text data fin blocks firsts) s s'"
proof (induction firsts arbitrary: s)
  case Nil
  then show ?case by (simp add: wrote_def vector_sink.groups_text_def [OF script_vectored.vector_sink_axioms])
next
  case (Cons a firsts)
  let ?g = "group_slices data fin blocks a (min (a + SCATTER_BLOCKS_PER_WRITE) blocks)"
  have gt: "vector_sink.groups_text data fin blocks (a # firsts) = concat ?g @ vector_sink.groups_text data fin blocks firsts"
    by (simp add: vector_sink.groups_text_def [OF script_vectored.vector_sink_axioms])
  from advance_slices_drop [of 0 ?g] obtain r where r: "advance_slices 0 ?g = Some r" "concat r = concat ?g" "r \<noteq> [] \<longrightarrow> hd r \<noteq> []" by auto
  from vectored_loop_ok [OF Cons.prems(1) r(3), of f] Cons.prems(2) r(1,2) obtain s1 where
    s1: "write_all_vectored (ServerSock_write_vectored T) f ?g s = (Ok (), s1)" "wrote (concat ?g) s s1"
    by (auto simp: gt write_all_vectored_def)
  then have "talking tok s1" by (simp add: wrote_def)
  from Cons.IH [OF this] Cons.prems(2) gt obtain s2 where "write_groups (ServerSock_write_vectored T) f data fin blocks firsts s1 = (Ok (), s2)"
    "wrote (vector_sink.groups_text data fin blocks firsts) s1 s2" by auto
  with s1 wrote_trans [OF s1(2)] gt show ?case by auto
qed

lemma write_fragment_ok:
  assumes E: "env_T E = T" and s: "talking tok s" and f: "length (fragment data fin) < env_F E"
  shows "\<exists>s'. write_fragment E data fin s = (Ok (), s') \<and> wrote (fragment data fin) s s'"
proof (cases "data = []")
  case True
  have one: "(case u16_to_le_bytes 1 of (lo, hi) \<Rightarrow> [lo, hi]) = head 0 True" by (simp add: u16_to_le_bytes_def head_def)
  have fr: "fragment [] fin = (if fin then head 0 True else [])" by (simp add: fragment_def frame.simps [of "[]"] open_blocks.simps [of "[]"])
  show ?thesis
    using write_all_ok [OF s, of "head 0 True" "env_F E"] f s unfolding write_fragment_def one E True fr by (auto simp: io_result_def wrote_def)
next
  case False
  note g = groups_are_fragment [OF False, of fin]
  from write_groups_ok [OF s] f g obtain s' where "write_groups (ServerSock_write_vectored T) (env_F E) data fin (block_count data)
      (step_by SCATTER_BLOCKS_PER_WRITE (block_count data)) s = (Ok (), s')" "wrote (fragment data fin) s s'" by metis
  with False E show ?thesis by (auto simp: write_fragment_def Let_def io_result_def)
qed

end

interpretation script_uploads: upload_transport script_transport script_calm_out script_pend script_patience sent
proof
  fix t :: script and bufs :: "bytes list"
  assume "script_calm_out t" "concat bufs \<noteq> []"
  from script_conversation.write_ok [OF this] show "\<exists>n t'. tr_write_vectored script_transport bufs t = (Ok n, t') \<and> (0 < n \<and> n \<le> length (concat bufs))
      \<and> script_calm_out t' \<and> script_pend t' = script_pend t \<and> script_patience t' = script_patience t \<and> sent t' = sent t @ take n (concat bufs)"
    by (auto simp: script_transport_def)
qed

section \<open>The messages of a file\<close>

function chunked :: "nat \<Rightarrow> bytes \<Rightarrow> bytes list" where
  "chunked n data = (if data = [] \<or> n = 0 then [] else take n data # chunked n (drop n data))"
  by pat_completeness auto
termination
  by (relation "measure (\<lambda>(_, data). length data)") auto

declare chunked.simps [simp del]

lemma chunked_append: "(\<And>m. m \<in> set msgs \<Longrightarrow> length m = n) \<Longrightarrow> 0 < n \<Longrightarrow> chunked n (concat msgs @ p) = msgs @ chunked n p"
proof (induction msgs)
  case (Cons m msgs)
  then have "length m = n" "m \<noteq> []" by auto
  with Cons show ?case by (simp add: chunked.simps [of n "m @ _"])
qed simp

lemma chunked_short: "length p < n \<Longrightarrow> chunked n p = (if p = [] then [] else [p])"
  by (simp add: chunked.simps [of n p] chunked.simps [of n "[]"])

lemma chunked_length: "0 < n \<Longrightarrow> length data \<le> length (chunked n data) * n"
proof (induction n data rule: chunked.induct)
  case (1 n data)
  then show ?case by (cases "data = []") (auto simp: chunked.simps [of n data])
qed

lemma frame_bound: "length (frame m) \<le> 2 * length m + 2"
proof (induction m rule: frame.induct)
  case (1 m)
  show ?case
  proof (cases "length m \<le> BLOCKSIZE")
    case False
    with "1" have "length (frame (drop BLOCKSIZE m)) \<le> 2 * (length m - BLOCKSIZE) + 2" by simp
    with False show ?thesis by (simp add: frame.simps [of m] head_def)
  qed (simp add: frame.simps [of m] head_def)
qed

section \<open>One file\<close>

text \<open>What the server sends for one file: the request, a prompt after every message of data, and the end.\<close>

definition prompts :: "nat \<Rightarrow> bytes \<Rightarrow> bytes" where
  "prompts n data = concat (replicate (length (chunked n data)) (frame MORE)) @ frame FILE_TRANSFER"

definition file_request :: "nat \<Rightarrow> bytes \<times> bytes \<Rightarrow> bytes" where
  "file_request n u = frame (FILE_TRANSFER @ fst u @ [CHR 0x0a]) @ prompts n (snd u)"

text \<open>What the client sends for it: a line feed and the data, in messages of the chunk size, and an empty message.\<close>

definition file_text :: "nat \<Rightarrow> bytes \<Rightarrow> bytes" where
  "file_text n data = open_blocks [CHR 0x0a] @ concat (map frame (chunked n data)) @ frame []"

fun write_pieces :: "('t, 'z) env_scheme \<Rightarrow> bytes list \<Rightarrow> 't StreamingUpload \<Rightarrow> (unit, CursorError) outcome \<times> 't StreamingUpload" where
  "write_pieces E [] u = (Ok (), u)"
| "write_pieces E (d # ds) u = bindS (write_chunk E d u) (\<lambda>_ u. write_pieces E ds u)"

context upload_transport
begin

text \<open>A sink on its way: the messages it has sent, what it holds back, and the prompts still to come.\<close>

definition fed :: "'t cenv \<Rightarrow> nat \<Rightarrow> 't ServerSock \<Rightarrow> bytes list \<Rightarrow> bytes \<Rightarrow> nat \<Rightarrow> bytes \<Rightarrow> 't StreamingUpload \<Rightarrow> bool" where
  "fed E n s0 msgs p k rest u \<longleftrightarrow> (\<exists>s. su_sock u = Some s \<and> su_outcome u = None \<and> su_chunk_size u = n \<and> 3 \<le> su_max_response_size u
     \<and> su_pending u = p \<and> length p < n \<and> (msgs \<noteq> [] \<or> p \<noteq> [] \<longrightarrow> su_started u)
     \<and> length (sock_pend tpend s) + sock_patience tpat s < env_F E
     \<and> told ((if su_started u then open_blocks [CHR 0x0a] else []) @ concat (map frame msgs)) (concat (replicate k (frame MORE)) @ rest) s0 s)"

lemma send_message_ok:
  assumes E: "env_T E = T" and pol: "\<forall>k. 0 < env_pol E k" and u: "su_sock u = Some s" "talking tok s" "sock_pend tpend s = frame p @ rest"
    and fuel: "length (sock_pend tpend s) + sock_patience tpat s < env_F E" "length (frame data) < env_F E" and limit: "length p \<le> su_max_response_size u"
  obtains s' where "send_message E data u = (Ok (), if p = MORE then u\<lparr>su_sock := Some s'\<rparr>
      else u\<lparr>su_sock := None, su_outcome := Some (if p = FILE_TRANSFER then UploadOutcome.Complete s' else ServerResponse s' p)\<rparr>)" "told (frame data) rest s s'"
proof -
  have "length (fragment data True) < env_F E" using fuel(2) by (simp add: fragment_def)
  from write_fragment_ok [OF E u(2) this] obtain s1 where s1: "write_fragment E data True s = (Ok (), s1)" "wrote (frame data) s s1"
    by (auto simp: fragment_def)
  then have w: "talking tok s1" "sock_pend tpend s1 = frame p @ rest" "length (sock_pend tpend s1) + sock_patience tpat s1 < env_F E"
    using u(3) fuel(1) by (simp_all add: wrote_def)
  from recv_ok [OF w pol limit] obtain s2 where s2: "to_limited (ServerSock_read T) (env_F E) (env_pol E) s1 [] (su_max_response_size u) = (Ok s2, p)"
    "heard rest s1 s2" by blast
  have "told (frame data) rest s s2" using s1(2) s2(2) by (simp add: told_def wrote_def heard_def)
  then show thesis using s1(1) s2(1) u(1) E
    by (intro that [of s2]) (auto simp: send_message_def Let_def recv_message_def io_result_def)
qed

lemma MORE_not_end: "MORE \<noteq> FILE_TRANSFER" "length MORE = 3" "length FILE_TRANSFER = 3"
  by (simp_all add: MORE_def FILE_TRANSFER_def)

lemma told_trans: "told a r s s1 \<Longrightarrow> told b rest s1 s2 \<Longrightarrow> told (a @ b) rest s s2"
  by (simp add: told_def)

lemma fed_message:
  assumes E: "env_T E = T" and pol: "\<forall>k. 0 < env_pol E k" and "2 * n + 2 < env_F E" and u: "fed E n s0 msgs [] (Suc k) rest u" and "su_started u" and m: "length m \<le> n"
  obtains u' where "send_message E m u = (Ok (), u')" "fed E n s0 (msgs @ [m]) [] k rest u'" "su_started u'"
proof -
  from u obtain s where s: "su_sock u = Some s" "su_outcome u = None" "su_chunk_size u = n" "3 \<le> su_max_response_size u" "su_pending u = []" "0 < n"
    "length (sock_pend tpend s) + sock_patience tpat s < env_F E"
    "told (open_blocks [CHR 0x0a] @ concat (map frame msgs)) (frame MORE @ concat (replicate k (frame MORE)) @ rest) s0 s"
    using assms(5) by (auto simp: fed_def)
  then have t: "talking tok s" "sock_pend tpend s = frame MORE @ concat (replicate k (frame MORE)) @ rest" by (simp_all add: told_def)
  have f: "length (frame m) < env_F E" "length MORE \<le> su_max_response_size u" using frame_bound [of m] m assms(3) s(4) by (simp_all add: MORE_not_end)
  obtain s' where s': "send_message E m u = (Ok (), u\<lparr>su_sock := Some s'\<rparr>)" "told (frame m) (concat (replicate k (frame MORE)) @ rest) s s'"
    by (rule send_message_ok [OF E pol s(1) t s(7) f]) (rule that, simp_all)
  have "length (sock_pend tpend s') + sock_patience tpat s' < env_F E" using s(7) t(2) s'(2) by (simp add: told_def)
  then have "fed E n s0 (msgs @ [m]) [] k rest (u\<lparr>su_sock := Some s'\<rparr>)"
    using s(2-6) told_trans [OF s(8) s'(2)] assms(5) by (simp add: fed_def)
  with that s'(1) assms(5) show thesis by simp
qed

lemma chunk_loop_fed:
  assumes E: "env_T E = T" and pol: "\<forall>k. 0 < env_pol E k" and F: "2 * n + 2 < env_F E"
  shows "fed E n s0 msgs [] k rest u \<Longrightarrow> su_started u \<Longrightarrow> length data < Suc k * n
    \<Longrightarrow> \<exists>msgs' p k' u'. chunk_loop E data u = (Ok (), u') \<and> fed E n s0 (msgs @ msgs') p k' rest u' \<and> data = concat msgs' @ p \<and> (\<forall>m\<in>set msgs'. length m = n) \<and> k = length msgs' + k'"
proof (induction k arbitrary: msgs data u)
  case 0
  then have "\<not> (su_chunk_size u \<le> length data \<and> su_chunk_size u \<noteq> 0)" by (auto simp: fed_def)
  then have "chunk_loop E data u = (Ok (), u\<lparr>su_pending := data\<rparr>)" using "0.prems"(1) by (subst chunk_loop.simps) (auto simp: fed_def)
  moreover have "fed E n s0 msgs data 0 rest (u\<lparr>su_pending := data\<rparr>)" using "0.prems" by (auto simp: fed_def)
  ultimately show ?case by (intro exI [of _ "[]"] exI [of _ data]) simp
next
  case (Suc k)
  show ?case
  proof (cases "n \<le> length data")
    case True
    obtain u1 where u1: "send_message E (take n data) u = (Ok (), u1)" "fed E n s0 (msgs @ [take n data]) [] k rest u1" "su_started u1"
      by (rule fed_message [OF E pol F Suc.prems(1,2)]) (use True in auto)
    have "length (drop n data) < Suc k * n" using Suc.prems(3) True by simp
    from Suc.IH [OF u1(2,3) this] obtain msgs' p k' u' where r: "chunk_loop E (drop n data) u1 = (Ok (), u')"
      "fed E n s0 (msgs @ take n data # msgs') p k' rest u'" "drop n data = concat msgs' @ p" "\<forall>m\<in>set msgs'. length m = n" "k = length msgs' + k'" by auto
    have "su_chunk_size u = n" "0 < n" "su_outcome u1 = None" using Suc.prems(1) u1(2) by (auto simp: fed_def)
    then have "chunk_loop E data u = (Ok (), u')" using True u1(1) r(1) by (subst chunk_loop.simps) (simp add: Let_def)
    moreover have "data = concat (take n data # msgs') @ p" using r(3) by (simp flip: r(3))
    moreover have "\<forall>m\<in>set (take n data # msgs'). length m = n" "Suc k = length (take n data # msgs') + k'" using r(4,5) True by auto
    ultimately show ?thesis using r(2) by blast
  next
    case False
    then have "chunk_loop E data u = (Ok (), u\<lparr>su_pending := data\<rparr>)" using Suc.prems(1) by (subst chunk_loop.simps) (auto simp: fed_def)
    moreover have "fed E n s0 msgs data (Suc k) rest (u\<lparr>su_pending := data\<rparr>)" using False Suc.prems by (auto simp: fed_def)
    ultimately show ?thesis by (intro exI [of _ "[]"] exI [of _ data]) simp
  qed
qed

lemma fed_start:
  assumes E: "env_T E = T" and F: "2 * n + 2 < env_F E" and u: "fed E n s0 msgs p k rest u"
  obtains u' where "start_upload E u = (Ok (), u')" "fed E n s0 msgs p k rest u'" "su_started u'" "su_outcome u' = None" "su_pending u' = p" "su_chunk_size u' = n"
proof (cases "su_started u")
  case True
  then show thesis using u by (intro that [of u]) (auto simp: start_upload_def fed_def)
next
  case False
  with u obtain s where s: "su_sock u = Some s" "su_outcome u = None" "su_chunk_size u = n" "3 \<le> su_max_response_size u" "su_pending u = p" "0 < n"
    "length (sock_pend tpend s) + sock_patience tpat s < env_F E" "told [] (concat (replicate k (frame MORE)) @ rest) s0 s" "msgs = []" "p = []"
    by (auto simp: fed_def)
  have "length (fragment [CHR 0x0a] False) < env_F E"
    using F s(6) by (simp add: fragment_def open_blocks.simps [of "[CHR 0x0a]"] open_blocks.simps [of "[]"] head_def)
  moreover have "talking tok s" using s(8) by (simp add: told_def)
  ultimately obtain s' where s': "write_fragment E [CHR 0x0a] False s = (Ok (), s')" "wrote (open_blocks [CHR 0x0a]) s s'"
    using write_fragment_ok [OF E, of s "[CHR 0x0a]" False] by (auto simp: fragment_def)
  let ?u = "u\<lparr>su_sock := Some s', su_started := True\<rparr>"
  have "fed E n s0 msgs p k rest ?u" using s s'(2) by (auto simp: fed_def told_def wrote_def)
  moreover have "start_upload E u = (Ok (), ?u)" using False s(1) s'(1) by (simp add: start_upload_def)
  ultimately show thesis using that s(2,3,5) by simp
qed

lemma write_chunk_fed:
  assumes E: "env_T E = T" and pol: "\<forall>k. 0 < env_pol E k" and F: "2 * n + 2 < env_F E"
    and u: "fed E n s0 msgs p k rest u" and len: "length (p @ d) < Suc k * n"
  shows "\<exists>msgs' p' k' u'. write_chunk E d u = (Ok (), u') \<and> fed E n s0 (msgs @ msgs') p' k' rest u' \<and> p @ d = concat msgs' @ p'
    \<and> (\<forall>m\<in>set msgs'. length m = n) \<and> k = length msgs' + k'"
proof (cases "d = []")
  case True
  then show ?thesis using u by (intro exI [of _ "[]"] exI [of _ p]) (simp add: write_chunk_def)
next
  case False
  obtain u1 where u1: "start_upload E u = (Ok (), u1)" "fed E n s0 msgs p k rest u1" "su_started u1" "su_outcome u1 = None" "su_pending u1 = p" "su_chunk_size u1 = n"
    by (rule fed_start [OF E F u]) (rule that, assumption+)
  have o: "su_outcome u = None" "length p < n" using u by (auto simp: fed_def)
  have w: "write_chunk E d u = (if p \<noteq> [] then
      let j = min (n - length p) (length d); u = u1\<lparr>su_pending := p @ take j d\<rparr> in
        if length (p @ take j d) = n then bindS (flush_pending E u) (\<lambda>_ u. if su_outcome u \<noteq> None \<and> drop j d \<noteq> [] then (Err UploadComplete, u) else chunk_loop E (drop j d) u)
        else chunk_loop E (drop j d) u
      else chunk_loop E d u1)" using False o u1 by (simp add: write_chunk_def Let_def)
  consider (empty) "p = []" | (short) "p \<noteq> []" "length (p @ d) < n" | (full) "p \<noteq> []" "n \<le> length (p @ d)" by linarith
  then show ?thesis
  proof cases
    case empty
    with w u1(2,3) len chunk_loop_fed [OF E pol F, of s0 msgs k rest u1 d] show ?thesis by simp
  next
    case short
    then have "write_chunk E d u = (Ok (), u1\<lparr>su_pending := p @ d\<rparr>)" using w u1(6) by (simp add: Let_def chunk_loop.simps)
    moreover have "fed E n s0 msgs (p @ d) k rest (u1\<lparr>su_pending := p @ d\<rparr>)" using u1(2,3) short by (auto simp: fed_def)
    ultimately show ?thesis by (intro exI [of _ "[]"] exI [of _ "p @ d"]) simp
  next
    case full
    let ?j = "n - length p"
    obtain k0 where k: "k = Suc k0" using full(2) len by (cases k) auto
    have m: "length (p @ take ?j d) = n" "min ?j (length d) = ?j" using full(2) o(2) by auto
    have "fed E n s0 msgs [] (Suc k0) rest (u1\<lparr>su_pending := []\<rparr>)" using u1(2,3) o(2) k by (auto simp: fed_def)
    then obtain u2 where u2: "send_message E (p @ take ?j d) (u1\<lparr>su_pending := []\<rparr>) = (Ok (), u2)" "fed E n s0 (msgs @ [p @ take ?j d]) [] k0 rest u2" "su_started u2"
      by (rule fed_message [OF E pol F]) (use u1(3) m(1) in \<open>auto intro: that\<close>)
    then have f: "flush_pending E (u1\<lparr>su_pending := p @ take ?j d\<rparr>) = (Ok (), u2)" "su_outcome u2 = None"
      using full(1) by (auto simp: flush_pending_def fed_def)
    have "length (drop ?j d) < Suc k0 * n" using len k full(2) o(2) by simp
    from chunk_loop_fed [OF E pol F u2(2,3) this] obtain msgs' p' k' u' where r: "chunk_loop E (drop ?j d) u2 = (Ok (), u')"
      "fed E n s0 (msgs @ (p @ take ?j d) # msgs') p' k' rest u'" "drop ?j d = concat msgs' @ p'" "\<forall>m\<in>set msgs'. length m = n" "k0 = length msgs' + k'" by auto
    have "write_chunk E d u = (Ok (), u')" unfolding w Let_def m(2) using full(1) m(1) f r(1) by simp
    moreover have "p @ d = concat ((p @ take ?j d) # msgs') @ p'" by (simp flip: r(3))
    moreover have "\<forall>m\<in>set ((p @ take ?j d) # msgs'). length m = n" "k = length ((p @ take ?j d) # msgs') + k'" using m(1) r(4,5) k by auto
    ultimately show ?thesis using r(2) by blast
  qed
qed

lemma write_pieces_fed:
  assumes E: "env_T E = T" and pol: "\<forall>k. 0 < env_pol E k" and F: "2 * n + 2 < env_F E"
  shows "fed E n s0 msgs p k rest u \<Longrightarrow> length (p @ concat ds) < Suc k * n
    \<Longrightarrow> \<exists>msgs' p' k' u'. write_pieces E ds u = (Ok (), u') \<and> fed E n s0 (msgs @ msgs') p' k' rest u' \<and> p @ concat ds = concat msgs' @ p'
      \<and> (\<forall>m\<in>set msgs'. length m = n) \<and> k = length msgs' + k'"
proof (induction ds arbitrary: msgs p k u)
  case Nil
  then show ?case by (intro exI [of _ "[]"] exI [of _ p]) simp
next
  case (Cons d ds)
  have "length (p @ d) < Suc k * n" using Cons.prems(2) by simp
  from write_chunk_fed [OF E pol F Cons.prems(1) this] obtain msgs1 p1 k1 u1 where w: "write_chunk E d u = (Ok (), u1)"
    "fed E n s0 (msgs @ msgs1) p1 k1 rest u1" "p @ d = concat msgs1 @ p1" "\<forall>m\<in>set msgs1. length m = n" "k = length msgs1 + k1" by blast
  have "length (concat msgs1) = length msgs1 * n" using w(4) by (induction msgs1) auto
  then have "length (p1 @ concat ds) < Suc k1 * n"
    using Cons.prems(2) arg_cong [OF w(3), of length] w(5) by (simp add: algebra_simps)
  from Cons.IH [OF w(2) this] obtain msgs2 p2 k2 u2 where r: "write_pieces E ds u1 = (Ok (), u2)" "fed E n s0 (msgs @ msgs1 @ msgs2) p2 k2 rest u2"
    "p1 @ concat ds = concat msgs2 @ p2" "\<forall>m\<in>set msgs2. length m = n" "k1 = length msgs2 + k2" by auto
  have "p @ concat (d # ds) = concat (msgs1 @ msgs2) @ p2" using w(3) r(3) by (metis append.assoc concat.simps(2) concat_append)
  moreover have "\<forall>m\<in>set (msgs1 @ msgs2). length m = n" "k = length (msgs1 @ msgs2) + k2" using w(4,5) r(4,5) by auto
  ultimately show ?case using w(1) r(1,2) by fastforce
qed

lemma flush_fed:
  assumes E: "env_T E = T" and pol: "\<forall>k. 0 < env_pol E k" and F: "2 * n + 2 < env_F E" and u: "fed E n s0 msgs p (if p = [] then 0 else 1) rest u"
  obtains u' where "flush_pending E u = (Ok (), u')" "fed E n s0 (msgs @ (if p = [] then [] else [p])) [] 0 rest u'"
proof (cases "p = []")
  case True
  then show thesis using u that [of u] by (auto simp: flush_pending_def fed_def)
next
  case False
  have p: "su_pending u = p" "length p \<le> n" "su_started u" using u False by (auto simp: fed_def)
  have "fed E n s0 msgs [] (Suc 0) rest (u\<lparr>su_pending := []\<rparr>)" using u False by (auto simp: fed_def)
  then obtain u' where "send_message E p (u\<lparr>su_pending := []\<rparr>) = (Ok (), u')" "fed E n s0 (msgs @ [p]) [] 0 rest u'"
    by (rule fed_message [OF E pol F]) (use p in \<open>auto intro: that\<close>)
  then show thesis using that [of u'] False p(1) by (auto simp: flush_pending_def fed_def)
qed

lemma finish_fed:
  assumes E: "env_T E = T" and pol: "\<forall>k. 0 < env_pol E k" and F: "2 * n + 2 < env_F E" and u: "fed E n s0 msgs p (if p = [] then 0 else 1) (frame FILE_TRANSFER @ rest) u"
  obtains s' where "finish_upload E u = Ok (UploadOutcome.Complete s')"
    "told (open_blocks [CHR 0x0a] @ concat (map frame (msgs @ (if p = [] then [] else [p]))) @ frame []) rest s0 s'"
proof -
  let ?msgs = "msgs @ (if p = [] then [] else [p])"
  obtain u1 where u1: "flush_pending E u = (Ok (), u1)" "fed E n s0 ?msgs [] 0 (frame FILE_TRANSFER @ rest) u1" by (rule flush_fed [OF E pol F u])
  obtain u2 where u2: "start_upload E u1 = (Ok (), u2)" "fed E n s0 ?msgs [] 0 (frame FILE_TRANSFER @ rest) u2" "su_started u2" "su_outcome u2 = None"
    by (rule fed_start [OF E F u1(2)]) (rule that, assumption+)
  then obtain s where s: "su_sock u2 = Some s" "3 \<le> su_max_response_size u2" "0 < n" "length (sock_pend tpend s) + sock_patience tpat s < env_F E"
    "told (open_blocks [CHR 0x0a] @ concat (map frame ?msgs)) (frame FILE_TRANSFER @ rest) s0 s" by (auto simp: fed_def)
  have t: "talking tok s" "sock_pend tpend s = frame FILE_TRANSFER @ rest" using s(5) by (simp_all add: told_def)
  have f: "length (frame []) < env_F E" "length FILE_TRANSFER \<le> su_max_response_size u2" using frame_bound [of "[]"] F s(2) by (simp_all add: MORE_not_end)
  obtain s' where s': "send_message E [] u2 = (Ok (), u2\<lparr>su_sock := None, su_outcome := Some (UploadOutcome.Complete s')\<rparr>)" "told (frame []) rest s s'"
    by (rule send_message_ok [OF E pol s(1) t s(4) f]) (rule that, simp_all add: MORE_not_end(1) [symmetric])
  have "su_outcome u = None" "su_outcome u1 = None" using u u1(2) by (auto simp: fed_def)
  then have "finish_upload E u = Ok (UploadOutcome.Complete s')" using u1(1) u2(1) s'(1) by (simp add: finish_upload_def)
  with that told_trans [OF s(5) s'(2)] show thesis by simp
qed

lemma file_sent:
  fixes E :: "'t cenv"
  assumes E: "env_T E = T" and pol: "\<forall>k. 0 < env_pol E k" and F: "2 * n + 2 < env_F E" and n: "0 < n" and s: "talking tok s"
    and pend: "sock_pend tpend s = prompts n (concat ds) @ rest" and fuel: "length (sock_pend tpend s) + sock_patience tpat s < env_F E" and limit: "3 \<le> limit"
  obtains u s' where "write_pieces E ds (StreamingUpload_new s n limit) = (Ok (), u)" "finish_upload E u = Ok (UploadOutcome.Complete s')"
    "told (file_text n (concat ds)) rest s s'"
proof -
  let ?k = "length (chunked n (concat ds))"
  have "fed E n s [] [] ?k (frame FILE_TRANSFER @ rest) (StreamingUpload_new s n limit)"
    using n s pend fuel limit by (simp add: fed_def StreamingUpload_new_def told_def prompts_def)
  moreover have "length ([] @ concat ds) < Suc ?k * n" using chunked_length [OF n, of "concat ds"] n by simp
  ultimately obtain msgs p k u where w: "write_pieces E ds (StreamingUpload_new s n limit) = (Ok (), u)" "fed E n s msgs p k (frame FILE_TRANSFER @ rest) u"
    "concat ds = concat msgs @ p" "\<forall>m\<in>set msgs. length m = n" "?k = length msgs + k" using write_pieces_fed [OF E pol F] by force
  have "length p < n" using w(2) by (auto simp: fed_def)
  then have c: "chunked n (concat ds) = msgs @ (if p = [] then [] else [p])" using w(3,4) chunked_append [of msgs n p] chunked_short [of p n] n by simp
  then have "k = (if p = [] then 0 else 1)" using w(5) by (simp split: if_splits)
  with w(2) have f: "fed E n s msgs p (if p = [] then 0 else 1) (frame FILE_TRANSFER @ rest) u" by simp
  obtain s' where "finish_upload E u = Ok (UploadOutcome.Complete s')"
    "told (open_blocks [CHR 0x0a] @ concat (map frame (msgs @ (if p = [] then [] else [p]))) @ frame []) rest s s'"
    by (rule finish_fed [OF E pol F f])
  with that w(1) c show thesis by (simp add: file_text_def)
qed

end

section \<open>All files of a statement\<close>

text \<open>A producer that writes the content it has for a name, in pieces, and goes on to a next state.\<close>

definition writes :: "'t cenv \<Rightarrow> ('t, 'p) producer \<Rightarrow> (bytes \<rightharpoonup> bytes list) \<Rightarrow> ('p \<Rightarrow> bytes \<Rightarrow> 'p) \<Rightarrow> bool" where
  "writes E upload content after \<longleftrightarrow> (\<forall>p name sink ds. content name = Some ds \<longrightarrow>
     upload p name sink = (case write_pieces E ds sink of (res, sink) \<Rightarrow> (res, sink, after p name)))"

lemma map_upload_writes:
  fixes E :: "'t cenv"
  shows "writes E (map_upload E X files) (\<lambda>name. map_option (\<lambda>data. [data]) (files name)) (\<lambda>p name. p)"
proof -
  have "write_pieces E [d] sink = write_chunk E d sink" for d and sink :: "'t StreamingUpload"
    by (cases "write_chunk E d sink"; cases "fst (write_chunk E d sink)") auto
  then show ?thesis by (auto simp: writes_def map_upload_def simp del: write_pieces.simps)
qed

text \<open>Requests for files the producer has.\<close>

definition available :: "nat \<Rightarrow> (bytes \<rightharpoonup> bytes list) \<Rightarrow> bytes \<times> bytes \<Rightarrow> bool" where
  "available limit content u \<longleftrightarrow> (\<exists>name ds. upload_filename (fst u) = Some name \<and> content name = Some ds \<and> snd u = concat ds)
     \<and> utf8_valid (fst u) \<and> CHR 0x01 \<notin> set (fst u) \<and> length (fst u) + 4 \<le> limit"

definition produced :: "('p \<Rightarrow> bytes \<Rightarrow> 'p) \<Rightarrow> 'p \<Rightarrow> (bytes \<times> bytes) list \<Rightarrow> 'p" where
  "produced after p us = foldl after p (map (\<lambda>u. the (upload_filename (fst u))) us)"

context upload_transport
begin

lemma request_served:
  assumes E: "env_T E = T" and pol: "\<forall>k. 0 < env_pol E k" and F: "2 * n + 2 < env_F E" and n: "0 < n" and s: "talking tok s" and L: "byte_search (env_L E)"
    and pend: "sock_pend tpend s = file_request n u @ rest" and fuel: "length (sock_pend tpend s) + sock_patience tpat s < env_F E"
    and upload: "writes E upload content after" and u: "available limit content u" and v: "uv_response v = []" "uv_producer_error v = None"
  obtains s' where "upload_loop E X n limit upload (Suc k) s st v = upload_loop E X n limit upload k s' st (v\<lparr>uv_producer := produced after (uv_producer v) [u]\<rparr>)"
    "told (file_text n (snd u)) rest s s'"
proof -
  let ?m = "FILE_TRANSFER @ fst u @ [CHR 0x0a]"
  from u obtain name ds where ds: "upload_filename (fst u) = Some name" "content name = Some ds" "snd u = concat ds" by (auto simp: available_def)
  have l: "length ?m \<le> limit" "3 \<le> limit" using u by (simp_all add: available_def MORE_not_end)
  have pend': "sock_pend tpend s = frame ?m @ prompts n (concat ds) @ rest" using pend ds(3) by (simp add: file_request_def)
  from recv_ok [OF s pend' fuel pol l(1)] obtain s1 where s1: "to_limited (ServerSock_read T) (env_F E) (env_pol E) s [] limit = (Ok s1, ?m)"
    "heard (prompts n (concat ds) @ rest) s s1" by blast
  have "take_file_request (env_L E) ([] @ ?m) = (Ok (Some (fst u)), [])"
    using u take_file_request_exact [OF L, of _ "[]" "fst u"] by (simp add: available_def line_start_def)
  then have r: "take_file_request (env_L E) ?m = (Ok (Some (fst u)), [])" by simp
  have t: "talking tok s1" "sock_pend tpend s1 = prompts n (concat ds) @ rest" "length (sock_pend tpend s1) + sock_patience tpat s1 < env_F E"
    using s1(2) pend' fuel by (simp_all add: heard_def)
  obtain w s' where w: "write_pieces E ds (StreamingUpload_new s1 n limit) = (Ok (), w)" "finish_upload E w = Ok (UploadOutcome.Complete s')"
    "told (file_text n (concat ds)) rest s1 s'" by (rule file_sent [OF E pol F n t l(2)])
  have "upload (uv_producer v) name (StreamingUpload_new s1 n limit) = (Ok (), w, produced after (uv_producer v) [u])"
    using upload ds(1,2) w(1) by (simp add: writes_def produced_def)
  then have "serve_request E X n limit upload (fst u) s1 st v = GoOn s' (v\<lparr>uv_producer := produced after (uv_producer v) [u]\<rparr>)"
    using ds(1) v(2) w(2) by (simp add: serve_request_def settle_def Let_def)
  moreover have e: "v\<lparr>uv_response := []\<rparr> = v" using v(1) by simp
  ultimately have "upload_loop E X n limit upload (Suc k) s st v = upload_loop E X n limit upload k s' st (v\<lparr>uv_producer := produced after (uv_producer v) [u]\<rparr>)"
    using E s1(1) r by (simp add: e v(1))
  moreover have "told (file_text n (snd u)) rest s s'" using s1(2) w(3) ds(3) by (simp add: told_def heard_def)
  ultimately show thesis by (rule that)
qed

lemma files_answer:
  assumes E: "env_T E = T" and pol: "\<forall>k. 0 < env_pol E k" and F: "2 * n + 2 < env_F E" and n: "0 < n" and L: "byte_search (env_L E)"
    and upload: "writes E upload content after" and m: "length m \<le> limit" "take_file_request (env_L E) m = (Ok None, m)"
  shows "talking tok s \<Longrightarrow> sock_pend tpend s = concat (map (file_request n) us) @ frame m @ rest \<Longrightarrow> length (sock_pend tpend s) + sock_patience tpat s < env_F E
    \<Longrightarrow> \<forall>u\<in>set us. available limit content u \<Longrightarrow> uv_response v = [] \<Longrightarrow> uv_producer_error v = None \<Longrightarrow> length us < k
    \<Longrightarrow> \<exists>s'. upload_loop E X n limit upload k s st v
        = (Ok s', note_autocommit (env_L E) m st, v\<lparr>uv_response := m, uv_producer := produced after (uv_producer v) us\<rparr>)
      \<and> told (concat (map (\<lambda>u. file_text n (snd u)) us)) rest s s'"
proof (induction us arbitrary: s v k)
  case Nil
  from recv_ok [OF Nil(1) _ Nil(3) pol m(1), of rest] Nil(2) obtain s' where
    s': "to_limited (ServerSock_read T) (env_F E) (env_pol E) s [] limit = (Ok s', m)" "heard rest s s'" by auto
  then show ?case using Nil E m(2) by (cases k) (auto simp: heard_def told_def produced_def)
next
  case (Cons u us)
  let ?p = "produced after (uv_producer v) [u]"
  obtain k0 where k: "k = Suc k0" using Cons.prems(7) by (cases k) auto
  obtain s1 where s1: "upload_loop E X n limit upload (Suc k0) s st v = upload_loop E X n limit upload k0 s1 st (v\<lparr>uv_producer := ?p\<rparr>)"
    "told (file_text n (snd u)) (concat (map (file_request n) us) @ frame m @ rest) s s1"
    by (rule request_served [OF E pol F n Cons.prems(1) L _ Cons.prems(3) upload _ Cons.prems(5,6)]) (use Cons.prems(2,4) in \<open>auto intro: that\<close>)
  have t: "talking tok s1" "sock_pend tpend s1 = concat (map (file_request n) us) @ frame m @ rest"
    "length (sock_pend tpend s1) + sock_patience tpat s1 < env_F E" using s1(2) Cons.prems(2,3) by (simp_all add: told_def)
  from Cons.IH [OF t, of "v\<lparr>uv_producer := ?p\<rparr>" k0] Cons.prems(4-7) k obtain s' where
    "upload_loop E X n limit upload k0 s1 st (v\<lparr>uv_producer := ?p\<rparr>)
      = (Ok s', note_autocommit (env_L E) m st, v\<lparr>uv_response := m, uv_producer := produced after ?p us\<rparr>)"
    "told (concat (map (\<lambda>u. file_text n (snd u)) us)) rest s1 s'" by auto
  then show ?case using s1 k told_trans [OF s1(2)] by (auto simp: produced_def)
qed

lemma files_answered:
  assumes "env_T E = T" and "\<forall>k. 0 < env_pol E k" and "2 * n + 2 < env_F E" and "0 < n" and "byte_search (env_L E)" and "writes E upload content after"
    and "length m \<le> limit" and "take_file_request (env_L E) m = (Ok None, m)" and "\<forall>u\<in>set us. available limit content u"
  shows "answers E X n limit upload p (concat (map (file_request n) us) @ frame m @ rest) m (produced after p us) (concat (map (\<lambda>u. file_text n (snd u)) us)) rest"
  unfolding answers_def
proof (intro allI impI)
  fix s :: "'t ServerSock" and st e
  let ?inp = "concat (map (file_request n) us) @ frame m @ rest"
  assume s: "talking tok s" "sock_pend tpend s = ?inp" "length ?inp + sock_patience tpat s < env_F E"
  have ne: "0 < length (file_request n u)" for u by (simp add: file_request_def)
  have "length us \<le> length (concat (map (file_request n) us))"
  proof (induction us)
    case (Cons u us)
    with ne [of u] show ?case unfolding list.map concat.simps length_append list.size by linarith
  qed simp
  then have "length us < env_F E" using s(3) by simp
  with files_answer [OF assms(1-8) s(1,2) _ assms(9), where k = "env_F E" and X = X and st = st
      and v = "\<lparr>uv_refused = None, uv_producer_error = None, uv_delayed_error = e, uv_response = [], uv_producer = p\<rparr>"] s(2,3)
  show "\<exists>s'. upload_loop E X n limit upload (env_F E) s st \<lparr>uv_refused = None, uv_producer_error = None, uv_delayed_error = e, uv_response = [], uv_producer = p\<rparr>
      = (Ok s', note_autocommit (env_L E) m st, \<lparr>uv_refused = None, uv_producer_error = None, uv_delayed_error = e, uv_response = m, uv_producer = produced after p us\<rparr>)
    \<and> told (concat (map (\<lambda>u. file_text n (snd u)) us)) rest s s'" by simp
qed

end

lemma chunked_concat: "0 < n \<Longrightarrow> concat (chunked n data) = data"
  by (induction n data rule: chunked.induct) (auto simp: chunked.simps)

section \<open>Properties\<close>

text \<open>C4. A statement with client files, from end to end: while the server runs the statement it asks for files, in any number and order, and for each
  takes its data message by message. When the caller's producer writes the content of a file in pieces, of any sizes, the client sends for each request
  a line feed and exactly that content, cut into messages of the chunk size, and then an empty message; the pieces make no difference to what is sent. The call succeeds
  with the replies of the response, and the connection is idle with nothing left unread.\<close>

theorem files_uploaded:
  assumes "upload_transport (env_T E) tok tpend tpat out" and "\<forall>k. 0 < env_pol E k" and "byte_search (env_L E)" and "\<forall>c. env_others E c = c"
    and "ready tok ss cs s (cu_conn cu)" and "t_operation (cu_timeouts cu) = None" and "cu_replies cu = Exhausted vec"
    and "length ms = length (ss @ cs)" and "first_failure (env_L E) (map expected (ss @ cs)) ms = None"
    and "sock_pend tpend s = concat (map frame ms) @ concat (map (file_request n) us) @ frame m @ rest"
    and "writes E upload content after" and "\<forall>u\<in>set us. available (cn_max_response_size (cu_conn cu)) content u" and "0 < n"
    and "ordinary m" and "ReplyParser_new (env_L E) m = Ok replies" and "\<forall>m'\<in>set ms \<union> {m}. length m' \<le> cn_max_response_size (cu_conn cu)"
    and "2 * n + 2 < env_F E" and "length (sock_pend tpend s) + sock_patience tpat s < env_F E"
    and "length (concat (map (\<lambda>c. frame (terminated (fst (snd c)))) cs) @ frame (''s'' @ stmt @ [CHR 0x0a, CHR '';''])) < env_F E"
  shows "\<exists>cu' s'. execute_with_streaming_uploads_with_chunk_size E X stmt n upload p cu = (Ok (), produced after p us, cu') \<and> cu_replies cu' = replies
    \<and> ready tok [] [] s' (cu_conn cu') \<and> sock_pend tpend s' = rest
    \<and> out (inner s') = out (inner s) @ concat (map (\<lambda>c. frame (terminated (fst (snd c)))) cs) @ frame (''s'' @ stmt @ [CHR 0x0a, CHR '';''])
        @ concat (map (\<lambda>u. file_text n (snd u)) us)
    \<and> (\<forall>u\<in>set us. concat (chunked n (snd u)) = snd u)"
proof -
  let ?cu = "cu\<lparr>cu_replies := Exhausted []\<rparr>" and ?command = "[''s'', stmt, [CHR 0x0a, CHR '';'']]"
  have conv: "conversation_transport (env_T E) tok tpend tpat out" using assms(1) by (rule upload_transport.axioms)
  have h: "ready tok ss cs s (cu_conn ?cu)" "t_operation (cu_timeouts ?cu) = None"
    "length (concat (map (\<lambda>c. frame (terminated (fst (snd c)))) cs) @ frame (concat ?command)) < env_F E"
    "\<forall>m\<in>set ms. length m \<le> cn_max_response_size (cu_conn ?cu)" "length m \<le> cn_max_response_size (cu_conn ?cu)" "0 < env_F E"
    "\<forall>u\<in>set us. available (cn_max_response_size (cu_conn ?cu)) content u" using assms by simp_all
  note answers = upload_transport.files_answered [OF assms(1) refl assms(2,17,13,3,11) h(5) byte_search.ordinary_no_request [OF assms(3,14)] h(7)]
  obtain s' c' where q: "command_with_uploads E X ?command vec n upload p ?cu = (Ok (), m, produced after p us, ?cu\<lparr>cu_conn := c'\<rparr>)"
    "ready tok [] [] s' c'" "sock_pend tpend s' = rest"
    "out (inner s') = out (inner s) @ concat (map (\<lambda>c. frame (terminated (fst (snd c)))) cs) @ frame (concat ?command) @ concat (map (\<lambda>u. file_text n (snd u)) us)"
    by (rule conversation_transport.statement_exchange [OF conv refl assms(2,4) h(1,2) assms(10,8,9,18) h(3,4) answers]) (rule that, assumption+)
  have "install_response E m (?cu\<lparr>cu_conn := c'\<rparr>) = (Ok (), cu\<lparr>cu_replies := replies, cu_conn := c'\<rparr>)"
    using assms(15) byte_search.ordinary_no_error [OF assms(3,14)] by (simp add: install_response_def detect_errors_def Let_def)
  then have "execute_with_streaming_uploads_with_chunk_size E X stmt n upload p cu = (Ok (), produced after p us, cu\<lparr>cu_replies := replies, cu_conn := c'\<rparr>)"
    using q(1) by (simp add: execute_with_streaming_uploads_with_chunk_size_def exhaust_idle [OF assms(7) h(6)])
  then show ?thesis using q(2-4) chunked_concat [OF assms(13)] by auto
qed

text \<open>A file of five bytes, sent in messages of two; the close of an earlier result set was queued.\<close>

definition example_files :: "bytes \<rightharpoonup> bytes" where
  "example_files = [''x.csv'' \<mapsto> ''1,2,3'']"

definition example_wanted :: "(bytes \<times> bytes) list" where
  "example_wanted = [(''r 0 x.csv'', ''1,2,3'')]"

definition example_inserted :: bytes where
  "example_inserted = ''&2 3 -1'' @ [CHR 0x0a]"

definition asking_script :: script where
  "asking_script = \<lparr>clock = 0, events = [(0, Recv (frame [])), (0, Recv (file_request 2 (hd example_wanted))), (0, Recv (frame example_inserted))],
     allowances = [], sent = []\<rparr>"

lemma asking_script_ok: "script_calm_out asking_script" "script_pend asking_script = frame [] @ concat (map (file_request 2) example_wanted) @ frame example_inserted"
  "script_patience asking_script = 0"
  by (auto simp: asking_script_def script_calm_out_def script_calm_def script_ok_def script_pend_def script_patience_def example_wanted_def file_request_def
      frame_nonempty [symmetric])

lemma example_wanted_ok:
  "\<forall>u\<in>set example_wanted. available 1000 (\<lambda>name. map_option (\<lambda>data. [data]) (example_files name)) u" "produced (\<lambda>p name. p) p example_wanted = p"
  by (simp_all add: example_wanted_def available_def example_files_def upload_filename_def strip_prefix_def produced_def utf8_step_def)

lemma example_inserted_ok: "ordinary example_inserted" "length example_inserted \<le> 1000" "\<exists>p. ReplyParser_new ref_libs example_inserted = Ok p"
  by (simp_all add: example_inserted_def ordinary_def ReplyParser_new_def parse_def parse_successful_update_def ref_libs_def Let_def
      parse_header_def split_str_def Reply_Buf.split_def Reply_Buf.find_def consume_def from_utf8_def utf8_step_def ReplyBuf_new_def peek_def trim_ascii_def
      parse_header_line_def is_ascii_digit_def is_ascii_whitespace_def parse_i64_def parse_int_def)

theorem files_uploaded_witness:
  "\<exists>F cu' s'. execute_with_streaming_uploads_with_chunk_size (quiet_env F) example_texts ''COPY INTO t FROM 'x.csv' ON CLIENT'' 2
       (map_upload (quiet_env F) example_texts example_files) () (idle_cursor asking_script) = (Ok (), (), cu')
     \<and> ready script_calm_out [] [] s' (cu_conn cu') \<and> concat (chunked 2 ''1,2,3'') = ''1,2,3''"
proof -
  let ?s = "idle_sock asking_script"
  note idle = idle_cursor_ok [OF asking_script_ok(1)]
  have pend: "sock_pend script_pend ?s = concat (map frame [[]]) @ concat (map (file_request 2) example_wanted) @ frame example_inserted @ []"
    "sock_patience script_patience ?s = 0"
    by (simp_all only: idle(7,8) asking_script_ok list.map concat.simps append_Nil2)
  let ?stmt = "''COPY INTO t FROM 'x.csv' ON CLIENT''"
  let ?data = "concat (map (\<lambda>c. frame (terminated (fst (snd c)))) [close_command 3]) @ frame (''s'' @ ?stmt @ [CHR 0x0a, CHR '';''])"
  define F where "F = 7 + length (sock_pend script_pend ?s) + length ?data"
  have e: "env_T (quiet_env F) = script_transport" "env_F (quiet_env F) = F" "env_L (quiet_env F) = ref_libs" "\<forall>k. 0 < env_pol (quiet_env F) k"
    "\<forall>c. env_others (quiet_env F) c = c" by (simp_all add: quiet_env_def)
  have f: "2 * 2 + 2 < F" "length (sock_pend script_pend ?s) + sock_patience script_patience ?s < F" "length ?data < F"
    unfolding pend(2) by (simp_all add: F_def)
  have o: "\<forall>m\<in>set [[]] \<union> {example_inserted}. length m \<le> cn_max_response_size (cu_conn (idle_cursor asking_script))"
    "\<forall>u\<in>set example_wanted. available (cn_max_response_size (cu_conn (idle_cursor asking_script))) (\<lambda>name. map_option (\<lambda>data. [data]) (example_files name)) u"
    "0 < (2::nat)" using example_inserted_ok(2) example_wanted_ok(1) by (simp_all add: idle(3))
  from example_inserted_ok(3) obtain replies where r: "ReplyParser_new ref_libs example_inserted = Ok replies" by blast
  have "\<exists>cu' s'. execute_with_streaming_uploads_with_chunk_size (quiet_env F) example_texts ?stmt 2 (map_upload (quiet_env F) example_texts example_files) () (idle_cursor asking_script)
      = (Ok (), produced (\<lambda>p name. p) () example_wanted, cu') \<and> cu_replies cu' = replies \<and> ready script_calm_out [] [] s' (cu_conn cu') \<and> sock_pend script_pend s' = []
      \<and> sent (inner s') = sent (inner ?s) @ concat (map (\<lambda>c. frame (terminated (fst (snd c)))) [close_command 3]) @ frame (''s'' @ ?stmt @ [CHR 0x0a, CHR '';''])
          @ concat (map (\<lambda>u. file_text 2 (snd u)) example_wanted)
      \<and> (\<forall>u\<in>set example_wanted. concat (chunked 2 (snd u)) = snd u)"
    by (rule files_uploaded [where E = "quiet_env F" and X = example_texts and stmt = ?stmt, unfolded e,
        OF script_uploads.upload_transport_axioms e(4) ref_libs.byte_search_axioms e(5) idle(1,2,4) closed_answer pend(1) map_upload_writes
          o(2,3) example_inserted_ok(1) r o(1) f])
  then show ?thesis unfolding example_wanted_ok(2) by (auto simp: example_wanted_def)
qed

end
