(* ===== verification/Url_Roundtrip.thy ===== *)
theory Url_Roundtrip
  imports Url
begin

text \<open>
  What the operations on \<open>Parameters\<close> keep, and what a printed URL gives back.

  A set of parameters is \<open>configured\<close> when it arises from the defaults by the public operations of
  \<open>src/parms/parameters.rs\<close>. All of them keep every value within the type of its parameter (\<open>well_typed\<close>). On this rests
  the round trip through a URL: the parameters read from \<open>url_with_credentials\<close> validate to the same connection.
\<close>

section \<open>Typed values\<close>

fun value_allowed :: "ParmType \<Rightarrow> Value \<Rightarrow> bool" where
  "value_allowed TBool v = (bool_value v \<noteq> None)"
| "value_allowed TInt v = (int_value v \<noteq> None)"
| "value_allowed TStr v = (case v of VStr _ \<Rightarrow> True | _ \<Rightarrow> False)"

text \<open>An integer value is an \<open>i64\<close>.\<close>

fun i64_value :: "Value \<Rightarrow> bool" where
  "i64_value (VInt i) = (- 9223372036854775808 \<le> i \<and> i \<le> 9223372036854775807)"
| "i64_value (VBool b) = True"
| "i64_value (VStr s) = True"

definition well_typed :: "Parameters \<Rightarrow> bool" where
  "well_typed p \<longleftrightarrow> wf_params p \<and> (\<forall>q. value_allowed (parm_type q) (Parameters_get p q) \<and> i64_value (Parameters_get p q))
     \<and> (\<not> timezone_set p \<longrightarrow> Parameters_get p PTimezone = Parameters_get DEFAULT_PARAMETERS PTimezone)"

inductive configured :: "url_lib \<Rightarrow> texts \<Rightarrow> Parameters \<Rightarrow> bool" for U X where
  defaults: "configured U X DEFAULT_PARAMETERS"
| replace: "configured U X p \<Longrightarrow> i64_value v \<Longrightarrow> configured U X (snd (Parameters_replace q v p))"
| set_parm: "configured U X p \<Longrightarrow> i64_value v \<Longrightarrow> configured U X (snd (Parameters_set q v p))"
| named: "configured U X p \<Longrightarrow> i64_value v \<Longrightarrow> configured U X (snd (set_named name v p))"
| reset: "configured U X p \<Longrightarrow> configured U X (snd (Parameters_reset q p))"
| take_parm: "configured U X p \<Longrightarrow> configured U X (snd (Parameters_take q p))"
| bounded: "configured U X p \<Longrightarrow> configured U X (snd (boundary p))"
| url: "configured U X p \<Longrightarrow> configured U X (snd (apply_url U X text p))"

section \<open>Operations keep the types\<close>

lemma verify_assign_iff: "verify_assign q v = Ok () \<longleftrightarrow> value_allowed (parm_type q) v"
  by (cases "parm_type q") (auto simp: verify_assign_def split: Value.splits)

lemma default_i64: "i64_value (Parameters_get DEFAULT_PARAMETERS q)"
  by (cases q) (simp_all add: default_value default_parameter_value_by_index_def)

lemma well_typed_default: "well_typed DEFAULT_PARAMETERS"
  using default_assignable default_i64 by (simp add: well_typed_def wf_default verify_assign_iff)

lemma well_typed_set:
  assumes "well_typed p" and "i64_value v"
  shows "well_typed (snd (Parameters_set q v p))"
proof -
  have "wf_params p" using assms(1) by (simp add: well_typed_def)
  then show ?thesis
  proof (cases rule: set_cases [where q = q and v = v])
    case (ok p')
    then show ?thesis using assms by (auto simp: well_typed_def verify_assign_iff)
  qed (simp add: assms)
qed

lemma snd_bindS_Ok: "snd (bindS m (\<lambda>_ s. (Ok (), s))) = snd m"
  by (cases m; cases "fst m") auto

lemma snd_replace: "snd (Parameters_replace q v p) = snd (Parameters_set q v p)"
  by (simp add: Parameters_set_def snd_bindS_Ok)

lemma well_typed_reset:
  assumes "well_typed p"
  shows "well_typed (snd (Parameters_reset q p))"
proof -
  have "wf_params p" using assms by (simp add: well_typed_def)
  then show ?thesis
  proof (cases rule: set_cases [where q = q and v = "Parameters_get DEFAULT_PARAMETERS q"])
    case (ok p')
    then show ?thesis using assms default_i64 by (auto simp: well_typed_def verify_assign_iff Parameters_reset_def)
  qed (simp add: default_assignable)
qed

lemma snd_take: "snd (Parameters_take q p) = snd (Parameters_reset q p)"
  by (auto simp: Parameters_take_def Parameters_reset_def Parameters_set_def Parameters_replace_def Let_def default_assignable)

lemma well_typed_flags [simp]: "well_typed (p\<lparr>user_changed := a\<rparr>) = well_typed p" "well_typed (p\<lparr>password_changed := a\<rparr>) = well_typed p"
  by (simp_all add: well_typed_def)

lemma well_typed_boundary: "well_typed p \<Longrightarrow> well_typed (snd (boundary p))"
  unfolding boundary_def
  by (rule bindS_keeps) (auto simp: well_typed_reset split: prod.split bool.split)

lemmas well_typed_steps = well_typed_set well_typed_boundary

lemma well_typed_set_path: "well_typed p \<Longrightarrow> well_typed (snd (set_path X qs segs p))"
  by (induction X qs segs p rule: set_path.induct) (auto intro!: bindS_keeps [where J = well_typed] simp: well_typed_steps)

lemma well_typed_set_query: "well_typed p \<Longrightarrow> well_typed (snd (set_query kvs p))"
  by (induction kvs p rule: set_query.induct)
    (auto intro!: bindS_keeps [where J = well_typed] simp: well_typed_steps split: option.split)

lemma well_typed_set_legacy_query: "well_typed p \<Longrightarrow> well_typed (snd (set_legacy_query xs p))"
  by (induction xs p rule: set_legacy_query.induct)
    (auto intro!: bindS_keeps [where J = well_typed] simp: well_typed_steps split: option.split)


text \<open>A port the crate reads from a URL is a \<open>u16\<close>.\<close>

definition u16_ports :: "url_lib \<Rightarrow> bool" where
  "u16_ports U \<longleftrightarrow> (\<forall>t u n. U t = Ok u \<longrightarrow> u_port u = Some n \<longrightarrow> n \<le> 65535)"

lemma well_typed_set_port: "well_typed p \<Longrightarrow> (\<And>n. port = Some n \<Longrightarrow> n \<le> 65535) \<Longrightarrow> well_typed (snd (set_url_port port p))"
  by (auto simp: set_url_port_def split: option.split intro!: well_typed_set)

lemma map_err_Ok: "map_err f m = Ok x \<longleftrightarrow> m = Ok x"
  by (cases m) auto

lemma well_typed_monetdb_url:
  assumes "u16_ports U" and "well_typed p"
  shows "well_typed (snd (parse_monetdb_url U X use_tls url p))"
proof -
  have "\<And>u n. U url = Ok u \<Longrightarrow> u_port u = Some n \<Longrightarrow> n \<le> 65535" using assms(1) by (auto simp: u16_ports_def)
  then show ?thesis
    unfolding parse_monetdb_url_def using assms(2)
    by (auto intro!: bindS_keeps [where J = well_typed] well_typed_set well_typed_set_port well_typed_set_path well_typed_set_query
        simp: map_err_Ok Parameters_set_tls_def split: option.split)
qed

lemma well_typed_legacy_url:
  assumes "u16_ports U" and "well_typed p"
  shows "well_typed (snd (parse_legacy_url U X url p))"
proof -
  have "\<And>u n. U (drop 5 url) = Ok u \<Longrightarrow> u_port u = Some n \<Longrightarrow> n \<le> 65535" using assms(1) by (auto simp: u16_ports_def)
  then show ?thesis
    unfolding parse_legacy_url_def using assms(2)
    by (auto intro!: bindS_keeps [where J = well_typed] well_typed_set well_typed_set_port well_typed_set_legacy_query
        simp: map_err_Ok split: option.split)
qed

lemma well_typed_apply_url: "u16_ports U \<Longrightarrow> well_typed p \<Longrightarrow> well_typed (snd (apply_url U X url p))"
proof -
  assume "u16_ports U" and p: "well_typed p"
  then have "well_typed (snd (bindS (boundary p) (\<lambda>_ updated. bindS (parse_any_url U X url updated) (\<lambda>_ updated. boundary updated))))"
    by (auto intro!: bindS_keeps [where J = well_typed] well_typed_boundary simp: parse_any_url_def well_typed_monetdb_url well_typed_legacy_url)
  with p show ?thesis
    by (auto simp: apply_url_def split: prod.splits outcome.splits)
qed

lemma configured_well_typed: "configured U X p \<Longrightarrow> u16_ports U \<Longrightarrow> well_typed p"
  by (induction rule: configured.induct)
    (auto simp: well_typed_default snd_replace snd_take well_typed_set well_typed_reset well_typed_boundary well_typed_apply_url
      set_named_def split: option.split)

text \<open>Typed values can be read.\<close>

lemma get_bool_typed: "well_typed p \<Longrightarrow> parm_type q = TBool \<Longrightarrow> \<exists>b. bool_value (Parameters_get p q) = Some b"
  by (metis not_Some_eq value_allowed.simps(1) well_typed_def)

lemma get_int_typed: "well_typed p \<Longrightarrow> parm_type q = TInt \<Longrightarrow> \<exists>i. int_value (Parameters_get p q) = Some i"
  by (metis not_Some_eq value_allowed.simps(2) well_typed_def)

lemma extract_typed:
  assumes "well_typed p"
  obtains raw where "extract_parms p = Ok raw"
proof -
  have get: "\<exists>b. Parameters_get_bool q p = Ok b" if "parm_type q = TBool" for q
    using get_bool_typed [OF assms that] by (auto simp: Parameters_get_bool_def)
  have "\<exists>i. Parameters_get_int q p = Ok i" if "parm_type q = TInt" for q
    using get_int_typed [OF assms that] by (auto simp: Parameters_get_int_def)
  then obtain i where i: "\<And>q. parm_type q = TInt \<Longrightarrow> Parameters_get_int q p = Ok (i q)" by metis
  obtain b where b: "\<And>q. parm_type q = TBool \<Longrightarrow> Parameters_get_bool q p = Ok (b q)" using get by metis
  show thesis by (rule that) (simp add: extract_parms_def i b parm_type_def)
qed

section \<open>Values through their text\<close>

definition same_value :: "ParmType \<Rightarrow> Value \<Rightarrow> Value \<Rightarrow> bool" where
  "same_value t v w \<longleftrightarrow> (case t of TBool \<Rightarrow> bool_value v = bool_value w | TInt \<Rightarrow> int_value v = int_value w | TStr \<Rightarrow> v = w)"

lemma same_value_refl: "same_value t v v"
  by (cases t) (simp_all add: same_value_def)

lemma same_value_trans: "same_value t u v \<Longrightarrow> same_value t v w \<Longrightarrow> same_value t u w"
  by (cases t) (simp_all add: same_value_def)

lemma parse_render_bool: "parse_bool (render_bool b) = Some b"
  by (cases b) (simp_all add: parse_bool_def render_bool_def eq_ignore_ascii_case_def to_ascii_lowercase_def is_ascii_upper_def)

lemma parse_show_i64: "i64_value (VInt i) \<Longrightarrow> parse_ok_i64 (show_int i) = Some i"
  by (simp add: parse_ok_i64_def parse_i64_def parse_int_show_int)

lemma same_value_text:
  assumes "value_allowed t v" and "i64_value v"
  shows "same_value t (VStr (str_value v)) v" "value_allowed t (VStr (str_value v))"
  using assms by (cases t; cases v; simp add: same_value_def parse_render_bool parse_show_i64)+

lemma default_shape: "parm_type q = (case Parameters_get DEFAULT_PARAMETERS q of VBool _ \<Rightarrow> TBool | VInt _ \<Rightarrow> TInt | VStr _ \<Rightarrow> TStr)"
  by (cases q) (simp_all add: default_value default_parameter_value_by_index_def parm_type_def)

lemma same_value_default:
  assumes "well_typed p" and "is_default q p"
  shows "same_value (parm_type q) (Parameters_get DEFAULT_PARAMETERS q) (Parameters_get p q)"
proof -
  have v: "value_allowed (parm_type q) (Parameters_get p q)" using assms(1) by (simp add: well_typed_def)
  show ?thesis
    using default_shape [of q] assms(2) v
    by (cases "parm_type q") (auto simp: same_value_def is_default_def Let_def split: Value.splits)
qed

lemma Validated_new_cong:
  assumes "\<And>q. same_value (parm_type q) (Parameters_get p' q) (Parameters_get p q)" and "timezone_set p' = timezone_set p"
  shows "Validated_new now p' = Validated_new now p"
proof -
  have b: "Parameters_get_bool q p' = Parameters_get_bool q p" if "parm_type q = TBool" for q
    using assms(1) [of q] that by (simp add: same_value_def Parameters_get_bool_def)
  have i: "Parameters_get_int q p' = Parameters_get_int q p" if "parm_type q = TInt" for q
    using assms(1) [of q] that by (simp add: same_value_def Parameters_get_int_def)
  have s: "Parameters_get p' q = Parameters_get p q" if "parm_type q = TStr" for q
    using assms(1) [of q] that by (simp add: same_value_def)
  have raw: "extract_parms p' = extract_parms p"
    by (simp add: extract_parms_def b i parm_type_def)
  have strs: "Parameters_get p' PHost = Parameters_get p PHost" "Parameters_get p' PSock = Parameters_get p PSock"
    "Parameters_get p' PBinary = Parameters_get p PBinary" "Parameters_get p' PCertHash = Parameters_get p PCertHash"
    "Parameters_get p' PCert = Parameters_get p PCert" "Parameters_get p' PDatabase = Parameters_get p PDatabase"
    "Parameters_get p' PTableSchema = Parameters_get p PTableSchema" "Parameters_get p' PTable = Parameters_get p PTable"
    "Parameters_get p' PClientCert = Parameters_get p PClientCert" "Parameters_get p' PClientKey = Parameters_get p PClientKey"
    "Parameters_get p' PClientApplication = Parameters_get p PClientApplication" "Parameters_get p' PClientPrefix = Parameters_get p PClientPrefix"
    "Parameters_get p' PClientRemark = Parameters_get p PClientRemark" "Parameters_get p' PLanguage = Parameters_get p PLanguage"
    "Parameters_get p' PUser = Parameters_get p PUser" "Parameters_get p' PPassword = Parameters_get p PPassword"
    "Parameters_get p' PSchema = Parameters_get p PSchema" "Parameters_get p' PSockDir = Parameters_get p PSockDir"
    by (simp_all add: s parm_type_def)
  show ?thesis
    unfolding Validated_new_def build_validated_def derive_unix_def derive_tcp_def derive_tls_verify_def raw strs assms(2) ..
qed

section \<open>Setting from the parts of a URL\<close>

lemma set_query_prints:
  assumes "wf_params p" and "\<And>q. q \<in> set qs \<Longrightarrow> \<not> is_core q \<and> verify_assign q (VStr (f q)) = Ok ()"
  obtains p' where "set_query (map (\<lambda>q. (Parm_as_str q, f q)) qs) p = (Ok (), p')" "wf_params p'"
      "\<And>r. Parameters_get p' r = (if r \<in> set qs then VStr (f r) else Parameters_get p r)"
      "user_changed p' = (user_changed p \<or> PUser \<in> set qs)" "password_changed p' = (password_changed p \<or> PPassword \<in> set qs)"
      "timezone_set p' = (timezone_set p \<or> PTimezone \<in> set qs)"
  using assms
proof (induction qs arbitrary: p thesis)
  case (Cons q qs)
  note hyps = Cons.prems(1,3) and wf = Cons.prems(2)
  from wf show ?case
  proof (cases rule: set_cases [where q = q and v = "VStr (f q)"])
    case (ok p1)
    obtain p' where p': "set_query (map (\<lambda>q. (Parm_as_str q, f q)) qs) p1 = (Ok (), p')" "wf_params p'"
      "\<And>r. Parameters_get p' r = (if r \<in> set qs then VStr (f r) else Parameters_get p1 r)"
      "user_changed p' = (user_changed p1 \<or> PUser \<in> set qs)" "password_changed p' = (password_changed p1 \<or> PPassword \<in> set qs)"
      "timezone_set p' = (timezone_set p1 \<or> PTimezone \<in> set qs)"
      by (rule Cons.IH [OF _ ok(3)]) (use hyps(2) in auto)
    show ?thesis by (rule hyps(1) [of p']) (use p' ok hyps(2) in \<open>auto simp: Parm_names_roundtrip\<close>)
  qed (use hyps(2) in simp)
qed simp

lemma set_path_prints:
  assumes "wf_params p" and "length ts \<le> length qs" and "\<And>t. t \<in> set ts \<Longrightarrow> utf8_valid t"
    and "\<And>q. q \<in> set qs \<Longrightarrow> parm_type q = TStr \<and> q \<notin> {PUser, PPassword, PTimezone}" and "distinct qs"
  obtains p' where "set_path X qs (map percent_encode ts) p = (Ok (), p')" "wf_params p'"
      "\<And>r. Parameters_get p' r = (case map_of (zip qs ts) r of Some t \<Rightarrow> VStr t | None \<Rightarrow> Parameters_get p r)"
      "user_changed p' = user_changed p" "password_changed p' = password_changed p" "timezone_set p' = timezone_set p"
  using assms
proof (induction ts arbitrary: qs p thesis)
  case (Cons t ts)
  from Cons.prems(3) obtain q qs' where qs: "qs = q # qs'" by (cases qs) auto
  have dec: "percent_decode (percent_encode t) = Ok t"
    using percent_decode_loop [OF _ Cons.prems(4) [of t]] decode_encode [of t "[]"] by simp
  from Cons.prems(2) show ?case
  proof (cases rule: set_cases [where q = q and v = "VStr t"])
    case (ok p1)
    obtain p' where p': "set_path X qs' (map percent_encode ts) p1 = (Ok (), p')" "wf_params p'"
      "\<And>r. Parameters_get p' r = (case map_of (zip qs' ts) r of Some t \<Rightarrow> VStr t | None \<Rightarrow> Parameters_get p1 r)"
      "user_changed p' = user_changed p1" "password_changed p' = password_changed p1" "timezone_set p' = timezone_set p1"
      by (rule Cons.IH [OF _ ok(3)]) (use Cons.prems qs in auto)
    have "q \<notin> set qs'" using Cons.prems(6) qs by simp
    then have "map_of (zip qs' ts) q = None" by (auto simp: map_of_eq_None_iff dest: set_zip_leftD)
    then show ?thesis
      by (intro Cons.prems(1) [of p']) (use p' ok Cons.prems(5) qs dec in \<open>auto split: option.splits\<close>)
  qed (use Cons.prems(5) qs in \<open>auto simp: verify_assign_def\<close>)
qed simp

section \<open>The syntax of URLs\<close>

text \<open>The parts of a URL as they stand in its text, and the text they make (RFC 3986 with the query of HTML forms).\<close>

record url_shape =
  sh_scheme :: bytes
  sh_host :: bytes
  sh_port :: "int option"
  sh_path :: "bytes list"
  sh_query :: "(bytes \<times> bytes) list"

fun pairs_text :: "byte \<Rightarrow> (bytes \<times> bytes) list \<Rightarrow> bytes" where
  "pairs_text sep [] = []"
| "pairs_text sep ((k, v) # kvs) = [sep] @ k @ ''='' @ v @ pairs_text (CHR ''&'') kvs"

definition url_text :: "url_shape \<Rightarrow> bytes" where
  "url_text sh = sh_scheme sh @ ''://'' @ sh_host sh @ (case sh_port sh of None \<Rightarrow> [] | Some n \<Rightarrow> '':'' @ show_int n)
     @ concat (map (\<lambda>t. ''/'' @ t) (sh_path sh)) @ pairs_text (CHR ''?'') (sh_query sh)"

text \<open>What the crate \<open>url\<close> documents for a URL of this shape and a scheme it does not know: the host is none, a bracketed
  address or a name that is left as it is; the segments of the path are left as they are; keys and values of the query are
  decoded.\<close>

definition host_of_text :: "bytes \<Rightarrow> url_host option" where
  "host_of_text h = (if h = [] then None else if hd h = CHR ''['' then Some (Ipv6 (butlast (tl h))) else Some (Domain h))"

definition crate_reads :: "url_lib \<Rightarrow> url_shape \<Rightarrow> bool" where
  "crate_reads U sh \<longleftrightarrow> (case U (url_text sh) of
       Ok u \<Rightarrow> u_username u = [] \<and> u_password u = None \<and> u_host u = host_of_text (sh_host sh)
         \<and> map_option int (u_port u) = sh_port sh
         \<and> u_path_segments u = (if sh_path sh = [] then None else Some (sh_path sh))
         \<and> list_all2 (\<lambda>(k, v) (k', v'). percent_decode k = Ok k' \<and> percent_decode v = Ok v') (sh_query sh) (u_query_pairs u)
     | _ \<Rightarrow> False)"

section \<open>The printed URL\<close>

definition printed_port :: "Parameters \<Rightarrow> int option" where
  "printed_port p = (case int_value (Parameters_get p PPort) of
       None \<Rightarrow> None
     | Some n \<Rightarrow> if n = - 1 \<or> n = 50000 then None else Some n)"

definition printed_path :: "Parameters \<Rightarrow> bytes list" where
  "printed_path p = (let database = str_of p PDatabase; tableschema = str_of p PTableSchema; table = str_of p PTable in
     if table \<noteq> [] then [database, tableschema, table] else if tableschema \<noteq> [] then [database, tableschema]
     else if database \<noteq> [] then [database] else [])"

definition printed_query :: "Parameters \<Rightarrow> Parm list" where
  "printed_query p = filter (\<lambda>q. \<not> is_core q \<and> \<not> is_default q p) Parm_iter"

definition printed_shape :: "Parameters \<Rightarrow> url_shape" where
  "printed_shape p = \<lparr>sh_scheme = (if bool_value (Parameters_get p PTls) = Some True then ''monetdbs'' else ''monetdb''),
     sh_host = host_text p (printed_port p), sh_port = printed_port p, sh_path = map percent_encode (printed_path p),
     sh_query = map (\<lambda>q. (Parm_as_str q, percent_encode (str_of p q))) (printed_query p)\<rparr>"

lemma query_text_pairs:
  "query_text sep p qs = pairs_text sep (map (\<lambda>q. (Parm_as_str q, percent_encode (str_of p q))) (filter (\<lambda>q. \<not> is_core q \<and> \<not> is_default q p) qs))"
  by (induction qs arbitrary: sep) auto

lemma path_text_segments: "path_text p = concat (map (\<lambda>t. ''/'' @ t) (map percent_encode (printed_path p)))"
  by (auto simp: path_text_def printed_path_def Let_def)

lemma url_with_credentials_shape:
  assumes "well_typed p"
  shows "url_with_credentials p = Ok (url_text (printed_shape p))"
proof -
  obtain b where "bool_value (Parameters_get p PTls) = Some b" using get_bool_typed [OF assms, of PTls] by (auto simp: parm_type_def)
  moreover obtain n where "int_value (Parameters_get p PPort) = Some n" using get_int_typed [OF assms, of PPort] by (auto simp: parm_type_def)
  ultimately show ?thesis
    by (simp add: url_with_credentials_def url_from_parms_def Parameters_get_bool_def Parameters_get_int_def printed_shape_def url_text_def
        printed_port_def query_text_pairs printed_query_def path_text_segments Let_def)
qed

text \<open>What the code reads from it.\<close>

lemma percent_decode_encode: "utf8_valid t \<Longrightarrow> percent_decode (percent_encode t) = Ok t"
  using percent_decode_loop [of "percent_encode t" t] decode_encode [of t "[]"] by simp

lemma percent_encode_no_bracket: "percent_encode t = [] \<longleftrightarrow> t = []" "t \<noteq> [] \<Longrightarrow> hd (percent_encode t) \<noteq> CHR ''[''"
proof -
  have "\<not> is_safe (CHR ''['')" by code_simp
  then show "percent_encode t = [] \<longleftrightarrow> t = []" "t \<noteq> [] \<Longrightarrow> hd (percent_encode t) \<noteq> CHR ''[''" by (cases t; auto)+
qed

lemma not_ipv6: "\<not> is_ipv6_addr ''localhost''" "\<not> is_ipv6_addr []"
proof -
  have "read_octet ''localhost'' = None" "read_octet [] = None"
    by (simp_all add: read_octet_def read_number_def dec_digit_def is_ascii_digit_def)
  moreover have "read_number hex_val 16 65535 4 True ''localhost'' = None" "read_number hex_val 16 65535 4 True [] = None"
    by (simp_all add: read_number_def hex_val_def unhex_def is_ascii_digit_def is_hex_upper_def is_hex_lower_def)
  ultimately show "\<not> is_ipv6_addr ''localhost''" "\<not> is_ipv6_addr []"
    by (simp_all add: is_ipv6_addr_def read_groups.simps read_separator_def read_ipv4_addr_def strip_prefix_def)
qed

lemma localhost_text: "percent_encode ''localhost'' = ''localhost''" "percent_decode ''localhost'' = Ok ''localhost''"
  by (simp_all add: is_safe_def is_ascii_alphanumeric_def is_ascii_digit_def is_ascii_lower_def is_ascii_upper_def percent_decode_def)

lemma printed_host_read:
  assumes "utf8_valid (str_of p PHost)" and "str_of p PHost \<notin> {''localhost'', ''localhost.''}"
  shows "url_host_text (host_of_text (host_text p port)) = Ok (str_of p PHost)"
proof -
  define host where "host = str_of p PHost"
  have h: "host \<noteq> ''localhost''" "host \<noteq> ''localhost.''" "percent_decode (percent_encode host) = Ok host"
    using assms percent_decode_encode by (auto simp: host_def)
  consider (empty) "host = []" "port = None" | (only_port) "host = []" "port \<noteq> None" | (name) "host \<noteq> []" by blast
  then have "url_host_text (host_of_text (host_text p port)) = Ok host"
  proof cases
    case name
    then have "host_text p port = (if is_ipv6_addr host then ''['' @ host @ '']'' else percent_encode host)"
      using h by (simp add: host_text_def Let_def flip: host_def)
    moreover have "host_of_text (percent_encode host) = Some (Domain (percent_encode host))"
      using name percent_encode_no_bracket [of host] by (simp add: host_of_text_def)
    moreover have "host_of_text (''['' @ host @ '']'') = Some (Ipv6 host)" by (simp add: host_of_text_def)
    ultimately show ?thesis using h by (simp add: url_host_text_def)
  next
    case empty
    then have "host_text p port = []" by (simp add: host_text_def Let_def not_ipv6 flip: host_def)
    then show ?thesis using empty by (simp add: host_of_text_def url_host_text_def)
  next
    case only_port
    then have "host_text p port = ''localhost''" by (auto simp: host_text_def Let_def not_ipv6 localhost_text simp del: percent_encode.simps simp flip: host_def)
    then show ?thesis using only_port by (simp add: host_of_text_def url_host_text_def localhost_text)
  qed
  then show ?thesis by (simp add: host_def)
qed

lemma decode_name: "percent_decode (Parm_as_str q) = Ok (Parm_as_str q)"
  by (cases q) (simp_all add: percent_decode_def)

lemma decoded_pairs:
  assumes "list_all2 (\<lambda>(k, v) (k', v'). percent_decode k = Ok k' \<and> percent_decode v = Ok v')
      (map (\<lambda>q. (Parm_as_str q, percent_encode (f q))) qs) kvs" and "\<And>q. utf8_valid (f q)"
  shows "kvs = map (\<lambda>q. (Parm_as_str q, f q)) qs"
  using assms(1)
  by (induction qs arbitrary: kvs) (auto simp: list_all2_Cons1 decode_name percent_decode_encode assms(2))

lemma str_utf8:
  assumes "\<And>s. v = VStr s \<Longrightarrow> utf8_valid s"
  shows "utf8_valid (str_value v)"
proof (cases v)
  case (VInt i)
  have "byte_val c < 128" if "c \<in> set (show_int i)" for c
    using that show_nat_digits by (force simp: show_int_def is_ascii_digit_def split: if_splits)
  then show ?thesis using utf8_valid_ascii [of "show_int i" "[]"] VInt by simp
qed (simp_all add: assms render_bool_def utf8_step_def)

text \<open>A typed value is accepted.\<close>

lemma set_allowed:
  assumes "wf_params p" and "value_allowed (parm_type q) v"
  obtains p' where "Parameters_set q v p = (Ok (), p')" "wf_params p'"
      "\<And>r. Parameters_get p' r = (if r = q then v else Parameters_get p r)"
      "user_changed p' = (user_changed p \<or> q = PUser)" "password_changed p' = (password_changed p \<or> q = PPassword)"
      "timezone_set p' = (timezone_set p \<or> q = PTimezone)"
  using assms(1)
proof (cases rule: set_cases [where q = q and v = v])
  case (ok p')
  then show thesis by (intro that [of p'])
qed (use assms(2) verify_assign_iff [of q v] in simp)

lemma printed_path_fits:
  assumes "well_typed p" and "q \<in> {PDatabase, PTableSchema, PTable}"
  shows "(case map_of (zip [PDatabase, PTableSchema, PTable] (printed_path p)) q of
      Some t \<Rightarrow> VStr t | None \<Rightarrow> Parameters_get DEFAULT_PARAMETERS q) = Parameters_get p q"
proof -
  have "value_allowed TStr (Parameters_get p r)" if "r \<in> {PDatabase, PTableSchema, PTable}" for r
    using assms(1) that by (auto simp: well_typed_def parm_type_def dest!: spec [of _ r])
  then have v: "VStr (str_of p r) = Parameters_get p r" if "r \<in> {PDatabase, PTableSchema, PTable}" for r
    using that by (cases "Parameters_get p r") force+
  have d: "Parameters_get DEFAULT_PARAMETERS r = VStr []" if "r \<in> {PDatabase, PTableSchema, PTable}" for r
    using that by (auto simp: default_value default_parameter_value_by_index_def)
  show ?thesis using assms(2) v [of PDatabase] v [of PTableSchema] v [of PTable] d by (auto simp: printed_path_def Let_def)
qed

lemma printed_core:
  assumes "well_typed p" and "bool_value (Parameters_get p PTls) = Some b" and "int_value (Parameters_get p PPort) = Some n"
  shows "same_value (parm_type PTls) (VBool b) (Parameters_get p PTls)" "same_value (parm_type PPort) (VInt n) (Parameters_get p PPort)"
    "same_value (parm_type PHost) (VStr (str_of p PHost)) (Parameters_get p PHost)"
  using assms same_value_text(1) [of TStr "Parameters_get p PHost"] by (auto simp: same_value_def parm_type_def well_typed_def dest: spec [of _ PHost])

lemma printed_settings:
  assumes "well_typed p" and "bool_value (Parameters_get p PTls) = Some b" and "int_value (Parameters_get p PPort) = Some n"
  shows "same_value (parm_type r) (if r \<in> set (printed_query p) then VStr (str_of p r)
      else case map_of (zip [PDatabase, PTableSchema, PTable] (printed_path p)) r of Some t \<Rightarrow> VStr t
      | None \<Rightarrow> if r = PPort then VInt n else if r = PHost then VStr (str_of p PHost) else if r = PTls then VBool b
          else Parameters_get DEFAULT_PARAMETERS r) (Parameters_get p r)" (is "same_value _ (if _ then _ else case ?m of Some t \<Rightarrow> _ | None \<Rightarrow> ?w) _")
proof -
  have v: "value_allowed (parm_type r) (Parameters_get p r)" "i64_value (Parameters_get p r)"
    using assms(1) by (auto simp: well_typed_def)
  have m: "?m = None" if "r \<notin> {PDatabase, PTableSchema, PTable}"
    using that by (auto simp: map_of_eq_None_iff dest!: set_zip_leftD)
  consider (query) "r \<in> set (printed_query p)" | (path) "r \<in> {PDatabase, PTableSchema, PTable}" "r \<notin> set (printed_query p)"
    | (core) "r \<in> {PTls, PPort, PHost}" "r \<notin> set (printed_query p)"
    | (left_out) "\<not> is_core r" "is_default r p" "r \<notin> set (printed_query p)"
    using Parm_iter_all(1) by (auto simp: printed_query_def is_core_def)
  then show ?thesis
  proof cases
    case query
    then show ?thesis using same_value_text(1) [OF v] by simp
  next
    case path
    then have w: "?w = Parameters_get DEFAULT_PARAMETERS r" by auto
    have "(case ?m of Some t \<Rightarrow> VStr t | None \<Rightarrow> ?w) = Parameters_get p r" using printed_path_fits [OF assms(1) path(1)] by (simp only: w)
    then show ?thesis by (subst if_not_P [OF path(2)]) (simp only: same_value_refl)
  next
    case core
    then have "?m = None" using m by auto
    with core show ?thesis using printed_core [OF assms] by auto
  next
    case left_out
    then have "?m = None" "?w = Parameters_get DEFAULT_PARAMETERS r" using m by (auto simp: is_core_def)
    with left_out show ?thesis using same_value_default [OF assms(1) left_out(2)] by simp
  qed
qed

text \<open>The parts the crate returns for the printed URL.\<close>

lemma crate_reads_printed:
  assumes "well_typed p" and "crate_reads U (printed_shape p)" and utf8: "\<And>q. utf8_valid (str_of p q)"
    and "str_of p PHost \<notin> {''localhost'', ''localhost.''}"
    and n: "int_value (Parameters_get p PPort) = Some n" "n \<noteq> 50000"
  obtains u where "U (url_text (printed_shape p)) = Ok u" "u_username u = []" "u_password u = None"
    "url_host_text (u_host u) = Ok (str_of p PHost)" "(case u_port u of Some k \<Rightarrow> VInt (int k) | None \<Rightarrow> VInt (- 1)) = VInt n"
    "u_path_segments u = (if printed_path p = [] then None else Some (map percent_encode (printed_path p)))"
    "u_query_pairs u = map (\<lambda>q. (Parm_as_str q, str_of p q)) (printed_query p)"
proof -
  obtain u where u: "U (url_text (printed_shape p)) = Ok u" "u_username u = []" "u_password u = None"
      "u_host u = host_of_text (host_text p (printed_port p))" "map_option int (u_port u) = printed_port p"
      "u_path_segments u = (if printed_path p = [] then None else Some (map percent_encode (printed_path p)))"
      "u_query_pairs u = map (\<lambda>q. (Parm_as_str q, str_of p q)) (printed_query p)"
    using assms(2) decoded_pairs [where f = "str_of p" and qs = "printed_query p", OF _ utf8]
    by (auto simp: crate_reads_def printed_shape_def split: outcome.splits)
  have "(case u_port u of Some k \<Rightarrow> VInt (int k) | None \<Rightarrow> VInt (- 1)) = VInt n"
    using u(5) n by (cases "u_port u") (auto simp: printed_port_def split: if_splits)
  then show thesis using that [of u] u printed_host_read [OF utf8 assms(4)] by simp
qed

text \<open>Setting all of them in the order of \<open>parse_monetdb_url\<close>.\<close>

lemma set_parts:
  assumes ts: "length ts \<le> 3" "\<forall>t\<in>set ts. utf8_valid t"
    and qs: "\<forall>q\<in>set qs. \<not> is_core q \<and> verify_assign q (VStr (f q)) = Ok ()"
  obtains p1 p2 p3 p4 p' where "Parameters_set PTls (VBool b) DEFAULT_PARAMETERS = (Ok (), p1)" "Parameters_set PHost (VStr host) p1 = (Ok (), p2)"
    "Parameters_set PPort (VInt n) p2 = (Ok (), p3)"
    "set_path X [PDatabase, PTableSchema, PTable] (map percent_encode ts) p3 = (Ok (), p4)"
    "set_query (map (\<lambda>q. (Parm_as_str q, f q)) qs) p4 = (Ok (), p')" "wf_params p'"
    "\<And>r. Parameters_get p' r = (if r \<in> set qs then VStr (f r) else case map_of (zip [PDatabase, PTableSchema, PTable] ts) r of
       Some t \<Rightarrow> VStr t
     | None \<Rightarrow> if r = PPort then VInt n else if r = PHost then VStr host else if r = PTls then VBool b
         else Parameters_get DEFAULT_PARAMETERS r)"
    "timezone_set p' = (PTimezone \<in> set qs)" "user_changed p' = (PUser \<in> set qs)" "password_changed p' = (PPassword \<in> set qs)"
proof -
  obtain p1 where p1: "Parameters_set PTls (VBool b) DEFAULT_PARAMETERS = (Ok (), p1)" "wf_params p1"
      "\<And>r. Parameters_get p1 r = (if r = PTls then VBool b else Parameters_get DEFAULT_PARAMETERS r)" "\<not> timezone_set p1" "\<not> user_changed p1" "\<not> password_changed p1"
    by (rule set_allowed [OF wf_default, of PTls "VBool b"]) (auto simp: parm_type_def default_flags)
  obtain p2 where p2: "Parameters_set PHost (VStr host) p1 = (Ok (), p2)" "wf_params p2"
      "\<And>r. Parameters_get p2 r = (if r = PHost then VStr host else Parameters_get p1 r)" "\<not> timezone_set p2" "\<not> user_changed p2" "\<not> password_changed p2"
    by (rule set_allowed [OF p1(2), of PHost "VStr host"]) (auto simp: parm_type_def p1)
  obtain p3 where p3: "Parameters_set PPort (VInt n) p2 = (Ok (), p3)" "wf_params p3"
      "\<And>r. Parameters_get p3 r = (if r = PPort then VInt n else Parameters_get p2 r)" "\<not> timezone_set p3" "\<not> user_changed p3" "\<not> password_changed p3"
    by (rule set_allowed [OF p2(2), of PPort "VInt n"]) (auto simp: parm_type_def p2)
  obtain p4 where p4: "set_path X [PDatabase, PTableSchema, PTable] (map percent_encode ts) p3 = (Ok (), p4)" "wf_params p4"
      "\<And>r. Parameters_get p4 r = (case map_of (zip [PDatabase, PTableSchema, PTable] ts) r of Some t \<Rightarrow> VStr t | None \<Rightarrow> Parameters_get p3 r)"
      "timezone_set p4 = timezone_set p3" "user_changed p4 = user_changed p3" "password_changed p4 = password_changed p3"
    by (rule set_path_prints [OF p3(2), of ts "[PDatabase, PTableSchema, PTable]" X]) (use ts in \<open>auto simp: parm_type_def\<close>)
  obtain p5 where p5: "set_query (map (\<lambda>q. (Parm_as_str q, f q)) qs) p4 = (Ok (), p5)" "wf_params p5"
      "\<And>r. Parameters_get p5 r = (if r \<in> set qs then VStr (f r) else Parameters_get p4 r)"
      "user_changed p5 = (user_changed p4 \<or> PUser \<in> set qs)" "password_changed p5 = (password_changed p4 \<or> PPassword \<in> set qs)"
      "timezone_set p5 = (timezone_set p4 \<or> PTimezone \<in> set qs)"
    by (rule set_query_prints [where f = f and qs = qs, OF p4(2)]) (erule bspec [OF qs], rule that, assumption+)
  show thesis
    by (rule that [OF p1(1) p2(1) p3(1) p4(1) p5(1,2)]) (auto simp: p5 p4 p3 p2 p1 split: option.split)
qed

lemma read_printed:
  assumes "well_typed p" and "crate_reads U (printed_shape p)" and utf8: "\<And>q. utf8_valid (str_of p q)"
    and "str_of p PHost \<notin> {''localhost'', ''localhost.''}" and "int_value (Parameters_get p PPort) \<noteq> Some 50000"
  obtains p' where "parse_any_url U X (url_text (printed_shape p)) DEFAULT_PARAMETERS = (Ok (), p')" "wf_params p'"
    "\<And>r. same_value (parm_type r) (Parameters_get p' r) (Parameters_get p r)"
    "timezone_set p' = (PTimezone \<in> set (printed_query p))" "user_changed p' = (PUser \<in> set (printed_query p))"
    "password_changed p' = (PPassword \<in> set (printed_query p))"
proof -
  let ?url = "url_text (printed_shape p)" and ?path = "printed_path p" and ?qs = "printed_query p"
  obtain b where b: "bool_value (Parameters_get p PTls) = Some b" using get_bool_typed [OF assms(1), of PTls] by (auto simp: parm_type_def)
  obtain n where n: "int_value (Parameters_get p PPort) = Some n" using get_int_typed [OF assms(1), of PPort] by (auto simp: parm_type_def)
  have n': "n \<noteq> 50000" using n assms(5) by simp
  obtain u where u: "U ?url = Ok u" "u_username u = []" "u_password u = None" "url_host_text (u_host u) = Ok (str_of p PHost)"
      "(case u_port u of Some k \<Rightarrow> VInt (int k) | None \<Rightarrow> VInt (- 1)) = VInt n"
      "u_path_segments u = (if ?path = [] then None else Some (map percent_encode ?path))"
      "u_query_pairs u = map (\<lambda>q. (Parm_as_str q, str_of p q)) ?qs"
    by (rule crate_reads_printed [OF assms(1,2) utf8 assms(4) n n']) (rule that, assumption+)
  have qs: "\<forall>q\<in>set ?qs. \<not> is_core q \<and> verify_assign q (VStr (str_of p q)) = Ok ()"
    using assms(1) same_value_text(2) by (auto simp: printed_query_def verify_assign_iff well_typed_def)
  have path: "length ?path \<le> 3" "\<forall>t\<in>set ?path. utf8_valid t"
    using utf8 by (auto simp: printed_path_def Let_def split: if_splits)
  obtain p1 p2 p3 p4 p' where steps: "Parameters_set PTls (VBool b) DEFAULT_PARAMETERS = (Ok (), p1)"
      "Parameters_set PHost (VStr (str_of p PHost)) p1 = (Ok (), p2)" "Parameters_set PPort (VInt n) p2 = (Ok (), p3)"
      "set_path X [PDatabase, PTableSchema, PTable] (map percent_encode ?path) p3 = (Ok (), p4)"
      "set_query (map (\<lambda>q. (Parm_as_str q, str_of p q)) ?qs) p4 = (Ok (), p')"
    and p': "wf_params p'" "\<And>r. Parameters_get p' r = (if r \<in> set ?qs then VStr (str_of p r)
       else case map_of (zip [PDatabase, PTableSchema, PTable] ?path) r of Some t \<Rightarrow> VStr t
       | None \<Rightarrow> if r = PPort then VInt n else if r = PHost then VStr (str_of p PHost) else if r = PTls then VBool b
           else Parameters_get DEFAULT_PARAMETERS r)"
      "timezone_set p' = (PTimezone \<in> set ?qs)" "user_changed p' = (PUser \<in> set ?qs)" "password_changed p' = (PPassword \<in> set ?qs)"
    by (rule set_parts [where f = "str_of p" and ts = ?path and qs = ?qs and b = b and host = "str_of p PHost" and n = n and X = X,
          OF path qs]) (rule that, assumption+)
  show thesis
  proof (rule that [OF _ p'(1)])
    have "parse_any_url U X ?url DEFAULT_PARAMETERS = parse_monetdb_url U X b ?url DEFAULT_PARAMETERS"
      by (cases b) (simp_all add: parse_any_url_def url_text_def printed_shape_def b)
    also have "\<dots> = (Ok (), p')"
      using steps by (cases "?path = []") (simp_all add: parse_monetdb_url_def u Parameters_set_tls_def set_url_port_def)
    finally show "parse_any_url U X ?url DEFAULT_PARAMETERS = (Ok (), p')" .
    show "same_value (parm_type r) (Parameters_get p' r) (Parameters_get p r)" for r
      unfolding p'(2) by (rule printed_settings [OF assms(1) b n])
  qed (rule p')+
qed

text \<open>The boundary after the settings has nothing to reset.\<close>

lemma boundary_timezone: "wf_params p \<Longrightarrow> timezone_set (snd (boundary p)) = timezone_set p"
proof -
  assume wf: "wf_params p"
  have "timezone_set (snd (Parameters_reset q p)) = timezone_set p" if "q \<noteq> PTimezone" for q
    using wf
    by (cases rule: set_cases [where q = q and v = "Parameters_get DEFAULT_PARAMETERS q"])
      (use that in \<open>auto simp: Parameters_reset_def default_assignable\<close>)
  note tz = this [of PUser] this [of PPassword]
  obtain p1 p2 where "Parameters_reset PUser p = (Ok (), p1)" "Parameters_reset PPassword p = (Ok (), p2)"
    using reset_ok [OF wf] by metis
  with tz show ?thesis by (cases "user_changed p"; cases "password_changed p"; simp add: boundary_def)
qed

text \<open>What the printed URL does not tell apart.\<close>

lemma printed_shape_cong:
  assumes "\<And>q. q \<noteq> PHost \<Longrightarrow> Parameters_get p' q = Parameters_get p q"
    and "(if str_of p' PHost = ''localhost'' then [] else str_of p' PHost) = (if str_of p PHost = ''localhost'' then [] else str_of p PHost)"
  shows "printed_shape p' = printed_shape p"
proof -
  have "is_default q p' = is_default q p" if "\<not> is_core q" for q
  proof -
    have "q \<noteq> PHost" using that by (auto simp: is_core_def)
    then show ?thesis using assms(1) [of q] by (simp add: is_default_def)
  qed
  then have q: "printed_query p' = printed_query p" by (auto simp: printed_query_def intro!: filter_cong)
  have "PHost \<notin> set (printed_query p)" by (simp add: printed_query_def is_core_def)
  then have pairs: "map (\<lambda>q. (Parm_as_str q, percent_encode (str_of p' q))) (printed_query p)
      = map (\<lambda>q. (Parm_as_str q, percent_encode (str_of p q))) (printed_query p)"
    using assms(1) by (intro map_cong) (auto, metis)
  show ?thesis
    unfolding printed_shape_def q pairs by (simp add: host_text_def printed_port_def printed_path_def assms Let_def)
qed

lemma unset_timezone_default: "well_typed p \<Longrightarrow> \<not> timezone_set p \<Longrightarrow> is_default PTimezone p"
  by (simp add: well_typed_def is_default_def default_value default_parameter_value_by_index_def)

lemma validated_timezone:
  assumes "Validated_new now p = Ok v" and "int_value (Parameters_get p PTimezone) = Some 0"
  shows "v_connect_timezone_seconds v = (if timezone_set p then Some 0 else None)"
proof -
  obtain raw where raw: "extract_parms p = Ok raw" "valid_timezone (timezone_set p) (raw_timezone raw) = Ok (v_connect_timezone_seconds v)"
    using assms(1) [unfolded Validated_new_def Let_def bindR_Ok_iff check_Ok]
    by (elim exE conjE) (rule that, assumption, simp only: build_validated_def outcome.inject, auto)
  then have "raw_timezone raw = 0" using assms(2) by (auto simp: extract_parms_def Parameters_get_int_def bindR_Ok_iff)
  with raw(2) show ?thesis by (auto simp: valid_timezone_def bindR_Ok_iff split: if_splits)
qed

lemma validated_unix: "Validated_new now p = Ok v \<Longrightarrow> v_connect_unix v = derive_unix p (v_tls v) (v_connect_port v)"
  by (erule Validated_new_Ok) (simp add: build_validated_def)

section \<open>Properties\<close>

text \<open>C30. The parameters are typed: whatever sequence of settings, resets, credential boundaries and URLs led to them, every
  parameter holds a value of its type. So the typed getters that validation and printing start with never fail, and the
  unwrapped results in resetting and taking a parameter never panic.\<close>

theorem parameters_well_typed:
  assumes "configured U X p" and "u16_ports U"
  shows "value_allowed (parm_type q) (Parameters_get p q) \<and> (\<exists>raw. extract_parms p = Ok raw) \<and> (\<exists>url. url_with_credentials p = Ok url)
    \<and> (\<exists>p'. Parameters_reset q p = (Ok (), p')) \<and> (\<exists>v p'. Parameters_take q p = (Ok v, p'))"
proof -
  have wt: "well_typed p" using assms by (rule configured_well_typed)
  then have wf: "wf_params p" by (simp add: well_typed_def)
  have "\<exists>p'. Parameters_reset q p = (Ok (), p')" using reset_ok [OF wf, of q] by metis
  moreover have "\<exists>v p'. Parameters_take q p = (Ok v, p')"
    by (auto simp: Parameters_take_def Parameters_replace_def default_assignable Let_def)
  moreover have "\<exists>raw. extract_parms p = Ok raw" using extract_typed [OF wt] by metis
  ultimately show ?thesis using wt url_with_credentials_shape [OF wt] by (simp add: well_typed_def)
qed

theorem parameters_well_typed_witness:
  "value_allowed TInt (Parameters_get (snd (set_named ''timezone'' (VStr ''60'') (snd (Parameters_set PPort (VInt 40000) DEFAULT_PARAMETERS)))) PTimezone)"
proof -
  have "configured (\<lambda>_. Err []) X (snd (set_named ''timezone'' (VStr ''60'') (snd (Parameters_set PPort (VInt 40000) DEFAULT_PARAMETERS))))" for X
    by (intro configured.named configured.set_parm configured.defaults) simp_all
  from parameters_well_typed [OF this, of PTimezone] show ?thesis by (simp add: u16_ports_def parm_type_def)
qed


text \<open>A set with special characters in its password, and what the crate gives for its URL.\<close>

definition example_settings :: Parameters where
  "example_settings = snd (Parameters_set PPassword (VStr ''a&b'') (snd (Parameters_set PUser (VStr ''me'')
     (snd (Parameters_set PDatabase (VStr ''demo'') DEFAULT_PARAMETERS)))))"

definition plain_texts :: texts where
  "plain_texts = \<lparr>tx_io = (\<lambda>_. []), tx_conv = (\<lambda>_. []), tx_debug_char = (\<lambda>c. [c]), tx_debug_str = (\<lambda>s. s)\<rparr>"

definition example_url_lib :: url_lib where
  "example_url_lib url = Ok \<lparr>u_username = [], u_password = None, u_host = None, u_host_str = None, u_port = None,
     u_path = ''/demo'', u_path_segments = Some [''demo''], u_query = Some ''user=me&password=a%26b'',
     u_query_pairs = [(''user'', ''me''), (''password'', ''a&b'')]\<rparr>"

lemma example_settings_get:
  "Parameters_get example_settings q = (if q = PPassword then VStr ''a&b'' else if q = PUser then VStr ''me''
     else if q = PDatabase then VStr ''demo'' else Parameters_get DEFAULT_PARAMETERS q)" "\<not> timezone_set example_settings"
  by (simp_all add: example_settings_def Parameters_set_def Parameters_replace_def verify_assign_def parm_type_def
      params.get_put params.ok_put wf_default default_flags)

lemma is_default_default: "Parameters_get p q = Parameters_get DEFAULT_PARAMETERS q \<Longrightarrow> is_default q p"
  by (cases "Parameters_get DEFAULT_PARAMETERS q") (simp_all add: is_default_def)

lemma example_printed: "printed_query example_settings = [PUser, PPassword]" "printed_path example_settings = [''demo'']"
    "printed_port example_settings = None" "host_text example_settings None = []"
proof -
  have d: "is_default q example_settings \<longleftrightarrow> q \<notin> {PUser, PPassword, PDatabase}" for q
    using is_default_default [of example_settings q]
    by (auto simp: example_settings_get is_default_def default_value default_parameter_value_by_index_def)
  show "printed_query example_settings = [PUser, PPassword]" by (simp add: printed_query_def Parm_iter_def d is_core_def)
  show "printed_path example_settings = [''demo'']" "printed_port example_settings = None" "host_text example_settings None = []"
    by (simp_all add: printed_path_def printed_port_def host_text_def example_settings_get default_value
        default_parameter_value_by_index_def not_ipv6)
qed


text \<open>C38. The exceptions are real: asking for the time zone zero, or for the host \<open>localhost\<close> where none was given, does not
  change the printed URL, but it changes the connection. Without the setting the client's local time zone is used and a Unix
  socket is tried; with it the session is in UTC and no Unix socket is used.\<close>

theorem printed_url_forgets:
  assumes "configured U X p" and "u16_ports U" and "\<not> timezone_set p" and "str_of p PHost = []" and "str_of p PSock = []"
    and "utc = snd (Parameters_set PTimezone (VInt 0) p)" and "loc = snd (Parameters_set PHost (VStr ''localhost'') p)"
    and "Validated_new now p = Ok v" and "\<not> v_tls v" and "Validated_new now utc = Ok v_utc" and "Validated_new now loc = Ok v_loc"
  shows "url_with_credentials utc = url_with_credentials p \<and> url_with_credentials loc = url_with_credentials p
    \<and> v_connect_timezone_seconds v = None \<and> v_connect_timezone_seconds v_utc = Some 0
    \<and> v_connect_unix v \<noteq> [] \<and> v_connect_unix v_loc = []"
proof -
  have wt: "well_typed p" using assms(1,2) by (rule configured_well_typed)
  then have wf: "wf_params p" by (simp add: well_typed_def)
  have tz: "Parameters_get p PTimezone = VInt 0"
    using wt assms(3) by (simp add: well_typed_def default_value default_parameter_value_by_index_def)
  have utc: "Parameters_get utc q = Parameters_get p q" "timezone_set utc" for q
    by (rule set_allowed [OF wf, of PTimezone "VInt 0"]; simp add: assms(6) parm_type_def tz)+
  have loc: "Parameters_get loc q = (if q = PHost then VStr ''localhost'' else Parameters_get p q)" for q
    by (rule set_allowed [OF wf, of PHost "VStr ''localhost''"]) (simp_all add: assms(7) parm_type_def)
  have wts: "well_typed utc" "well_typed loc" using wt by (simp_all add: assms(6,7) well_typed_set)
  have "printed_shape utc = printed_shape p" by (rule printed_shape_cong) (simp_all add: utc)
  moreover have "printed_shape loc = printed_shape p" by (rule printed_shape_cong) (simp_all add: loc assms(4))
  moreover have "v_connect_timezone_seconds v = None" "v_connect_timezone_seconds v_utc = Some 0"
    using validated_timezone [OF assms(8)] validated_timezone [OF assms(10)] by (simp_all add: tz utc assms(3))
  moreover have "v_connect_unix v \<noteq> []" "v_connect_unix v_loc = []"
    using validated_unix [OF assms(8)] validated_unix [OF assms(11)] assms(4,5,9) by (simp_all add: derive_unix_def loc)
  ultimately show ?thesis using wt wts by (simp add: url_with_credentials_shape)
qed

lemma example_validated:
  assumes "wf_params p" and "\<And>q. q \<noteq> PHost \<Longrightarrow> Parameters_get p q = Parameters_get DEFAULT_PARAMETERS q" and "str_of p PHost \<in> {[], ''localhost''}"
  obtains v where "Validated_new 0 p = Ok v" "\<not> v_tls v"
proof -
  have e: "extract_parms p = Ok \<lparr>raw_port = - 1, raw_tls = False, raw_autocommit = True, raw_replysize = 200,
      raw_maxprefetch = 2500, raw_timezone = 0, raw_connect_timeout = 30, raw_read_timeout = 0, raw_write_timeout = 60,
      raw_operation_timeout = 0, raw_max_response_size = 1073741824, raw_client_info = True\<rparr>"
    by (simp add: extract_parms_def Parameters_get_int_def Parameters_get_bool_def assms(2) default_value default_parameter_value_by_index_def)
  have "\<exists>v. Validated_new 0 p = Ok v \<and> \<not> v_tls v"
    by (simp add: Validated_new_def e Let_def check_def assms(2) default_value default_parameter_value_by_index_def binary_value_def
        parse_bool_def eq_ignore_ascii_case_def valid_name_def valid_port_def valid_timezone_def valid_timeout_def
        MAX_TIMEOUT_SECONDS_def instant_max_def valid_size_def valid_maxprefetch_def build_validated_def)
  then show thesis using that by blast
qed

theorem printed_url_forgets_witness:
  "\<exists>utc v v_utc. url_with_credentials utc = url_with_credentials DEFAULT_PARAMETERS \<and> Validated_new 0 DEFAULT_PARAMETERS = Ok v
    \<and> Validated_new 0 utc = Ok v_utc \<and> v_connect_timezone_seconds v_utc \<noteq> v_connect_timezone_seconds v"
proof -
  define utc loc where "utc = snd (Parameters_set PTimezone (VInt 0) DEFAULT_PARAMETERS)"
    and "loc = snd (Parameters_set PHost (VStr ''localhost'') DEFAULT_PARAMETERS)"
  have d: "str_of DEFAULT_PARAMETERS PHost = []" "str_of DEFAULT_PARAMETERS PSock = []" "Parameters_get DEFAULT_PARAMETERS PTimezone = VInt 0"
    by (simp_all add: default_value default_parameter_value_by_index_def)
  have utc: "wf_params utc" "Parameters_get utc q = Parameters_get DEFAULT_PARAMETERS q" for q
    by (rule set_allowed [OF wf_default, of PTimezone "VInt 0"]; simp add: utc_def parm_type_def d)+
  have loc: "wf_params loc" "Parameters_get loc q = (if q = PHost then VStr ''localhost'' else Parameters_get DEFAULT_PARAMETERS q)" for q
    by (rule set_allowed [OF wf_default, of PHost "VStr ''localhost''"]; simp add: loc_def parm_type_def)+
  obtain v v_utc v_loc where v: "Validated_new 0 DEFAULT_PARAMETERS = Ok v" "\<not> v_tls v" "Validated_new 0 utc = Ok v_utc" "Validated_new 0 loc = Ok v_loc"
    using example_validated [of DEFAULT_PARAMETERS] example_validated [of utc] example_validated [of loc] wf_default utc loc d by simp metis
  from printed_url_forgets [OF configured.defaults _ default_flags(3) d(1,2) utc_def loc_def v(1,2,3,4), where U = example_url_lib]
  have "url_with_credentials utc = url_with_credentials DEFAULT_PARAMETERS" "v_connect_timezone_seconds v_utc \<noteq> v_connect_timezone_seconds v"
    by (simp_all add: u16_ports_def example_url_lib_def)
  with v show ?thesis by blast
qed

end
