(* ===== verification/Parms_Debug.thy ===== *)
theory Parms_Debug
  imports Url
begin

text \<open>
  The debug output of parameters, \<open>impl fmt::Debug\<close> for \<open>Parameters\<close> and \<open>Validated\<close> in \<open>src/parms/parameters.rs\<close>, which must not
  show the credentials. The builders \<open>debug_map\<close> and \<open>debug_struct\<close> of the standard library are modelled in their one-line
  form; the debug forms of a string and of a duration are arguments.
\<close>

section \<open>Model of the code\<close>

fun comma_separated :: "(bytes \<times> bytes) list \<Rightarrow> bytes" where
  "comma_separated [] = []"
| "comma_separated [(k, v)] = k @ '': '' @ v"
| "comma_separated ((k, v) # kvs) = k @ '': '' @ v @ '', '' @ comma_separated kvs"

definition debug_map :: "(bytes \<times> bytes) list \<Rightarrow> bytes" where
  "debug_map kvs = ''{'' @ comma_separated kvs @ ''}''"

definition debug_struct :: "bytes \<Rightarrow> (bytes \<times> bytes) list \<Rightarrow> bytes" where
  "debug_struct name kvs = name @ '' { '' @ comma_separated kvs @ '' }''"

definition debug_bool :: "bool \<Rightarrow> bytes" where
  "debug_bool b = (if b then ''true'' else ''false'')"

fun debug_option :: "('a \<Rightarrow> bytes) \<Rightarrow> 'a option \<Rightarrow> bytes" where
  "debug_option f None = ''None''"
| "debug_option f (Some x) = ''Some('' @ f x @ '')''"

fun Parm_debug :: "Parm \<Rightarrow> bytes" where
  "Parm_debug PDatabase = ''Database''"
| "Parm_debug PHost = ''Host''"
| "Parm_debug PPort = ''Port''"
| "Parm_debug PTls = ''Tls''"
| "Parm_debug PUser = ''User''"
| "Parm_debug PPassword = ''Password''"
| "Parm_debug PAutocommit = ''Autocommit''"
| "Parm_debug PBinary = ''Binary''"
| "Parm_debug PCert = ''Cert''"
| "Parm_debug PCertHash = ''CertHash''"
| "Parm_debug PClientCert = ''ClientCert''"
| "Parm_debug PClientKey = ''ClientKey''"
| "Parm_debug PLanguage = ''Language''"
| "Parm_debug PReplySize = ''ReplySize''"
| "Parm_debug PSchema = ''Schema''"
| "Parm_debug PSock = ''Sock''"
| "Parm_debug PSockDir = ''SockDir''"
| "Parm_debug PTimezone = ''Timezone''"
| "Parm_debug PConnectTimeout = ''ConnectTimeout''"
| "Parm_debug PReadTimeout = ''ReadTimeout''"
| "Parm_debug PWriteTimeout = ''WriteTimeout''"
| "Parm_debug POperationTimeout = ''OperationTimeout''"
| "Parm_debug PClientInfo = ''ClientInfo''"
| "Parm_debug PClientApplication = ''ClientApplication''"
| "Parm_debug PClientPrefix = ''ClientPrefix''"
| "Parm_debug PClientRemark = ''ClientRemark''"
| "Parm_debug PMaxResponseSize = ''MaxResponseSize''"
| "Parm_debug PMaxPrefetch = ''MaxPrefetch''"
| "Parm_debug PTableSchema = ''TableSchema''"
| "Parm_debug PTable = ''Table''"
| "Parm_debug PHash = ''Hash''"
| "Parm_debug PDebug = ''Debug''"
| "Parm_debug PLogfile = ''Logfile''"

fun Value_debug :: "texts \<Rightarrow> Value \<Rightarrow> bytes" where
  "Value_debug X (VBool b) = ''Bool('' @ debug_bool b @ '')''"
| "Value_debug X (VInt i) = ''Int('' @ show_int i @ '')''"
| "Value_debug X (VStr s) = ''Str('' @ tx_debug_str X s @ '')''"

definition Redacted :: bytes where
  "Redacted = ''<redacted>''"

definition ParameterMap_debug :: "texts \<Rightarrow> Parameters \<Rightarrow> bytes" where
  "ParameterMap_debug X p = debug_map (map (\<lambda>parm.
     (Parm_debug parm, if is_sensitive parm then Redacted else Value_debug X (Parameters_get p parm))) Parm_iter)"

definition Parameters_debug :: "texts \<Rightarrow> Parameters \<Rightarrow> bytes" where
  "Parameters_debug X p = debug_struct ''Parameters'' [
     (''parms'', ParameterMap_debug X p), (''user_changed'', debug_bool (user_changed p)),
     (''password_changed'', debug_bool (password_changed p)), (''timezone_set'', debug_bool (timezone_set p))]"

fun TlsVerify_debug :: "TlsVerify \<Rightarrow> bytes" where
  "TlsVerify_debug VerifyOff = ''Off''"
| "TlsVerify_debug VerifyHash = ''Hash''"
| "TlsVerify_debug VerifyCert = ''Cert''"
| "TlsVerify_debug VerifySystem = ''System''"

definition Validated_debug :: "texts \<Rightarrow> (nat \<Rightarrow> bytes) \<Rightarrow> Validated \<Rightarrow> bytes" where
  "Validated_debug X dur v = debug_struct ''Validated'' [
     (''database'', tx_debug_str X (v_database v)), (''tls'', debug_bool (v_tls v)), (''user'', Redacted), (''password'', Redacted),
     (''autocommit'', debug_bool (v_autocommit v)), (''cert'', tx_debug_str X (v_cert v)), (''language'', tx_debug_str X (v_language v)),
     (''replysize'', show_nat (v_replysize v)), (''maxprefetch'', debug_option show_nat (v_maxprefetch v)),
     (''schema'', tx_debug_str X (v_schema v)), (''client_info'', debug_bool (v_client_info v)),
     (''client_application'', tx_debug_str X (v_client_application v)), (''client_prefix'', tx_debug_str X (v_client_prefix v)),
     (''client_remark'', tx_debug_str X (v_client_remark v)),
     (''connect_timezone_seconds'', debug_option show_int (v_connect_timezone_seconds v)), (''connect_scan'', debug_bool (v_connect_scan v)),
     (''connect_unix'', tx_debug_str X (v_connect_unix v)), (''connect_tcp'', tx_debug_str X (v_connect_tcp v)),
     (''connect_port'', show_nat (v_connect_port v)), (''connect_tls_verify'', TlsVerify_debug (v_connect_tls_verify v)),
     (''connect_certhash_digits'', tx_debug_str X (v_connect_certhash_digits v)),
     (''connect_clientkey'', tx_debug_str X (v_connect_clientkey v)), (''connect_clientcert'', tx_debug_str X (v_connect_clientcert v)),
     (''connect_binary'', show_nat (v_connect_binary v)), (''connect_timeout'', debug_option dur (v_connect_timeout v)),
     (''read_timeout'', debug_option dur (v_read_timeout v)), (''write_timeout'', debug_option dur (v_write_timeout v)),
     (''operation_timeout'', debug_option dur (v_operation_timeout v)), (''max_response_size'', show_nat (v_max_response_size v))]"

section \<open>Validation looks at the credentials only to copy them\<close>

definition without_credentials :: "Validated \<Rightarrow> Validated" where
  "without_credentials v = v\<lparr>v_user := [], v_password := []\<rparr>"

lemma Validated_debug_credentials: "Validated_debug X dur (without_credentials v) = Validated_debug X dur v"
  by (simp add: Validated_debug_def without_credentials_def)

lemma Validated_new_credentials:
  assumes "\<And>q. q \<noteq> PUser \<Longrightarrow> q \<noteq> PPassword \<Longrightarrow> Parameters_get p' q = Parameters_get p q" and "timezone_set p' = timezone_set p"
  shows "bindR (Validated_new now p') (\<lambda>v. Ok (without_credentials v)) = bindR (Validated_new now p) (\<lambda>v. Ok (without_credentials v))"
proof -
  have "extract_parms p' = extract_parms p"
    by (simp add: extract_parms_def Parameters_get_bool_def Parameters_get_int_def assms)
  moreover have "without_credentials (build_validated p' raw a b c d e f g h i j k l) = without_credentials (build_validated p raw a b c d e f g h i j k l)"
    for raw a b c d e f g h i j k l
    by (simp add: without_credentials_def build_validated_def derive_unix_def derive_tcp_def derive_tls_verify_def assms)
  ultimately show ?thesis
    by (simp add: Validated_new_def bindR_assoc Let_def assms)
qed

section \<open>Properties\<close>

text \<open>C34. The credentials stay hidden: two sets of parameters that differ only in user name and password have the same URL without
  credentials and the same debug output, and so have the validated parameters made from them; and the credentials make no
  difference to whether validation succeeds. So neither a log nor an error that prints them reveals a password.\<close>

theorem credentials_hidden:
  assumes "\<forall>q. q \<noteq> PUser \<and> q \<noteq> PPassword \<longrightarrow> Parameters_get p' q = Parameters_get p q"
    and "user_changed p' = user_changed p" and "password_changed p' = password_changed p" and "timezone_set p' = timezone_set p"
  shows "url_without_credentials p' = url_without_credentials p \<and> Parameters_debug X p' = Parameters_debug X p
    \<and> bindR (Validated_new now p') (\<lambda>v. Ok (Validated_debug X dur v)) = bindR (Validated_new now p) (\<lambda>v. Ok (Validated_debug X dur v))"
proof (intro conjI)
  show "url_without_credentials p' = url_without_credentials p" using assms(1) by (rule url_hides_credentials)
  have "Parameters_get p' q = Parameters_get p q" if "\<not> is_sensitive q" for q using assms(1) that by (auto simp: is_sensitive_def)
  then have "ParameterMap_debug X p' = ParameterMap_debug X p" by (auto simp: ParameterMap_debug_def intro!: arg_cong [of _ _ debug_map])
  then show "Parameters_debug X p' = Parameters_debug X p" by (simp add: Parameters_debug_def assms)
  have v: "bindR m (\<lambda>v. Ok (Validated_debug X dur v)) = bindR (bindR m (\<lambda>v. Ok (without_credentials v))) (\<lambda>v. Ok (Validated_debug X dur v))" for m :: "(Validated, ParmError) outcome"
    by (simp add: bindR_assoc Validated_debug_credentials)
  have "bindR (Validated_new now p') (\<lambda>v. Ok (without_credentials v)) = bindR (Validated_new now p) (\<lambda>v. Ok (without_credentials v))"
    by (rule Validated_new_credentials) (use assms in simp_all)
  then show "bindR (Validated_new now p') (\<lambda>v. Ok (Validated_debug X dur v)) = bindR (Validated_new now p) (\<lambda>v. Ok (Validated_debug X dur v))"
    by (subst (1 2) v) simp
qed

theorem credentials_hidden_witness:
  "url_without_credentials (Parameters_put PPassword (VStr ''secret'') DEFAULT_PARAMETERS) = url_without_credentials DEFAULT_PARAMETERS
   \<and> Parameters_debug \<lparr>tx_io = (\<lambda>_. []), tx_conv = (\<lambda>_. []), tx_debug_char = (\<lambda>c. [c]), tx_debug_str = (\<lambda>s. s)\<rparr>
        (Parameters_put PPassword (VStr ''secret'') DEFAULT_PARAMETERS)
     = Parameters_debug \<lparr>tx_io = (\<lambda>_. []), tx_conv = (\<lambda>_. []), tx_debug_char = (\<lambda>c. [c]), tx_debug_str = (\<lambda>s. s)\<rparr> DEFAULT_PARAMETERS"
  using credentials_hidden [of "Parameters_put PPassword (VStr ''secret'') DEFAULT_PARAMETERS" DEFAULT_PARAMETERS
      "\<lparr>tx_io = (\<lambda>_. []), tx_conv = (\<lambda>_. []), tx_debug_char = (\<lambda>c. [c]), tx_debug_str = (\<lambda>s. s)\<rparr>"]
  by (simp add: params.get_put wf_default)

end
